(* ===== verification/Hal_Prelude.thy ===== *)
theory Hal_Prelude
  imports Main "HOL-Library.Word" "HOL-Library.Monad_Syntax"
begin

unbundle bit_operations_syntax

text \<open>
  Prelude of the development: the machine integers of the firmware, the platform the drivers run
  on, and the generic lemmas the component theories share.

  The firmware accesses two things whose code is not part of the repository: the hardware
  (memory-mapped registers, CSRs) and the AbstractX coroutine library (a git submodule).  Both are
  the parameter \<open>platform\<close> of every definition that uses them:
  \<^item> \<open>bus_rd\<close>, \<open>bus_wr\<close>, \<open>bus_wr8\<close>: a volatile 32-bit load, 32-bit store and 8-bit store.  A load
    may change the state of the device (a FIFO pops), so it returns the new hardware state too;
  \<^item> \<open>csr_rd\<close>, \<open>csr_set\<close>: the instructions \<^verbatim>\<open>csrr\<close> and \<^verbatim>\<open>csrs\<close>;
  \<^item> \<open>disable_interrupts_save_flags\<close>, \<open>restore_interrupts_flags\<close>, \<open>taccess\<close>: the interrupt masking
    primitives of AbstractX (\<open>taccess\<close> is \<^verbatim>\<open>abstractx::InterruptLock\<close>);
  \<^item> \<open>isr_post\<close>: \<^verbatim>\<open>abstractx::IsrDispatcher::post\<close>;
  \<^item> \<open>timer_service_init\<close>, \<open>timer_service_tick\<close>, \<open>timer_service_sleep_ms\<close>:
    \<^verbatim>\<open>abstractx::GenericTimerService<32>\<close>; the last is the suspension of a coroutine in
    \<^verbatim>\<open>co_await sleep_ms(ms)\<close>.

  The state \<open>env\<close> a driver works on holds the hardware state, the AbstractX state and the
  ordinary (non-volatile) memory, a byte per address.
\<close>

subsection \<open>Machine integers\<close>

type_synonym u8 = "8 word"
type_synonym u16 = "16 word"
type_synonym u32 = "32 word"
type_synonym u64 = "64 word"

text \<open>\<^verbatim>\<open>std::coroutine_handle<>\<close>: the address of the coroutine frame, 0 for \<^verbatim>\<open>nullptr\<close>.\<close>

type_synonym handle = u32

subsection \<open>Interrupt access policy and platform\<close>

record 'x taccess =
  access_lock :: "'x \<Rightarrow> 'x"
  access_unlock :: "'x \<Rightarrow> 'x"

datatype csr = Mcycle | Mcycleh | Mcause | Mepc | Mtval | Mstatus | Mie

record ('h, 'x) platform =
  bus_rd :: "u32 \<Rightarrow> 'h \<Rightarrow> u32 \<times> 'h"
  bus_wr :: "u32 \<Rightarrow> u32 \<Rightarrow> 'h \<Rightarrow> 'h"
  bus_wr8 :: "u32 \<Rightarrow> u8 \<Rightarrow> 'h \<Rightarrow> 'h"
  csr_rd :: "csr \<Rightarrow> 'h \<Rightarrow> u32 \<times> 'h"
  csr_set :: "csr \<Rightarrow> u32 \<Rightarrow> 'h \<Rightarrow> 'h"
  disable_interrupts_save_flags :: "'x \<Rightarrow> u32 \<times> 'x"
  restore_interrupts_flags :: "u32 \<Rightarrow> 'x \<Rightarrow> 'x"
  taccess :: "'x taccess"
  isr_post :: "handle \<Rightarrow> 'x \<Rightarrow> 'x"
  timer_service_init :: "'x \<Rightarrow> 'x"
  timer_service_tick :: "u32 \<Rightarrow> 'x \<Rightarrow> 'x"
  timer_service_sleep_ms :: "u32 \<Rightarrow> handle \<Rightarrow> 'x \<Rightarrow> 'x"

record ('h, 'x) env =
  hw :: 'h
  ax :: 'x
  ram :: "u32 \<Rightarrow> u8"

subsection \<open>Accesses of a driver to its environment\<close>

definition mmio_read :: "('h, 'x) platform \<Rightarrow> u32 \<Rightarrow> ('h, 'x) env \<Rightarrow> u32 \<times> ('h, 'x) env" where
  "mmio_read P a e = (let (v, h) = bus_rd P a (hw e) in (v, e\<lparr>hw := h\<rparr>))"

definition mmio_write :: "('h, 'x) platform \<Rightarrow> u32 \<Rightarrow> u32 \<Rightarrow> ('h, 'x) env \<Rightarrow> ('h, 'x) env" where
  "mmio_write P a v e = e\<lparr>hw := bus_wr P a v (hw e)\<rparr>"

definition mmio_write8 :: "('h, 'x) platform \<Rightarrow> u32 \<Rightarrow> u8 \<Rightarrow> ('h, 'x) env \<Rightarrow> ('h, 'x) env" where
  "mmio_write8 P a v e = e\<lparr>hw := bus_wr8 P a v (hw e)\<rparr>"

text \<open>A read-modify-write such as \<^verbatim>\<open>reg |= m\<close> on a volatile register.\<close>

definition mmio_modify ::
    "('h, 'x) platform \<Rightarrow> u32 \<Rightarrow> (u32 \<Rightarrow> u32) \<Rightarrow> ('h, 'x) env \<Rightarrow> ('h, 'x) env" where
  "mmio_modify P a f e = (let (v, e1) = mmio_read P a e in mmio_write P a (f v) e1)"

definition csr_read :: "('h, 'x) platform \<Rightarrow> csr \<Rightarrow> ('h, 'x) env \<Rightarrow> u32 \<times> ('h, 'x) env" where
  "csr_read P c e = (let (v, h) = csr_rd P c (hw e) in (v, e\<lparr>hw := h\<rparr>))"

definition csr_set_bits :: "('h, 'x) platform \<Rightarrow> csr \<Rightarrow> u32 \<Rightarrow> ('h, 'x) env \<Rightarrow> ('h, 'x) env" where
  "csr_set_bits P c m e = e\<lparr>hw := csr_set P c m (hw e)\<rparr>"

definition irq_save :: "('h, 'x) platform \<Rightarrow> ('h, 'x) env \<Rightarrow> u32 \<times> ('h, 'x) env" where
  "irq_save P e = (let (f, x) = disable_interrupts_save_flags P (ax e) in (f, e\<lparr>ax := x\<rparr>))"

definition irq_restore :: "('h, 'x) platform \<Rightarrow> u32 \<Rightarrow> ('h, 'x) env \<Rightarrow> ('h, 'x) env" where
  "irq_restore P f e = e\<lparr>ax := restore_interrupts_flags P f (ax e)\<rparr>"

definition post :: "('h, 'x) platform \<Rightarrow> handle \<Rightarrow> ('h, 'x) env \<Rightarrow> ('h, 'x) env" where
  "post P h e = e\<lparr>ax := isr_post P h (ax e)\<rparr>"

text \<open>Code between \<^verbatim>\<open>flags = disable_interrupts()\<close> and \<^verbatim>\<open>restore_interrupts(flags)\<close>.\<close>

definition masked ::
    "('h, 'x) platform \<Rightarrow> (('h, 'x) env \<Rightarrow> ('h, 'x) env) \<Rightarrow> ('h, 'x) env \<Rightarrow> ('h, 'x) env" where
  "masked P body e = (let (f, e1) = irq_save P e in irq_restore P f (body e1))"

definition with_ax :: "('x \<Rightarrow> 'r \<times> 'x) \<Rightarrow> ('h, 'x) env \<Rightarrow> 'r \<times> ('h, 'x) env" where
  "with_ax f e = (let (r, x) = f (ax e) in (r, e\<lparr>ax := x\<rparr>))"

subsection \<open>Ordinary memory: bytes and little-endian words\<close>

definition bytes_of_u32 :: "u32 \<Rightarrow> u8 list" where
  "bytes_of_u32 v = [ucast v, ucast (drop_bit 8 v), ucast (drop_bit 16 v), ucast (drop_bit 24 v)]"

definition u32_of_bytes :: "u8 \<Rightarrow> u8 \<Rightarrow> u8 \<Rightarrow> u8 \<Rightarrow> u32" where
  "u32_of_bytes a b c d =
     ucast a OR push_bit 8 (ucast b) OR push_bit 16 (ucast c) OR push_bit 24 (ucast d)"

fun store_bytes :: "u32 \<Rightarrow> u8 list \<Rightarrow> (u32 \<Rightarrow> u8) \<Rightarrow> (u32 \<Rightarrow> u8)" where
  "store_bytes a [] m = m"
| "store_bytes a (b # bs) m = store_bytes (a + 1) bs (m(a := b))"

fun load_bytes :: "u32 \<Rightarrow> nat \<Rightarrow> (u32 \<Rightarrow> u8) \<Rightarrow> u8 list" where
  "load_bytes a 0 m = []"
| "load_bytes a (Suc n) m = m a # load_bytes (a + 1) n m"

definition store_u32 :: "u32 \<Rightarrow> u32 \<Rightarrow> ('h, 'x) env \<Rightarrow> ('h, 'x) env" where
  "store_u32 a v e = e\<lparr>ram := store_bytes a (bytes_of_u32 v) (ram e)\<rparr>"

definition load_u32 :: "u32 \<Rightarrow> ('h, 'x) env \<Rightarrow> u32" where
  "load_u32 a e = u32_of_bytes (ram e a) (ram e (a + 1)) (ram e (a + 2)) (ram e (a + 3))"

definition store_u8 :: "u32 \<Rightarrow> u8 \<Rightarrow> ('h, 'x) env \<Rightarrow> ('h, 'x) env" where
  "store_u8 a v e = e\<lparr>ram := (ram e)(a := v)\<rparr>"

text \<open>\<^verbatim>\<open>std::span\<close>: address of the first element and number of elements.\<close>

record span =
  sp_data :: u32
  sp_size :: u32

definition empty_span :: span where
  "empty_span = \<lparr>sp_data = 0, sp_size = 0\<rparr>"

definition span_bytes :: "span \<Rightarrow> ('h, 'x) env \<Rightarrow> u8 list" where
  "span_bytes s e = load_bytes (sp_data s) (unat (sp_size s)) (ram e)"

definition load_span :: "u32 \<Rightarrow> ('h, 'x) env \<Rightarrow> span" where
  "load_span a e = \<lparr>sp_data = load_u32 a e, sp_size = load_u32 (a + 4) e\<rparr>"

text \<open>Undefined behaviour of an integer division.\<close>

datatype arith_error = Division_by_zero

subsection \<open>Collections of facts\<close>

named_theorems env_defs \<open>unfolding of the environment accesses\<close>
named_theorems memory_map \<open>the constants of the memory map\<close>
named_theorems regs \<open>register offsets and field masks of the drivers\<close>

lemmas [env_defs] = mmio_read_def mmio_write_def mmio_write8_def mmio_modify_def csr_read_def
  csr_set_bits_def irq_save_def irq_restore_def post_def masked_def with_ax_def
  store_u32_def store_u8_def

subsection \<open>Words\<close>

lemma bit_push_bit_1: "bit (push_bit n (1 :: 'a::len word)) i \<longleftrightarrow> i = n \<and> n < LENGTH('a)"
  by (auto simp: bit_simps)

lemma unat_lt_2p32: "unat (x :: u32) < 4294967296"
  using unsigned_less [of x] by simp

lemma unat_lt_2p8: "unat (x :: u8) < 256"
  using unsigned_less [of x] by simp

lemma unat_lt_2p64: "unat (x :: u64) < 18446744073709551616"
  using unsigned_less [of x] by simp

lemma unat_add_no_wrap:
  "unat a + unat b < 2 ^ LENGTH('a) \<Longrightarrow> unat (a + b :: 'a::len word) = unat a + unat b"
  by (simp add: unat_word_ariths)

lemma unat_ucast_mod: "unat (ucast w :: 'b::len word) = unat (w :: 'a::len word) mod 2 ^ LENGTH('b)"
  by (simp add: unsigned_ucast_eq take_bit_eq_mod)

lemma unat_ucast_32_64 [simp]: "unat (ucast (w :: u32) :: u64) = unat w"
  using unat_lt_2p32 [of w] by (simp add: unat_ucast_mod)

lemma ucast_8_32_8 [simp]: "(ucast (ucast (b :: u8) :: u32) :: u8) = b"
  by (rule bit_word_eqI) (simp add: bit_simps)

lemma bit_beyond_32: "32 \<le> n \<Longrightarrow> \<not> bit (w :: u32) n"
  using bit_imp_le_length [of w n] by auto

lemma unat_Suc_no_wrap:
  assumes "a < b"
  shows "unat (a + 1 :: 'a::len word) = Suc (unat a)"
proof -
  have "unat a < unat b" using assms by (simp add: word_less_nat_alt)
  moreover have "unat b < 2 ^ LENGTH('a)" by (rule unsigned_less)
  ultimately have "Suc (unat a) < 2 ^ LENGTH('a)" by linarith
  then show ?thesis by (simp add: unat_word_ariths)
qed

lemma unat_pred_less: "(x :: 'a::len word) \<noteq> 0 \<Longrightarrow> unat (x - 1) < unat x"
  by (simp add: unat_gt_0 unat_minus_one)

lemma of_nat_u32_inject:
  assumes "m < 4294967296" and "n < 4294967296"
  shows "(of_nat m :: u32) = of_nat n \<longleftrightarrow> m = n"
proof
  assume "(of_nat m :: u32) = of_nat n"
  then have "unat (of_nat m :: u32) = unat (of_nat n :: u32)" by simp
  with assms show "m = n" by (simp add: unat_of_nat)
qed simp

subsection \<open>Little-endian storage\<close>

lemma u32_of_bytes_of_u32:
  "u32_of_bytes (ucast v) (ucast (drop_bit 8 v)) (ucast (drop_bit 16 v)) (ucast (drop_bit 24 v)) = v"
  unfolding u32_of_bytes_def
proof (rule bit_word_eqI)
  fix n
  assume n: "n < LENGTH(32)"
  consider "n < 8" | "8 \<le> n" "n < 16" | "16 \<le> n" "n < 24" | "24 \<le> n" by linarith
  then show "bit (ucast (ucast v :: u8) OR push_bit 8 (ucast (ucast (drop_bit 8 v) :: u8)) OR
      push_bit 16 (ucast (ucast (drop_bit 16 v) :: u8)) OR
      push_bit 24 (ucast (ucast (drop_bit 24 v) :: u8)) :: u32) n = bit v n"
    using n by cases (auto simp: bit_simps)
qed

lemma load_store_u32 [simp]: "load_u32 a (store_u32 a v e) = v"
proof -
  have "a + 1 + 1 = a + 2" "a + 1 + 1 + 1 = a + 3" by simp_all
  then show ?thesis
    by (simp add: load_u32_def store_u32_def bytes_of_u32_def u32_of_bytes_of_u32 add.assoc)
qed

lemma store_bytes_outside:
  "(\<And>i. i < length bs \<Longrightarrow> x \<noteq> a + of_nat i) \<Longrightarrow> store_bytes a bs m x = m x"
proof (induction bs arbitrary: a m)
  case Nil
  then show ?case by simp
next
  case (Cons b bs)
  have "x \<noteq> a" using Cons.prems [of 0] by simp
  moreover have "x \<noteq> a + 1 + of_nat i" if "i < length bs" for i
    using Cons.prems [of "Suc i"] that by (simp add: algebra_simps)
  ultimately show ?case by (simp add: Cons.IH)
qed

lemma load_bytes_cong:
  "(\<And>i. i < n \<Longrightarrow> m (a + of_nat i) = m' (a + of_nat i)) \<Longrightarrow> load_bytes a n m = load_bytes a n m'"
proof (induction n arbitrary: a)
  case 0
  then show ?case by simp
next
  case (Suc n)
  have "m a = m' a" using Suc.prems [of 0] by simp
  moreover have "m (a + 1 + of_nat i) = m' (a + 1 + of_nat i)" if "i < n" for i
    using Suc.prems [of "Suc i"] that by (simp add: algebra_simps)
  note Suc.IH [OF this]
  ultimately show ?case by simp
qed

lemma load_store_bytes:
  "length bs \<le> 4294967296 \<Longrightarrow> load_bytes a (length bs) (store_bytes a bs m) = bs"
proof (induction bs arbitrary: a m)
  case Nil
  then show ?case by simp
next
  case (Cons b bs)
  have "a \<noteq> a + 1 + of_nat i" if "i < length bs" for i
  proof
    assume "a = a + 1 + of_nat i"
    then have "(of_nat (Suc i) :: u32) = of_nat 0" by (simp add: add.assoc)
    then show False using of_nat_u32_inject [of "Suc i" 0] that Cons.prems by simp
  qed
  then have "store_bytes (a + 1) bs (m(a := b)) a = b" by (subst store_bytes_outside) simp_all
  with Cons show ?case by simp
qed

lemma less_16_cases:
  "(i::nat) < 16 \<Longrightarrow> i = 15 \<or> i = 14 \<or> i = 13 \<or> i = 12 \<or> i = 11 \<or> i = 10 \<or> i = 9 \<or> i = 8 \<or>
    i = 7 \<or> i = 6 \<or> i = 5 \<or> i = 4 \<or> i = 3 \<or> i = 2 \<or> i = 1 \<or> i = 0"
  by arith

subsection \<open>Registers and memory that behave as storage\<close>

text \<open>
  Shared SRAM and plain configuration registers: a load returns the last value stored and changes
  nothing.  \<open>A\<close> is the set of word addresses for which this holds; registers with side effects
  (write-one-to-clear status, FIFOs) are left out of it.
\<close>

locale word_memory =
  fixes P :: "('h, 'x) platform"
    and peek :: "u32 \<Rightarrow> 'h \<Rightarrow> u32"
    and A :: "u32 set"
  assumes rd_plain: "a \<in> A \<Longrightarrow> bus_rd P a h = (peek a h, h)"
    and wr_peek: "a \<in> A \<Longrightarrow> b \<in> A \<Longrightarrow> peek b (bus_wr P a v h) = (if a = b then v else peek b h)"
begin

lemma mmio_read_plain: "a \<in> A \<Longrightarrow> mmio_read P a e = (peek a (hw e), e)"
  by (simp add: mmio_read_def rd_plain)

lemma peek_mmio_write:
  "a \<in> A \<Longrightarrow> b \<in> A \<Longrightarrow>
    peek b (hw (mmio_write P a v e)) = (if a = b then v else peek b (hw e))"
  by (simp add: mmio_write_def wr_peek)

lemma peek_mmio_modify:
  "a \<in> A \<Longrightarrow> b \<in> A \<Longrightarrow>
    peek b (hw (mmio_modify P a f e)) = (if a = b then f (peek a (hw e)) else peek b (hw e))"
  by (simp add: mmio_modify_def mmio_read_plain peek_mmio_write)

lemma peek_writes:
  assumes "fst ` set ws \<subseteq> A" and "b \<in> A" and "distinct (map fst ws)"
  shows "peek b (hw (fold (\<lambda>(a, v). mmio_write P a v) ws e)) =
    (case map_of ws b of Some v \<Rightarrow> v | None \<Rightarrow> peek b (hw e))"
  using assms
proof (induction ws arbitrary: e)
  case Nil
  then show ?case by simp
next
  case (Cons w ws)
  obtain a v where w: "w = (a, v)" by fastforce
  have "map_of ws a = None" using Cons.prems w by (simp add: map_of_eq_None_iff)
  with Cons w show ?case by (auto simp: peek_mmio_write split: option.split)
qed

end

text \<open>
  The dispatcher as its clients see it: \<open>log\<close> lists the posted coroutines in order; masking
  interrupts does not change it.
\<close>

locale dispatcher =
  fixes P :: "('h, 'x) platform"
    and log :: "'x \<Rightarrow> handle list"
  assumes log_post: "log (isr_post P h x) = log x @ [h]"
    and log_save: "log (snd (disable_interrupts_save_flags P x)) = log x"
    and log_restore: "log (restore_interrupts_flags P f x) = log x"
    and log_lock: "log (access_lock (taccess P) x) = log x"
    and log_unlock: "log (access_unlock (taccess P) x) = log x"
begin

lemma log_of_post [simp]: "log (ax (post P h e)) = log (ax e) @ [h]"
  by (simp add: post_def log_post)

lemma log_of_irq [simp]:
  "log (ax (snd (irq_save P e))) = log (ax e)"
  "log (ax (irq_restore P f e)) = log (ax e)"
  by (simp_all add: irq_save_def irq_restore_def log_save log_restore case_prod_beta Let_def)

lemma log_of_masked: "log (ax (masked P body e)) = log (ax (body (snd (irq_save P e))))"
  by (simp add: masked_def case_prod_beta)

end

lemma ax_mmio [simp]:
  "ax (snd (mmio_read P a e)) = ax e" "ax (mmio_write P a v e) = ax e"
  "ax (mmio_write8 P a b e) = ax e" "ax (mmio_modify P a f e) = ax e"
  by (simp_all add: mmio_read_def mmio_write_def mmio_write8_def mmio_modify_def case_prod_beta Let_def)

lemma ax_store [simp]:
  "ax (store_u32 a v e) = ax e" "ax (store_u8 a b e) = ax e"
  by (simp_all add: store_u32_def store_u8_def)

lemma ram_mmio [simp]:
  "ram (snd (mmio_read P a e)) = ram e" "ram (mmio_write P a v e) = ram e"
  "ram (mmio_write8 P a b e) = ram e" "ram (mmio_modify P a f e) = ram e"
  by (simp_all add: mmio_read_def mmio_write_def mmio_write8_def mmio_modify_def case_prod_beta Let_def)

lemma hw_store [simp]:
  "hw (store_u32 a v e) = hw e" "hw (store_u8 a b e) = hw e" "hw (post P h e) = hw e"
  by (simp_all add: store_u32_def store_u8_def post_def)

lemma ram_post [simp]: "ram (post P h e) = ram e"
  by (simp add: post_def)

lemma hw_irq [simp]: "hw (snd (irq_save P e)) = hw e" "hw (irq_restore P f e) = hw e"
  by (simp_all add: irq_save_def irq_restore_def case_prod_beta Let_def)

lemma ram_irq [simp]: "ram (snd (irq_save P e)) = ram e" "ram (irq_restore P f e) = ram e"
  by (simp_all add: irq_save_def irq_restore_def case_prod_beta Let_def)

lemma hw_masked_modify: "hw (masked P (mmio_modify P a f) e) = hw (mmio_modify P a f e)"
  by (simp add: masked_def irq_save_def irq_restore_def mmio_modify_def mmio_read_def
      mmio_write_def case_prod_beta Let_def)

text \<open>
  A reference platform, used to run the definitions on concrete inputs: every word and every byte
  of the hardware is storage, \<open>mie\<close> is the interrupt enable bit, a lock is counted as
  \<^verbatim>\<open>InterruptLock\<close> does, and the dispatcher records what was posted and ticked.
\<close>

record sim_hw =
  words :: "u32 \<Rightarrow> u32"
  bytes :: "u32 \<Rightarrow> u8"
  csrs :: "csr \<Rightarrow> u32"

record sim_ax =
  mie :: bool
  lock_depth :: nat
  saved_mie :: bool
  posted :: "handle list"
  timer_inits :: nat
  timer_ticks :: "u32 list"
  sleepers :: "(handle \<times> u32) list"

definition sim_access :: "sim_ax taccess" where
  "sim_access =
     \<lparr>access_lock = (\<lambda>x. if lock_depth x = 0
        then x\<lparr>mie := False, lock_depth := 1, saved_mie := mie x\<rparr>
        else x\<lparr>lock_depth := lock_depth x + 1\<rparr>),
      access_unlock = (\<lambda>x. if lock_depth x = 1
        then x\<lparr>mie := saved_mie x, lock_depth := 0\<rparr>
        else x\<lparr>lock_depth := lock_depth x - 1\<rparr>)\<rparr>"

definition sim_platform :: "(sim_hw, sim_ax) platform" where
  "sim_platform =
     \<lparr>bus_rd = (\<lambda>a h. (words h a, h)),
      bus_wr = (\<lambda>a v h. h\<lparr>words := (words h)(a := v)\<rparr>),
      bus_wr8 = (\<lambda>a v h. h\<lparr>bytes := (bytes h)(a := v)\<rparr>),
      csr_rd = (\<lambda>c h. (csrs h c, h)),
      csr_set = (\<lambda>c m h. h\<lparr>csrs := (csrs h)(c := csrs h c OR m)\<rparr>),
      disable_interrupts_save_flags = (\<lambda>x. (if mie x then 8 else 0, x\<lparr>mie := False\<rparr>)),
      restore_interrupts_flags = (\<lambda>f x. x\<lparr>mie := bit f 3\<rparr>),
      taccess = sim_access,
      isr_post = (\<lambda>h x. x\<lparr>posted := posted x @ [h]\<rparr>),
      timer_service_init = (\<lambda>x. x\<lparr>timer_inits := timer_inits x + 1\<rparr>),
      timer_service_tick = (\<lambda>n x. x\<lparr>timer_ticks := timer_ticks x @ [n]\<rparr>),
      timer_service_sleep_ms = (\<lambda>ms h x. x\<lparr>sleepers := sleepers x @ [(h, ms)]\<rparr>)\<rparr>"

definition sim_env :: "(sim_hw, sim_ax) env" where
  "sim_env =
     \<lparr>hw = \<lparr>words = (\<lambda>_. 0), bytes = (\<lambda>_. 0), csrs = (\<lambda>_. 0)\<rparr>,
      ax = \<lparr>mie = True, lock_depth = 0, saved_mie = False, posted = [], timer_inits = 0,
            timer_ticks = [], sleepers = []\<rparr>,
      ram = (\<lambda>_. 0)\<rparr>"

lemma sim_platform_simps [simp]:
  "bus_rd sim_platform a h = (words h a, h)"
  "bus_wr sim_platform a v h = h\<lparr>words := (words h)(a := v)\<rparr>"
  "bus_wr8 sim_platform a b h = h\<lparr>bytes := (bytes h)(a := b)\<rparr>"
  "csr_rd sim_platform c h = (csrs h c, h)"
  "csr_set sim_platform c v h = h\<lparr>csrs := (csrs h)(c := csrs h c OR v)\<rparr>"
  "disable_interrupts_save_flags sim_platform x = (if mie x then 8 else 0, x\<lparr>mie := False\<rparr>)"
  "restore_interrupts_flags sim_platform f x = x\<lparr>mie := bit f 3\<rparr>"
  "taccess sim_platform = sim_access"
  "isr_post sim_platform f x = x\<lparr>posted := posted x @ [f]\<rparr>"
  "timer_service_init sim_platform x = x\<lparr>timer_inits := timer_inits x + 1\<rparr>"
  "timer_service_tick sim_platform n x = x\<lparr>timer_ticks := timer_ticks x @ [n]\<rparr>"
  "timer_service_sleep_ms sim_platform ms f x = x\<lparr>sleepers := sleepers x @ [(f, ms)]\<rparr>"
  by (simp_all add: sim_platform_def)

interpretation sim: word_memory sim_platform "\<lambda>a h. words h a" UNIV
  by unfold_locales simp_all

interpretation sim_log: dispatcher sim_platform posted
  by unfold_locales (simp_all add: sim_access_def)

lemma sim_access_keeps [simp]:
  "posted (access_lock sim_access x) = posted x"
  "posted (access_unlock sim_access x) = posted x"
  "lock_depth x = 0 \<Longrightarrow> access_unlock sim_access (access_lock sim_access x) = x\<lparr>saved_mie := mie x\<rparr>"
  by (simp_all add: sim_access_def)

end
