(* ===== verification/Memory_Map.thy ===== *)
theory Memory_Map
  imports Hal_Prelude
begin

text \<open>
  \<^verbatim>\<open>hal/include/memory_map.h\<close>: the physical memory segments, the layout of the IPC window in SRAM C
  and the peripheral base addresses, with the facts about their placement that the firmware and
  its comments rely on.
\<close>

subsection \<open>Constants\<close>

definition ITCM_BASE :: u32 where
  [memory_map]: "ITCM_BASE = 0x00000000"

definition ITCM_SIZE :: u32 where
  [memory_map]: "ITCM_SIZE = 0x00010000"

definition DTCM_BASE :: u32 where
  [memory_map]: "DTCM_BASE = 0x00080000"

definition DTCM_SIZE :: u32 where
  [memory_map]: "DTCM_SIZE = 0x00010000"

definition SRAM_SHARED_BASE :: u32 where
  [memory_map]: "SRAM_SHARED_BASE = 0x07130000"

definition SRAM_SHARED_SIZE :: u32 where
  [memory_map]: "SRAM_SHARED_SIZE = 0x00010000"

definition IPC_BOOT_STATUS_ADDR :: u32 where
  [memory_map]: "IPC_BOOT_STATUS_ADDR = 0x07130000"

definition IPC_BOOT_STATUS_SIZE :: u32 where
  [memory_map]: "IPC_BOOT_STATUS_SIZE = 0x00001000"

definition IPC_CLOCK_CONFIG_ADDR :: u32 where
  [memory_map]: "IPC_CLOCK_CONFIG_ADDR = 0x07131000"

definition IPC_CLOCK_CONFIG_SIZE :: u32 where
  [memory_map]: "IPC_CLOCK_CONFIG_SIZE = 0x00001000"

definition IPC_SPSC_TX_RING_ADDR :: u32 where
  [memory_map]: "IPC_SPSC_TX_RING_ADDR = 0x07132000"

definition IPC_SPSC_RX_RING_ADDR :: u32 where
  [memory_map]: "IPC_SPSC_RX_RING_ADDR = 0x07134000"

definition IPC_TRACE_BUFFER_ADDR :: u32 where
  [memory_map]: "IPC_TRACE_BUFFER_ADDR = 0x07136000"

definition IPC_TRACE_BUFFER_SIZE :: u32 where
  [memory_map]: "IPC_TRACE_BUFFER_SIZE = 0x00008000"

definition SRAM_DEDICATED_BASE :: u32 where
  [memory_map]: "SRAM_DEDICATED_BASE = 0x07280000"

definition SRAM_DEDICATED_SIZE :: u32 where
  [memory_map]: "SRAM_DEDICATED_SIZE = 0x00040000"

definition DRAM_RESERVED_BASE :: u32 where
  [memory_map]: "DRAM_RESERVED_BASE = 0x48000000"

definition DRAM_INIT_BASE :: u32 where
  [memory_map]: "DRAM_INIT_BASE = 0x48000000"

definition DRAM_INIT_SIZE :: u32 where
  [memory_map]: "DRAM_INIT_SIZE = 0x00100000"

definition DRAM_PAYLOAD_BASE :: u32 where
  [memory_map]: "DRAM_PAYLOAD_BASE = 0x48100000"

definition DRAM_PAYLOAD_SIZE :: u32 where
  [memory_map]: "DRAM_PAYLOAD_SIZE = 0x00F00000"

definition MAIN_CCU_BASE :: u32 where
  [memory_map]: "MAIN_CCU_BASE = 0x02001000"

definition MCU_PRCM_BASE :: u32 where
  [memory_map]: "MCU_PRCM_BASE = 0x07102000"

definition UART0_BASE :: u32 where
  [memory_map]: "UART0_BASE = 0x02500000"

definition UART1_BASE :: u32 where
  [memory_map]: "UART1_BASE = 0x02500400"

definition UART2_BASE :: u32 where
  [memory_map]: "UART2_BASE = 0x02500800"

definition UART3_BASE :: u32 where
  [memory_map]: "UART3_BASE = 0x02500C00"

definition R_UART_BASE :: u32 where
  [memory_map]: "R_UART_BASE = 0x07080000"

definition SPI0_BASE :: u32 where
  [memory_map]: "SPI0_BASE = 0x04025000"

definition SPI1_BASE :: u32 where
  [memory_map]: "SPI1_BASE = 0x04026000"

definition S_SPI0_BASE :: u32 where
  [memory_map]: "S_SPI0_BASE = 0x07092000"

definition S_TWI0_BASE :: u32 where
  [memory_map]: "S_TWI0_BASE = 0x07081400"

definition S_TWI1_BASE :: u32 where
  [memory_map]: "S_TWI1_BASE = 0x07081800"

definition S_TWI2_BASE :: u32 where
  [memory_map]: "S_TWI2_BASE = 0x07081C00"

definition S_UART0_BASE :: u32 where
  [memory_map]: "S_UART0_BASE = 0x07080000"

definition S_UART1_BASE :: u32 where
  [memory_map]: "S_UART1_BASE = 0x07080400"

definition PIO_BASE :: u32 where
  [memory_map]: "PIO_BASE = 0x02000000"

definition R_PIO_BASE :: u32 where
  [memory_map]: "R_PIO_BASE = 0x07022000"

definition S_INTC_BASE :: u32 where
  [memory_map]: "S_INTC_BASE = 0x07021000"

definition SYS_DMA_BASE :: u32 where
  [memory_map]: "SYS_DMA_BASE = 0x03002000"

definition MSGBOX_BASE :: u32 where
  [memory_map]: "MSGBOX_BASE = 0x03003000"

definition RISCV_MSGBOX_BASE :: u32 where
  [memory_map]: "RISCV_MSGBOX_BASE = 0x07136000"

definition RISCV_CLINT_BASE :: u32 where
  [memory_map]: "RISCV_CLINT_BASE = 0xE0000000"

definition RISCV_MTIMECMP_ADDR :: u32 where
  [memory_map]: "RISCV_MTIMECMP_ADDR = RISCV_CLINT_BASE + 0x00004000"

definition RISCV_MTIME_ADDR :: u32 where
  [memory_map]: "RISCV_MTIME_ADDR = RISCV_CLINT_BASE + 0x0000BFF8"

definition CLIC_BASE :: u32 where
  [memory_map]: "CLIC_BASE = 0xE0800000"

definition RISCV_SYSMAP_BASE :: u32 where
  [memory_map]: "RISCV_SYSMAP_BASE = 0xEFFFF000"

definition RISCV_CFG_BASE :: u32 where
  [memory_map]: "RISCV_CFG_BASE = 0x07130000"

subsection \<open>Regions\<close>

text \<open>A region is its base and its size; \<open>region_end\<close> is the first address after it.\<close>

definition region_end :: "u32 \<times> u32 \<Rightarrow> nat" where
  "region_end r = unat (fst r) + unat (snd r)"

definition regions_disjoint :: "u32 \<times> u32 \<Rightarrow> u32 \<times> u32 \<Rightarrow> bool" where
  "regions_disjoint r s \<longleftrightarrow> region_end r \<le> unat (fst s) \<or> region_end s \<le> unat (fst r)"

definition region_within :: "u32 \<times> u32 \<Rightarrow> u32 \<times> u32 \<Rightarrow> bool" where
  "region_within r s \<longleftrightarrow> unat (fst s) \<le> unat (fst r) \<and> region_end r \<le> region_end s"

fun pairwise_disjoint :: "(u32 \<times> u32) list \<Rightarrow> bool" where
  "pairwise_disjoint [] = True"
| "pairwise_disjoint (r # rs) = (list_all (regions_disjoint r) rs \<and> pairwise_disjoint rs)"

text \<open>The IPC window: the two rings have 8 KB each, as the comments beside their addresses say.\<close>

definition ipc_regions :: "(u32 \<times> u32) list" where
  "ipc_regions =
     [(IPC_BOOT_STATUS_ADDR, IPC_BOOT_STATUS_SIZE), (IPC_CLOCK_CONFIG_ADDR, IPC_CLOCK_CONFIG_SIZE),
      (IPC_SPSC_TX_RING_ADDR, 0x2000), (IPC_SPSC_RX_RING_ADDR, 0x2000),
      (IPC_TRACE_BUFFER_ADDR, IPC_TRACE_BUFFER_SIZE)]"

definition memory_segments :: "(u32 \<times> u32) list" where
  "memory_segments =
     [(ITCM_BASE, ITCM_SIZE), (DTCM_BASE, DTCM_SIZE), (SRAM_SHARED_BASE, SRAM_SHARED_SIZE),
      (SRAM_DEDICATED_BASE, SRAM_DEDICATED_SIZE), (DRAM_INIT_BASE, DRAM_INIT_SIZE),
      (DRAM_PAYLOAD_BASE, DRAM_PAYLOAD_SIZE)]"

subsection \<open>Properties\<close>

text \<open>The IPC regions (boot status, clock configuration, the two descriptor rings, the trace
  buffer) do not overlap, lie inside the 64 KB shared SRAM window and start on a page, and the six
  memory segments of the map do not overlap either.\<close>

theorem ipc_layout_sound:
  "pairwise_disjoint ipc_regions \<and>
   list_all (\<lambda>r. region_within r (SRAM_SHARED_BASE, SRAM_SHARED_SIZE)) ipc_regions \<and>
   list_all (\<lambda>r. fst r mod 0x1000 = 0) ipc_regions \<and>
   pairwise_disjoint memory_segments"
  by (simp add: ipc_regions_def memory_segments_def memory_map regions_disjoint_def
      region_within_def region_end_def)

text \<open>The last IPC region does not reach the end of the window: the trace buffer stops 8 KB
  below the code window at 0x07140000, where the comment in the header says the layout ends, and
  the receive registers of the mailbox have the same address as the trace buffer.\<close>

theorem trace_buffer_ends_below_code_window:
  "region_end (IPC_TRACE_BUFFER_ADDR, IPC_TRACE_BUFFER_SIZE) = 0x0713E000 \<and>
   region_end (SRAM_SHARED_BASE, SRAM_SHARED_SIZE) = 0x07140000 \<and>
   RISCV_MSGBOX_BASE = IPC_TRACE_BUFFER_ADDR"
  by (simp add: memory_map region_end_def)

end
