(* ===== verification/Boot_Status.thy ===== *)
theory Boot_Status
  imports Memory_Map
begin

text \<open>
  \<^verbatim>\<open>hal/include/boot_status.hpp\<close>: the boot and crash record the firmware publishes for Linux in shared
  SRAM.  \<open>publish\<close> stores the record word by word and the generation last; \<open>observe_status\<close> is what
  a reader of the sixteen shared words sees between any two of those stores.
\<close>

subsection \<open>The record and its publication\<close>

definition kBootStatusMagic :: u32 where
  "kBootStatusMagic = 0x544F4F42"

definition kBootStatusAbiVersion :: u32 where
  "kBootStatusAbiVersion = 1"

definition kFirmwareReadyDoorbell :: u32 where
  "kFirmwareReadyDoorbell = 0xA1"

definition kFirmwareInitFailedDoorbell :: u32 where
  "kFirmwareInitFailedDoorbell = 0xA2"

definition kFirmwareCrashDoorbell :: u32 where
  "kFirmwareCrashDoorbell = 0xA3"

datatype State = Reset | Initializing | Ready | InitFailed | Crashed

fun State_code :: "State \<Rightarrow> u32" where
  "State_code Reset = 0"
| "State_code Initializing = 1"
| "State_code Ready = 2"
| "State_code InitFailed = 3"
| "State_code Crashed = 4"

datatype FailureReason =
    NoFailure
  | ClockConfigurationInvalid
  | TimerConfigurationInvalid
  | UnexpectedTrap
  | TimerCounterNotAdvancing
  | TimerInterruptNotObserved

fun FailureReason_code :: "FailureReason \<Rightarrow> u32" where
  "FailureReason_code NoFailure = 0"
| "FailureReason_code ClockConfigurationInvalid = 1"
| "FailureReason_code TimerConfigurationInvalid = 2"
| "FailureReason_code UnexpectedTrap = 3"
| "FailureReason_code TimerCounterNotAdvancing = 4"
| "FailureReason_code TimerInterruptNotObserved = 5"

record Status =
  st_magic :: u32
  st_abi_version :: u32
  st_size_bytes :: u32
  st_generation :: u32
  st_state :: u32
  st_failure_reason :: u32
  st_clock_configuration_generation :: u32
  st_riscv_core_hz :: u32
  st_mcause :: u32
  st_mepc :: u32
  st_mtval :: u32
  st_reserved :: "u32 list"

definition sizeof_Status :: u32 where
  "sizeof_Status = 64"

definition Status_is_valid :: "Status \<Rightarrow> bool" where
  "Status_is_valid s \<longleftrightarrow>
     st_magic s = kBootStatusMagic \<and>
     st_abi_version s = kBootStatusAbiVersion \<and>
     st_size_bytes s = sizeof_Status \<and>
     st_generation s \<noteq> 0 \<and>
     st_state s \<le> State_code Crashed"

definition words_of_status :: "Status \<Rightarrow> u32 list" where
  "words_of_status s =
     [st_magic s, st_abi_version s, st_size_bytes s, st_generation s, st_state s,
      st_failure_reason s, st_clock_configuration_generation s, st_riscv_core_hz s,
      st_mcause s, st_mepc s, st_mtval s] @ st_reserved s"

definition status_of_words :: "u32 list \<Rightarrow> Status" where
  "status_of_words w =
     \<lparr>st_magic = w ! 0, st_abi_version = w ! 1, st_size_bytes = w ! 2, st_generation = w ! 3,
      st_state = w ! 4, st_failure_reason = w ! 5, st_clock_configuration_generation = w ! 6,
      st_riscv_core_hz = w ! 7, st_mcause = w ! 8, st_mepc = w ! 9, st_mtval = w ! 10,
      st_reserved = drop 11 w\<rparr>"

definition status_word_addr :: "nat \<Rightarrow> u32" where
  "status_word_addr index = IPC_BOOT_STATUS_ADDR + 4 * of_nat index"

definition publish :: "('h, 'x) platform \<Rightarrow> Status \<Rightarrow> ('h, 'x) env \<Rightarrow> ('h, 'x) env" where
  "publish P status e =
     (let source = words_of_status status;
          e1 = fold (\<lambda>index e. if index \<noteq> 3
                               then mmio_write P (status_word_addr index) (source ! index) e
                               else e) [0..<16] e
      in mmio_write P (status_word_addr 3) (st_generation status) e1)"

subsection \<open>What a reader observes\<close>

definition observe_status :: "(u32 \<Rightarrow> 'h \<Rightarrow> u32) \<Rightarrow> 'h \<Rightarrow> Status" where
  "observe_status peek h = status_of_words (map (\<lambda>i. peek (status_word_addr i) h) [0..<16])"

definition publish_writes :: "Status \<Rightarrow> (u32 \<times> u32) list" where
  "publish_writes status =
     map (\<lambda>index. (status_word_addr index, words_of_status status ! index))
       [0, 1, 2, 4, 5, 6, 7, 8, 9, 10, 11, 12, 13, 14, 15, 3]"

definition status_words :: "u32 set" where
  "status_words = status_word_addr ` {..<16}"

definition do_writes :: "('h, 'x) platform \<Rightarrow> (u32 \<times> u32) list \<Rightarrow> ('h, 'x) env \<Rightarrow> ('h, 'x) env" where
  "do_writes P ws e = fold (\<lambda>(a, v). mmio_write P a v) ws e"

subsection \<open>Example data\<close>

definition example_ready :: Status where
  "example_ready =
     \<lparr>st_magic = 0x544F4F42, st_abi_version = 1, st_size_bytes = 64, st_generation = 7, st_state = 2,
      st_failure_reason = 0, st_clock_configuration_generation = 7, st_riscv_core_hz = 600000000,
      st_mcause = 0, st_mepc = 0, st_mtval = 0, st_reserved = [0, 0, 0, 0, 0]\<rparr>"

definition example_crash :: Status where
  "example_crash = example_ready\<lparr>st_generation := 1, st_state := 4, st_failure_reason := 3,
     st_mcause := 7, st_mepc := 0x07141A2C, st_mtval := 0x02000010\<rparr>"

subsection \<open>Lemmas\<close>

lemma publish_eq_writes: "publish P status e = do_writes P (publish_writes status) e"
proof -
  have "words_of_status status ! 3 = st_generation status" by (simp add: words_of_status_def)
  moreover have "[0..<16] = [0, 1, 2, 3, 4, 5, 6, 7, 8, 9, 10, 11, 12, 13, 14, 15 :: nat]"
    by (simp add: upt_rec)
  ultimately show ?thesis by (simp add: publish_def publish_writes_def do_writes_def Let_def)
qed

lemma status_word_addr_inj:
  assumes "i < 16" and "j < 16"
  shows "status_word_addr i = status_word_addr j \<longleftrightarrow> i = j"
  using of_nat_u32_inject [of "4 * i" "4 * j"] assms by (simp add: status_word_addr_def)

lemma status_word_addr_in [simp]: "i < 16 \<Longrightarrow> status_word_addr i \<in> status_words"
  by (simp add: status_words_def)

lemma publish_writes_addrs:
  "map fst (publish_writes s) =
     map status_word_addr [0, 1, 2, 4, 5, 6, 7, 8, 9, 10, 11, 12, 13, 14, 15, 3]"
  by (simp add: publish_writes_def)

lemma publish_writes_in: "fst ` set (publish_writes s) \<subseteq> status_words"
  by (simp add: publish_writes_def)

lemma distinct_publish_writes: "distinct (map fst (publish_writes s))"
  unfolding publish_writes_addrs distinct_map
  by (auto intro!: inj_onI simp: status_word_addr_inj)

lemma status_of_words_of_status:
  "length (st_reserved s) = 5 \<Longrightarrow> status_of_words (words_of_status s) = s"
  by (simp add: words_of_status_def status_of_words_def)

lemma map_of_take:
  assumes "distinct (map fst ws)" and "map_of (take k ws) a = Some v"
  shows "map_of ws a = Some v"
proof -
  have "(a, v) \<in> set ws" using assms(2) by (meson in_set_takeD map_of_SomeD)
  then show ?thesis using assms(1) by (simp add: map_of_eq_Some_iff)
qed

lemma example_ready_valid: "Status_is_valid example_ready"
  by (simp add: Status_is_valid_def kBootStatusMagic_def kBootStatusAbiVersion_def
      sizeof_Status_def example_ready_def)

lemma example_crash_valid: "Status_is_valid example_crash"
  using example_ready_valid by (simp add: Status_is_valid_def example_crash_def)

lemma map_of_publish_prefix_4:
  "i < 16 \<Longrightarrow> map_of (take 4 (publish_writes s)) (status_word_addr i) =
    (if i \<in> {0, 1, 2, 4} then Some (words_of_status s ! i) else None)"
  by (auto simp: publish_writes_def status_word_addr_inj)

context word_memory
begin

lemma peek_do_writes:
  assumes "fst ` set ws \<subseteq> A" and "b \<in> A" and "distinct (map fst ws)"
  shows "peek b (hw (do_writes P ws e)) =
    (case map_of ws b of Some v \<Rightarrow> v | None \<Rightarrow> peek b (hw e))"
  unfolding do_writes_def by (rule peek_writes [OF assms])

text \<open>After the first \<open>k\<close> stores of a publication, each word is the old or the new one.\<close>

lemma peek_publish_prefix:
  assumes "status_words \<subseteq> A" and "i < 16"
  shows "peek (status_word_addr i) (hw (do_writes P (take k (publish_writes s)) e)) =
    (case map_of (take k (publish_writes s)) (status_word_addr i) of
       Some v \<Rightarrow> v | None \<Rightarrow> peek (status_word_addr i) (hw e))"
proof (rule peek_do_writes)
  show "fst ` set (take k (publish_writes s)) \<subseteq> A"
    using publish_writes_in [of s] assms(1) set_take_subset [of k "publish_writes s"] by blast
  show "status_word_addr i \<in> A" using assms by auto
  show "distinct (map fst (take k (publish_writes s)))"
    using distinct_publish_writes [of s] by (simp add: take_map [symmetric] distinct_take)
qed

lemma map_of_publish_writes:
  "i < 16 \<Longrightarrow> map_of (publish_writes s) (status_word_addr i) = Some (words_of_status s ! i)"
proof -
  assume i: "i < 16"
  have "i \<in> set [0, 1, 2, 4, 5, 6, 7, 8, 9, 10, 11, 12, 13, 14, 15, 3]"
    using less_16_cases [OF i] by simp blast
  then have "(status_word_addr i, words_of_status s ! i) \<in> set (publish_writes s)"
    unfolding publish_writes_def set_map by (rule imageI)
  then show ?thesis using distinct_publish_writes by (simp add: map_of_eq_Some_iff)
qed

lemma observe_publish:
  assumes "status_words \<subseteq> A" and "length (st_reserved s) = 5"
  shows "observe_status peek (hw (publish P s e)) = s"
proof -
  have "peek (status_word_addr i) (hw (publish P s e)) = words_of_status s ! i" if "i < 16" for i
    using peek_publish_prefix [OF assms(1) that, of "length (publish_writes s)" s e]
      map_of_publish_writes [OF that, of s]
    by (simp add: publish_eq_writes)
  moreover have "length (words_of_status s) = 16" using assms(2) by (simp add: words_of_status_def)
  ultimately have "map (\<lambda>i. peek (status_word_addr i) (hw (publish P s e))) [0..<16] =
      words_of_status s"
    by (simp add: list_eq_iff_nth_eq)
  then show ?thesis
    using assms(2) by (simp add: observe_status_def status_of_words_of_status)
qed

lemma generation_before_commit:
  assumes "status_words \<subseteq> A" and "k < 16"
  shows "st_generation (observe_status peek (hw (do_writes P (take k (publish_writes s)) e))) =
    peek (status_word_addr 3) (hw e)"
proof -
  have "fst ` set (take k (publish_writes s)) \<subseteq> status_word_addr ` ({..<16} - {3})"
    using less_16_cases [OF assms(2)] by (elim disjE) (auto simp: publish_writes_def)
  moreover have "status_word_addr 3 \<notin> status_word_addr ` ({..<16} - {3})"
    by (auto simp: status_word_addr_inj)
  ultimately have "map_of (take k (publish_writes s)) (status_word_addr 3) = None"
    by (auto simp: map_of_eq_None_iff)
  then show ?thesis
    using peek_publish_prefix [OF assms(1), of 3 k s e]
    by (simp add: observe_status_def status_of_words_def)
qed

end

subsection \<open>Properties\<close>

text \<open>C6. First publication is atomic for a validating reader: while the shared record still has
  generation 0, no reader that checks \<open>is_valid\<close> accepts it after any proper prefix of the stores
  of \<open>publish\<close>, and after the last store it reads exactly the published status.\<close>

theorem publish_commits_generation_last:
  assumes "word_memory P peek A" and "status_words \<subseteq> A"
    and "peek (status_word_addr 3) (hw e) = 0" and "length (st_reserved s) = 5"
  shows "(\<forall>k < 16. \<not> Status_is_valid (observe_status peek
            (hw (do_writes P (take k (publish_writes s)) e)))) \<and>
    publish P s e = do_writes P (publish_writes s) e \<and>
    observe_status peek (hw (publish P s e)) = s"
  using word_memory.generation_before_commit [OF assms(1,2)] assms(3)
    word_memory.observe_publish [OF assms(1,2,4)]
  by (simp add: Status_is_valid_def publish_eq_writes)

theorem publish_commits_generation_last_witness:
  "\<not> Status_is_valid (observe_status (\<lambda>a h. words h a)
      (hw (do_writes sim_platform (take 15 (publish_writes example_ready)) sim_env))) \<and>
   Status_is_valid (observe_status (\<lambda>a h. words h a)
      (hw (publish sim_platform example_ready sim_env)))"
proof -
  have "words (hw sim_env) (status_word_addr 3) = 0" by (simp add: sim_env_def)
  moreover have "length (st_reserved example_ready) = 5" by (simp add: example_ready_def)
  ultimately have torn: "\<forall>k < 16. \<not> Status_is_valid (observe_status (\<lambda>a h. words h a)
        (hw (do_writes sim_platform (take k (publish_writes example_ready)) sim_env)))"
    and final: "observe_status (\<lambda>a h. words h a) (hw (publish sim_platform example_ready sim_env)) =
      example_ready"
    using publish_commits_generation_last [OF sim.word_memory_axioms subset_UNIV,
        of sim_env example_ready]
    by blast+
  show ?thesis using torn unfolding final by (simp add: example_ready_valid)
qed

text \<open>A second publication is not atomic: when a valid record replaces a valid record, a
  validating reader that looks after the fourth store accepts a mixture, the old record (failure
  reason, trap registers, generation) with the state of the new one.\<close>

theorem republish_exposes_torn_record:
  assumes "word_memory P peek A" and "status_words \<subseteq> A"
    and "Status_is_valid (observe_status peek (hw e))" and "Status_is_valid new"
  shows "observe_status peek (hw (do_writes P (take 4 (publish_writes new)) e)) =
      (observe_status peek (hw e))\<lparr>st_state := st_state new\<rparr> \<and>
    Status_is_valid (observe_status peek (hw (do_writes P (take 4 (publish_writes new)) e)))"
proof -
  have w: "map (\<lambda>i. peek (status_word_addr i) (hw (do_writes P (take 4 (publish_writes new)) e)))
      [0..<16] = map (\<lambda>i. if i \<in> {0, 1, 2, 4} then words_of_status new ! i
        else peek (status_word_addr i) (hw e)) [0..<16]"
    using word_memory.peek_publish_prefix [OF assms(1,2), of _ 4 new e]
    by (simp add: map_of_publish_prefix_4)
  have new: "words_of_status new ! 0 = st_magic new" "words_of_status new ! 1 = st_abi_version new"
    "words_of_status new ! 2 = st_size_bytes new" "words_of_status new ! 4 = st_state new"
    by (simp_all add: words_of_status_def)
  have eq: "observe_status peek (hw (do_writes P (take 4 (publish_writes new)) e)) =
      (observe_status peek (hw e))\<lparr>st_state := st_state new\<rparr>"
    using assms(3,4) new
    by (simp add: observe_status_def status_of_words_def w Status_is_valid_def drop_map
        numeral_2_eq_2)
  moreover have "Status_is_valid ((observe_status peek (hw e))\<lparr>st_state := st_state new\<rparr>)"
    using assms(3,4) by (simp add: Status_is_valid_def)
  ultimately show ?thesis by simp
qed

theorem republish_exposes_torn_record_witness:
  "let torn = observe_status (\<lambda>a h. words h a) (hw (do_writes sim_platform
         (take 4 (publish_writes example_crash)) (publish sim_platform example_ready sim_env)))
   in Status_is_valid torn \<and> torn \<noteq> example_ready \<and> torn \<noteq> example_crash \<and>
      st_state torn = State_code Crashed \<and> st_failure_reason torn = FailureReason_code NoFailure \<and>
      st_mepc torn = 0"
proof -
  have r: "observe_status (\<lambda>a h. words h a) (hw (publish sim_platform example_ready sim_env)) =
      example_ready"
    by (rule sim.observe_publish) (simp_all add: example_ready_def)
  have t: "observe_status (\<lambda>a h. words h a) (hw (do_writes sim_platform
      (take 4 (publish_writes example_crash)) (publish sim_platform example_ready sim_env))) =
      example_ready\<lparr>st_state := 4\<rparr>"
    using republish_exposes_torn_record [OF sim.word_memory_axioms subset_UNIV,
        of "publish sim_platform example_ready sim_env" example_crash]
      example_ready_valid example_crash_valid
    unfolding r by (simp add: example_crash_def)
  have v: "Status_is_valid (example_ready\<lparr>st_state := 4\<rparr>)"
    using example_ready_valid by (simp add: Status_is_valid_def)
  show ?thesis
    unfolding t Let_def by (simp add: v) (simp add: example_ready_def example_crash_def)
qed

end
