(* ===== verification/Clock_Config.thy ===== *)
theory Clock_Config
  imports Memory_Map
begin

text \<open>
  \<^verbatim>\<open>hal/include/clock_config.hpp\<close>: the clock configuration block that Linux writes before it releases
  the core from reset and that the firmware reads once.  A struct is copied word by word through
  volatile accesses, so the model has both the record and its image as sixteen 32-bit words.
\<close>

subsection \<open>The record and its image in memory\<close>

definition kClockConfigMagic :: u32 where
  "kClockConfigMagic = 0x4B4C4343"

definition kClockConfigAbiVersion :: u32 where
  "kClockConfigAbiVersion = 1"

record ClockConfiguration =
  cc_magic :: u32
  cc_abi_version :: u32
  cc_size_bytes :: u32
  cc_generation :: u32
  cc_riscv_core_hz :: u32
  cc_timer_counter_hz :: u32
  cc_uart_parent_hz :: u32
  cc_spi0_parent_hz :: u32
  cc_spi1_parent_hz :: u32
  cc_flags :: u32
  cc_reserved :: "u32 list"

definition sizeof_ClockConfiguration :: u32 where
  "sizeof_ClockConfiguration = 64"

definition ClockConfiguration_is_valid :: "ClockConfiguration \<Rightarrow> bool" where
  "ClockConfiguration_is_valid c \<longleftrightarrow>
     cc_magic c = kClockConfigMagic \<and>
     cc_abi_version c = kClockConfigAbiVersion \<and>
     cc_size_bytes c = sizeof_ClockConfiguration \<and>
     cc_generation c \<noteq> 0 \<and>
     cc_riscv_core_hz c \<noteq> 0 \<and>
     cc_timer_counter_hz c \<noteq> 0"

definition clock_of_words :: "u32 list \<Rightarrow> ClockConfiguration" where
  "clock_of_words w =
     \<lparr>cc_magic = w ! 0, cc_abi_version = w ! 1, cc_size_bytes = w ! 2, cc_generation = w ! 3,
      cc_riscv_core_hz = w ! 4, cc_timer_counter_hz = w ! 5, cc_uart_parent_hz = w ! 6,
      cc_spi0_parent_hz = w ! 7, cc_spi1_parent_hz = w ! 8, cc_flags = w ! 9,
      cc_reserved = drop 10 w\<rparr>"

definition words_of_clock :: "ClockConfiguration \<Rightarrow> u32 list" where
  "words_of_clock c =
     [cc_magic c, cc_abi_version c, cc_size_bytes c, cc_generation c, cc_riscv_core_hz c,
      cc_timer_counter_hz c, cc_uart_parent_hz c, cc_spi0_parent_hz c, cc_spi1_parent_hz c,
      cc_flags c] @ cc_reserved c"

text \<open>The copy loop \<^verbatim>\<open>destination[index] = source[index]\<close>.\<close>

fun read_words ::
    "('h, 'x) platform \<Rightarrow> u32 \<Rightarrow> nat \<Rightarrow> ('h, 'x) env \<Rightarrow> u32 list \<times> ('h, 'x) env" where
  "read_words P source 0 e = ([], e)"
| "read_words P source (Suc n) e =
     (let (w, e1) = mmio_read P source e; (ws, e2) = read_words P (source + 4) n e1
      in (w # ws, e2))"

definition read_shared_configuration ::
    "('h, 'x) platform \<Rightarrow> ('h, 'x) env \<Rightarrow> ClockConfiguration \<times> ('h, 'x) env" where
  "read_shared_configuration P e =
     (let (ws, e1) = read_words P IPC_CLOCK_CONFIG_ADDR 16 e in (clock_of_words ws, e1))"

subsection \<open>Example data\<close>

definition example_clock :: ClockConfiguration where
  "example_clock =
     \<lparr>cc_magic = 0x4B4C4343, cc_abi_version = 1, cc_size_bytes = 64, cc_generation = 7,
      cc_riscv_core_hz = 600000000, cc_timer_counter_hz = 24000000, cc_uart_parent_hz = 24000000,
      cc_spi0_parent_hz = 200000000, cc_spi1_parent_hz = 200000000, cc_flags = 0,
      cc_reserved = replicate 6 0\<rparr>"

definition clock_env :: "ClockConfiguration \<Rightarrow> (sim_hw, sim_ax) env" where
  "clock_env c = sim_env\<lparr>hw := (hw sim_env)\<lparr>words := (\<lambda>a.
     if IPC_CLOCK_CONFIG_ADDR \<le> a \<and> a < IPC_CLOCK_CONFIG_ADDR + 64
     then words_of_clock c ! unat ((a - IPC_CLOCK_CONFIG_ADDR) div 4) else 0)\<rparr>\<rparr>"

subsection \<open>Lemmas\<close>

lemma words_of_clock_of_words:
  "length w = 16 \<Longrightarrow> words_of_clock (clock_of_words w) = w"
  by (auto simp: numeral_eq_Suc length_Suc_conv words_of_clock_def clock_of_words_def)

lemma clock_of_words_of_clock: "clock_of_words (words_of_clock c) = c"
  by (simp add: words_of_clock_def clock_of_words_def)

context word_memory
begin

lemma read_words_peek:
  assumes "\<And>i. i < n \<Longrightarrow> source + 4 * of_nat i \<in> A"
  shows "read_words P source n e = (map (\<lambda>i. peek (source + 4 * of_nat i) (hw e)) [0..<n], e)"
  using assms
proof (induction n arbitrary: source)
  case 0
  then show ?case by simp
next
  case (Suc n)
  have "source \<in> A" using Suc.prems [of 0] by simp
  moreover have "source + 4 + 4 * of_nat i \<in> A" if "i < n" for i
    using Suc.prems [of "Suc i"] that by (simp add: algebra_simps)
  note Suc.IH [OF this]
  ultimately show ?case
    by (simp add: mmio_read_plain upt_conv_Cons map_Suc_upt [symmetric] comp_def algebra_simps
        del: upt_Suc)
qed

lemma read_shared_configuration_peek:
  assumes "\<And>i. i < 16 \<Longrightarrow> IPC_CLOCK_CONFIG_ADDR + 4 * of_nat i \<in> A"
    and "length (cc_reserved c) = 6"
    and "\<And>i. i < 16 \<Longrightarrow> peek (IPC_CLOCK_CONFIG_ADDR + 4 * of_nat i) (hw e) = words_of_clock c ! i"
  shows "read_shared_configuration P e = (c, e)"
proof -
  have "length (words_of_clock c) = 16" using assms(2) by (simp add: words_of_clock_def)
  then have "map (\<lambda>i. peek (IPC_CLOCK_CONFIG_ADDR + 4 * of_nat i) (hw e)) [0..<16] = words_of_clock c"
    using assms(3) by (simp add: list_eq_iff_nth_eq)
  then show ?thesis
    using read_words_peek [of 16 IPC_CLOCK_CONFIG_ADDR e] assms(1)
    by (simp add: read_shared_configuration_def clock_of_words_of_clock)
qed

end

lemma clock_env_words:
  assumes "i < 16"
  shows "words (hw (clock_env c)) (IPC_CLOCK_CONFIG_ADDR + 4 * of_nat i) = words_of_clock c ! i"
  using less_16_cases [OF assms] by (elim disjE) (simp_all add: clock_env_def memory_map)

lemma sim_read_example_clock:
  "read_shared_configuration sim_platform (clock_env example_clock) =
     (example_clock, clock_env example_clock)"
  by (rule sim.read_shared_configuration_peek) (simp_all add: clock_env_words example_clock_def)

subsection \<open>Properties\<close>

text \<open>C33. Reading the shared configuration returns exactly the record Linux stored: when the sixteen
  words of the block hold the image of a configuration, \<open>read_shared_configuration\<close> returns that
  configuration, every field included, and changes nothing.\<close>

theorem read_shared_configuration_roundtrip:
  assumes "word_memory P peek A"
    and "\<And>i. i < 16 \<Longrightarrow> IPC_CLOCK_CONFIG_ADDR + 4 * of_nat i \<in> A"
    and "length (cc_reserved c) = 6"
    and "\<And>i. i < 16 \<Longrightarrow> peek (IPC_CLOCK_CONFIG_ADDR + 4 * of_nat i) (hw e) = words_of_clock c ! i"
  shows "read_shared_configuration P e = (c, e)"
  by (rule word_memory.read_shared_configuration_peek [OF assms(1)]) (use assms in auto)

theorem read_shared_configuration_roundtrip_witness:
  "read_shared_configuration sim_platform (clock_env example_clock) =
     (example_clock, clock_env example_clock)"
  by (rule read_shared_configuration_roundtrip [OF sim.word_memory_axioms])
    (simp_all add: clock_env_words example_clock_def)

end
