(* ===== verification/Hw_Timer.thy ===== *)
theory Hw_Timer
  imports Clock_Config
begin

text \<open>
  \<^verbatim>\<open>hal/include/hal_timer.hpp\<close>: the machine timer.  The 64-bit counters are read through two 32-bit
  halves with a retry loop, so reading one is an \<open>option\<close>: \<open>None\<close> stands for a loop that never sees
  a stable high half.  The RISC-V branches of the conditional compilation are modelled.  The
  interface \<open>mtime_counter\<close> states what the code relies on from the CLINT counter.
\<close>

subsection \<open>State and operations\<close>

record HardwareTimer =
  period_cycles :: u32
  core_frequency_hz :: u32
  timer_counter_hz :: u32
  timer_interrupt_count :: u32
  next_tick_mtime :: u64

definition CPU_FREQ_HZ :: u32 where
  "CPU_FREQ_HZ = 600000000"

definition TICKS_PER_MS :: u32 where
  "TICKS_PER_MS = CPU_FREQ_HZ div 1000"

definition HardwareTimer_static :: HardwareTimer where
  "HardwareTimer_static =
     \<lparr>period_cycles = CPU_FREQ_HZ div 1000, core_frequency_hz = CPU_FREQ_HZ,
      timer_counter_hz = CPU_FREQ_HZ, timer_interrupt_count = 0, next_tick_mtime = 0\<rparr>"

definition u64_of_halves :: "u32 \<Rightarrow> u32 \<Rightarrow> u64" where
  "u64_of_halves high low = push_bit 32 (ucast high) OR ucast low"

partial_function (option) get_cycles ::
    "('h, 'x) platform \<Rightarrow> ('h, 'x) env \<Rightarrow> (u64 \<times> ('h, 'x) env) option" where
  "get_cycles P e =
     (let (cycles_hi, e1) = csr_read P Mcycleh e;
          (cycles_lo, e2) = csr_read P Mcycle e1;
          (temp, e3) = csr_read P Mcycleh e2
      in if cycles_hi \<noteq> temp then get_cycles P e3
         else Some (u64_of_halves cycles_hi cycles_lo, e3))"

text \<open>The arithmetic of \<^verbatim>\<open>get_time_us\<close>: 64-bit, cast to 32 bits.\<close>

definition time_us_of_cycles :: "u32 \<Rightarrow> u64 \<Rightarrow> u32" where
  "time_us_of_cycles f cycles =
     ucast ((cycles div ucast f) * 1000000 + ((cycles mod ucast f) * 1000000) div ucast f)"

definition get_time_us ::
    "('h, 'x) platform \<Rightarrow> HardwareTimer \<Rightarrow> ('h, 'x) env \<Rightarrow> (u32 \<times> ('h, 'x) env) option" where
  "get_time_us P t e =
     do { (cycles, e1) \<leftarrow> get_cycles P e; Some (time_us_of_cycles (core_frequency_hz t) cycles, e1) }"

partial_function (option) read_mtime ::
    "('h, 'x) platform \<Rightarrow> ('h, 'x) env \<Rightarrow> (u64 \<times> ('h, 'x) env) option" where
  "read_mtime P e =
     (let (high_before, e1) = mmio_read P (RISCV_MTIME_ADDR + 4) e;
          (low, e2) = mmio_read P RISCV_MTIME_ADDR e1;
          (high_after, e3) = mmio_read P (RISCV_MTIME_ADDR + 4) e2
      in if high_before \<noteq> high_after then read_mtime P e3
         else Some (u64_of_halves high_before low, e3))"

definition get_timer_ticks ::
    "('h, 'x) platform \<Rightarrow> ('h, 'x) env \<Rightarrow> (u64 \<times> ('h, 'x) env) option" where
  "get_timer_ticks P e = read_mtime P e"

text \<open>The stores of \<^verbatim>\<open>write_mtimecmp\<close>, in order.\<close>

definition mtimecmp_writes :: "u64 \<Rightarrow> (u32 \<times> u32) list" where
  "mtimecmp_writes target =
     [(RISCV_MTIMECMP_ADDR + 4, 0xFFFFFFFF),
      (RISCV_MTIMECMP_ADDR, ucast target),
      (RISCV_MTIMECMP_ADDR + 4, ucast (drop_bit 32 target))]"

definition write_mtimecmp :: "('h, 'x) platform \<Rightarrow> u64 \<Rightarrow> ('h, 'x) env \<Rightarrow> ('h, 'x) env" where
  "write_mtimecmp P target e = fold (\<lambda>(a, v). mmio_write P a v) (mtimecmp_writes target) e"

definition set_timer_period ::
    "('h, 'x) platform \<Rightarrow> u32 \<Rightarrow> HardwareTimer \<Rightarrow> ('h, 'x) env \<Rightarrow>
     (HardwareTimer \<times> ('h, 'x) env) option" where
  "set_timer_period P period t e =
     do {
       let t1 = t\<lparr>period_cycles := period\<rparr>;
       (now, e1) \<leftarrow> read_mtime P e;
       let t2 = t1\<lparr>next_tick_mtime := now + ucast (period_cycles t1)\<rparr>;
       Some (t2, write_mtimecmp P (next_tick_mtime t2) e1)
     }"

definition arm_next_tick ::
    "('h, 'x) platform \<Rightarrow> HardwareTimer \<Rightarrow> ('h, 'x) env \<Rightarrow> (HardwareTimer \<times> ('h, 'x) env) option" where
  "arm_next_tick P t e =
     do {
       let t1 = t\<lparr>next_tick_mtime := next_tick_mtime t + ucast (period_cycles t)\<rparr>;
       (now, e1) \<leftarrow> read_mtime P e;
       let t2 = (if next_tick_mtime t1 \<le> now
                 then t1\<lparr>next_tick_mtime := now + ucast (period_cycles t1)\<rparr> else t1);
       Some (t2, write_mtimecmp P (next_tick_mtime t2) e1)
     }"

definition enable_timer_interrupt :: "('h, 'x) platform \<Rightarrow> ('h, 'x) env \<Rightarrow> ('h, 'x) env" where
  "enable_timer_interrupt P e =
     csr_set_bits P Mstatus (push_bit 3 1) (csr_set_bits P Mie (push_bit 7 1) e)"

definition HardwareTimer_init ::
    "('h, 'x) platform \<Rightarrow> u32 \<Rightarrow> u32 \<Rightarrow> u32 \<Rightarrow> HardwareTimer \<Rightarrow> ('h, 'x) env \<Rightarrow>
     (HardwareTimer \<times> ('h, 'x) env) option" where
  "HardwareTimer_init P tick_rate_hz core_hz counter_hz t e =
     (if tick_rate_hz = 0 \<or> core_hz = 0 \<or> counter_hz = 0 then Some (t, e)
      else do {
        let t1 = t\<lparr>core_frequency_hz := core_hz, timer_counter_hz := counter_hz,
                   timer_interrupt_count := 0\<rparr>;
        let e1 = e\<lparr>ax := timer_service_init P (ax e)\<rparr>;
        (t2, e2) \<leftarrow> set_timer_period P (timer_counter_hz t1 div tick_rate_hz) t1 e1;
        Some (t2, enable_timer_interrupt P e2)
      })"

definition init_from_shared_clock_configuration ::
    "('h, 'x) platform \<Rightarrow> u32 \<Rightarrow> HardwareTimer \<Rightarrow> ('h, 'x) env \<Rightarrow>
     (bool \<times> HardwareTimer \<times> ('h, 'x) env) option" where
  "init_from_shared_clock_configuration P tick_rate_hz t e =
     (let (configuration, e1) = read_shared_configuration P e
      in if \<not> ClockConfiguration_is_valid configuration then Some (False, t, e1)
         else do {
           (t1, e2) \<leftarrow> HardwareTimer_init P tick_rate_hz (cc_riscv_core_hz configuration)
                          (cc_timer_counter_hz configuration) t e1;
           Some (True, t1, e2)
         })"

definition HardwareTimer_handle_isr ::
    "('h, 'x) platform \<Rightarrow> HardwareTimer \<Rightarrow> ('h, 'x) env \<Rightarrow> (HardwareTimer \<times> ('h, 'x) env) option" where
  "HardwareTimer_handle_isr P t e =
     do {
       (t1, e1) \<leftarrow> arm_next_tick P t e;
       let t2 = t1\<lparr>timer_interrupt_count := timer_interrupt_count t1 + 1\<rparr>;
       Some (t2, e1\<lparr>ax := timer_service_tick P 1 (ax e1)\<rparr>)
     }"

text \<open>\<^verbatim>\<open>co_await HardwareTimer::sleep_ms(ms)\<close> in the coroutine \<open>h\<close>: the awaiter is the one of the AbstractX
  timer service, and the coroutine is suspended until the service resumes it.\<close>

definition sleep_ms :: "('h, 'x) platform \<Rightarrow> u32 \<Rightarrow> handle \<Rightarrow> ('h, 'x) env \<Rightarrow> ('h, 'x) env" where
  "sleep_ms P ms h e = e\<lparr>ax := timer_service_sleep_ms P ms h (ax e)\<rparr>"

text \<open>The value the comparator holds, as the two halves of \<^verbatim>\<open>mtimecmp\<close> are stored.\<close>

definition mtimecmp_value :: "(u32 \<Rightarrow> 'h \<Rightarrow> u32) \<Rightarrow> 'h \<Rightarrow> u64" where
  "mtimecmp_value peek h = u64_of_halves (peek (RISCV_MTIMECMP_ADDR + 4) h) (peek RISCV_MTIMECMP_ADDR h)"

text \<open>No division by zero: the frequencies the time conversion divides by are not zero.\<close>

definition timer_inv :: "HardwareTimer \<Rightarrow> bool" where
  "timer_inv t \<longleftrightarrow> core_frequency_hz t \<noteq> 0 \<and> timer_counter_hz t \<noteq> 0"

subsection \<open>The counter the code relies on\<close>

text \<open>Each access sees the halves of the current count; the count does not run backwards and
  advances by less than \<open>2 ^ 29\<close> ticks between two accesses.\<close>

locale mtime_counter =
  fixes P :: "('h, 'x) platform"
    and time :: "'h \<Rightarrow> u64"
  assumes rd_high: "fst (bus_rd P (RISCV_MTIME_ADDR + 4) h) = ucast (drop_bit 32 (time h))"
    and rd_low: "fst (bus_rd P RISCV_MTIME_ADDR h) = ucast (time h)"
    and monotone: "a \<in> {RISCV_MTIME_ADDR, RISCV_MTIME_ADDR + 4} \<Longrightarrow>
          time h \<le> time (snd (bus_rd P a h))"
    and advance: "a \<in> {RISCV_MTIME_ADDR, RISCV_MTIME_ADDR + 4} \<Longrightarrow>
          unat (time (snd (bus_rd P a h))) \<le> unat (time h) + 2 ^ 29"

text \<open>A counter that ticks whenever it is read and stops at its maximum, and a comparator that is plain
  storage.\<close>

type_synonym clint_hw = "u64 \<times> (u32 \<Rightarrow> u32)"

definition mtime_regs :: "u32 set" where
  "mtime_regs = {RISCV_MTIME_ADDR, RISCV_MTIME_ADDR + 4}"

definition mtimecmp_regs :: "u32 set" where
  "mtimecmp_regs = {RISCV_MTIMECMP_ADDR, RISCV_MTIMECMP_ADDR + 4}"

definition clint_platform :: "(clint_hw, sim_ax) platform" where
  "clint_platform =
     \<lparr>bus_rd = (\<lambda>a (t, cmp).
        if a \<in> mtime_regs
        then (if a = RISCV_MTIME_ADDR then ucast t else ucast (drop_bit 32 t), if t = - 1 then t else t + 1, cmp)
        else (cmp a, t, cmp)),
      bus_wr = (\<lambda>a v (t, cmp). (t, cmp(a := v))), bus_wr8 = (\<lambda>a v h. h), csr_rd = (\<lambda>c t. (0, t)), csr_set = (\<lambda>c m t. t),
      disable_interrupts_save_flags = (\<lambda>x. (0, x)), restore_interrupts_flags = (\<lambda>f x. x),
      taccess = sim_access, isr_post = (\<lambda>h x. x), timer_service_init = (\<lambda>x. x),
      timer_service_tick = (\<lambda>n x. x\<lparr>timer_ticks := timer_ticks x @ [n]\<rparr>),
      timer_service_sleep_ms = timer_service_sleep_ms sim_platform\<rparr>"

definition clint_env :: "u64 \<Rightarrow> (clint_hw, sim_ax) env" where
  "clint_env t = \<lparr>hw = (t, \<lambda>_. 0), ax = ax sim_env, ram = ram sim_env\<rparr>"

subsection \<open>Lemmas\<close>

lemma unat_u64_of_halves: "unat (u64_of_halves high low) = unat high * 2 ^ 32 + unat low"
proof -
  have "push_bit 32 (ucast high :: u64) AND ucast low = 0"
    by (rule bit_word_eqI) (auto simp: bit_simps bit_beyond_32)
  then have "u64_of_halves high low = push_bit 32 (ucast high) + ucast low"
    by (simp add: u64_of_halves_def disjunctive_add_eq_or)
  moreover have "unat (push_bit 32 (ucast high) :: u64) = unat high * 2 ^ 32"
    using unat_lt_2p32 [of high] by (simp add: push_bit_eq_mult unat_word_ariths mult.commute)
  moreover have "unat high * 2 ^ 32 + unat low < 2 ^ 64"
    using unat_lt_2p32 [of high] unat_lt_2p32 [of low] by simp
  ultimately show ?thesis by (simp add: unat_word_ariths)
qed

lemma unat_high_half: "unat (ucast (drop_bit 32 t) :: u32) = unat (t :: u64) div 2 ^ 32"
proof -
  have "unat (drop_bit 32 t) = unat t div 2 ^ 32"
    by (simp only: unat_drop_bit_eq) (simp only: drop_bit_eq_div)
  moreover have "unat t div 2 ^ 32 < 2 ^ 32"
    using unat_lt_2p64 [of t] by (simp add: less_mult_imp_div_less)
  ultimately show ?thesis by (simp only: unat_ucast_mod) simp
qed

lemma unat_low_half: "unat (ucast t :: u32) = unat (t :: u64) mod 2 ^ 32"
  by (simp add: unat_ucast_mod)

lemma u64_of_its_halves: "u64_of_halves (ucast (drop_bit 32 t)) (ucast t) = t"
proof -
  have "unat (u64_of_halves (ucast (drop_bit 32 t)) (ucast t)) = unat t"
    by (subst unat_u64_of_halves, subst unat_high_half, subst unat_low_half) (rule div_mult_mod_eq)
  then show ?thesis by (simp only: word_unat_eq_iff)
qed

lemma high_half_eq_iff:
  "(ucast (drop_bit 32 s) :: u32) = ucast (drop_bit 32 t) \<longleftrightarrow>
    unat (s :: u64) div 2 ^ 32 = unat (t :: u64) div 2 ^ 32"
  by (simp only: word_unat_eq_iff unat_high_half)

lemma high_word_settles:
  fixes t0 t2 t3 t5 :: nat
  assumes "t0 \<le> t2" and "t2 \<le> t3" and "t3 \<le> t0 + 3 * 2 ^ 29" and "t3 \<le> t5" and "t5 \<le> t3 + 2 * 2 ^ 29"
    and "t0 div 2 ^ 32 \<noteq> t2 div 2 ^ 32"
  shows "t3 div 2 ^ 32 = t5 div 2 ^ 32"
proof -
  let ?M = "2 ^ 32 :: nat"
  have "t0 div ?M \<le> t2 div ?M" using assms(1) by (rule div_le_mono)
  then have "Suc (t0 div ?M) \<le> t2 div ?M" using assms(6) by simp
  then have "Suc (t0 div ?M) * ?M \<le> t2 div ?M * ?M" by (rule mult_right_mono) simp
  then have low: "?M * Suc (t0 div ?M) \<le> t3"
    using div_times_less_eq_dividend [of t2 ?M] assms(2) by (simp only: mult.commute)
  then have low': "?M * Suc (t0 div ?M) \<le> t5" using assms(4) by (rule le_trans)
  have "t0 < ?M * Suc (t0 div ?M)" using mod_less_divisor [of ?M t0] div_mult_mod_eq [of t0 ?M]
    by simp
  then have high: "t3 < ?M * Suc (Suc (t0 div ?M))" "t5 < ?M * Suc (Suc (t0 div ?M))"
    using assms(3,5) by simp_all
  show ?thesis using div_nat_eqI [OF low high(1)] div_nat_eqI [OF low' high(2)] by simp
qed

context mtime_counter
begin

abbreviation after_high :: "'h \<Rightarrow> 'h" where
  "after_high h \<equiv> snd (bus_rd P (RISCV_MTIME_ADDR + 4) h)"

abbreviation after_low :: "'h \<Rightarrow> 'h" where
  "after_low h \<equiv> snd (bus_rd P RISCV_MTIME_ADDR h)"

lemma read_mtime_unfold:
  "read_mtime P e =
    (let h1 = after_high (hw e); h2 = after_low h1; h3 = after_high h2
     in if unat (time (hw e)) div 2 ^ 32 \<noteq> unat (time h2) div 2 ^ 32 then read_mtime P (e\<lparr>hw := h3\<rparr>)
        else Some (u64_of_halves (ucast (drop_bit 32 (time (hw e)))) (ucast (time h1)), e\<lparr>hw := h3\<rparr>))"
  by (subst read_mtime.simps)
    (simp add: mmio_read_def Let_def case_prod_beta rd_high rd_low high_half_eq_iff)

lemma advances:
  "unat (time h) \<le> unat (time (after_high h))" "unat (time h) \<le> unat (time (after_low h))"
  "unat (time (after_high h)) \<le> unat (time h) + 2 ^ 29"
  "unat (time (after_low h)) \<le> unat (time h) + 2 ^ 29"
  using monotone [of _ h] advance [of _ h] by (simp_all add: word_le_nat_alt)

text \<open>One round of the loop with a stable high half returns the count at its middle access.\<close>

lemma read_mtime_stable:
  assumes "unat (time (hw e)) div 2 ^ 32 =
      unat (time (after_low (after_high (hw e)))) div 2 ^ 32"
  shows "\<exists>e'. read_mtime P e = Some (time (after_high (hw e)), e') \<and>
    time (hw e) \<le> time (after_high (hw e)) \<and> time (after_high (hw e)) \<le> time (hw e')"
proof -
  let ?h = "hw e" let ?h1 = "after_high ?h" let ?h2 = "after_low ?h1"
  have "unat (time ?h) div 2 ^ 32 \<le> unat (time ?h1) div 2 ^ 32"
    "unat (time ?h1) div 2 ^ 32 \<le> unat (time ?h2) div 2 ^ 32"
    using advances by (simp_all add: div_le_mono)
  then have "unat (time ?h) div 2 ^ 32 = unat (time ?h1) div 2 ^ 32" using assms by simp
  then have "(ucast (drop_bit 32 (time ?h)) :: u32) = ucast (drop_bit 32 (time ?h1))"
    by (simp only: high_half_eq_iff)
  then have "read_mtime P e = Some (time ?h1, e\<lparr>hw := after_high ?h2\<rparr>)"
    using assms by (subst read_mtime_unfold) (simp add: Let_def u64_of_its_halves)
  moreover have "time ?h \<le> time ?h1" "time ?h1 \<le> time (after_high ?h2)"
    using advances(1) [of ?h] advances(2) [of ?h1] advances(1) [of ?h2]
    by (simp_all add: word_le_nat_alt)
  ultimately show ?thesis by auto
qed

text \<open>If the first round sees the high half change, the second one does not.\<close>

lemma read_mtime_returns:
  "\<exists>t e'. read_mtime P e = Some (t, e') \<and> time (hw e) \<le> t \<and> t \<le> time (hw e')"
proof (cases "unat (time (hw e)) div 2 ^ 32 =
    unat (time (after_low (after_high (hw e)))) div 2 ^ 32")
  case True
  then show ?thesis using read_mtime_stable by blast
next
  case False
  let ?h2 = "after_low (after_high (hw e))" let ?h3 = "after_high ?h2"
  let ?h5 = "after_low (after_high ?h3)"
  let ?t0 = "unat (time (hw e))" and ?t2 = "unat (time ?h2)" and ?t3 = "unat (time ?h3)"
    and ?t5 = "unat (time ?h5)"
  have adv: "?t0 \<le> ?t2" "?t2 \<le> ?t3" "?t3 \<le> ?t0 + 3 * 2 ^ 29" "?t3 \<le> ?t5" "?t5 \<le> ?t3 + 2 * 2 ^ 29"
    using advances [of "hw e"] advances [of "after_high (hw e)"] advances [of ?h2]
      advances [of ?h3] advances [of "after_high ?h3"] by linarith+
  from high_word_settles [OF this False] have "?t3 div 2 ^ 32 = ?t5 div 2 ^ 32" .
  then obtain t e' where r: "read_mtime P (e\<lparr>hw := ?h3\<rparr>) = Some (t, e')" "time ?h3 \<le> t"
    "t \<le> time (hw e')"
    using read_mtime_stable [of "e\<lparr>hw := ?h3\<rparr>"] by auto
  have "read_mtime P e = read_mtime P (e\<lparr>hw := ?h3\<rparr>)"
    using False by (subst read_mtime_unfold) (simp add: Let_def)
  moreover have "time (hw e) \<le> time ?h3" using adv by (simp add: word_le_nat_alt)
  ultimately show ?thesis using r by force
qed

end

lemma clint_rd:
  "bus_rd clint_platform RISCV_MTIME_ADDR (t, cmp) = (ucast t, if t = - 1 then t else t + 1, cmp)"
  "bus_rd clint_platform (RISCV_MTIME_ADDR + 4) (t, cmp) = (ucast (drop_bit 32 t), if t = - 1 then t else t + 1, cmp)"
  "a \<in> mtimecmp_regs \<Longrightarrow> bus_rd clint_platform a (t, cmp) = (cmp a, t, cmp)"
  by (auto simp: clint_platform_def mtime_regs_def mtimecmp_regs_def memory_map)

lemma unat_tick: "unat (if t = - 1 then t else t + 1) = (if t = - 1 then unat t else Suc (unat t))" for t :: u64
  using unatSuc [of t] by (auto simp: add.commute eq_neg_iff_add_eq_0)

interpretation clint: mtime_counter clint_platform fst
proof unfold_locales
  fix h :: clint_hw and a :: u32
  obtain t cmp where h: "h = (t, cmp)" by fastforce
  show "fst (bus_rd clint_platform (RISCV_MTIME_ADDR + 4) h) = ucast (drop_bit 32 (fst h))"
    "fst (bus_rd clint_platform RISCV_MTIME_ADDR h) = ucast (fst h)"
    by (simp_all add: h clint_rd)
  assume "a \<in> {RISCV_MTIME_ADDR, RISCV_MTIME_ADDR + 4}"
  then have "fst (snd (bus_rd clint_platform a h)) = (if t = - 1 then t else t + 1)"
    using clint_rd(1,2) [of t cmp] by (auto simp: h)
  then show "fst h \<le> fst (snd (bus_rd clint_platform a h))"
    "unat (fst (snd (bus_rd clint_platform a h))) \<le> unat (fst h) + 2 ^ 29"
    by (simp_all only: word_le_nat_alt unat_tick h fst_conv) simp_all
qed

interpretation clint_cmp: word_memory clint_platform "\<lambda>a h. snd h a" mtimecmp_regs
proof unfold_locales
  fix h :: clint_hw and a b v :: u32
  show "bus_rd clint_platform a h = (snd h a, h)" if "a \<in> mtimecmp_regs"
    using clint_rd(3) [OF that] by (cases h) simp
  show "snd (bus_wr clint_platform a v h) b = (if a = b then v else snd h b)"
    by (cases h) (simp add: clint_platform_def)
qed

lemma high_half_of_halves: "ucast (drop_bit 32 (u64_of_halves high low)) = high"
  by (simp only: word_unat_eq_iff unat_high_half unat_u64_of_halves) (simp add: unat_lt_2p32)

lemma low_half_of_halves: "ucast (u64_of_halves high low) = low"
  by (simp only: word_unat_eq_iff unat_low_half unat_u64_of_halves) (simp add: unat_lt_2p32)

text \<open>The reference platform has a counter that does not advance by itself.\<close>

interpretation sim_clock: mtime_counter sim_platform
  "\<lambda>h. u64_of_halves (words h (RISCV_MTIME_ADDR + 4)) (words h RISCV_MTIME_ADDR)"
  by unfold_locales (simp_all add: high_half_of_halves low_half_of_halves)

context word_memory
begin

text \<open>The comparator after its three stores.\<close>

lemma peek_write_mtimecmp:
  "mtimecmp_regs \<subseteq> A \<Longrightarrow> mtimecmp_value peek (hw (write_mtimecmp P target e)) = target"
  by (simp add: mtimecmp_regs_def mtimecmp_value_def mtimecmp_writes_def write_mtimecmp_def
      peek_mmio_write u64_of_its_halves)

end

lemma unat_time_us:
  assumes "f \<noteq> 0"
  shows "unat (time_us_of_cycles f c) = (unat c * 1000000 div unat f) mod 2 ^ 32"
proof -
  let ?F = "unat f" and ?c = "unat c"
  have F: "0 < ?F" "?F < 2 ^ 32"
    using assms unat_lt_2p32 [of f] by (simp_all add: unat_gt_0)
  have q: "unat (c div ucast f) = ?c div ?F" and r: "unat (c mod ucast f) = ?c mod ?F"
    by (simp_all add: unat_div_distrib unat_mod_distrib)
  have rF: "?c mod ?F < ?F" using F by simp
  then have "?c mod ?F < 2 ^ 32" using F(2) by (rule less_trans)
  then have "?c mod ?F * 1000000 < 2 ^ 64" by simp
  then have m: "unat ((c mod ucast f) * 1000000) = ?c mod ?F * 1000000"
    by (simp add: unat_word_ariths r)
  then have d: "unat (((c mod ucast f) * 1000000) div ucast f) = ?c mod ?F * 1000000 div ?F"
    by (simp add: unat_div_distrib)
  have "unat (time_us_of_cycles f c) =
      ((?c div ?F * 1000000) mod 2 ^ 64 + ?c mod ?F * 1000000 div ?F) mod 2 ^ 64 mod 2 ^ 32"
    unfolding time_us_of_cycles_def unat_ucast_mod unat_word_ariths(1) d unat_word_ariths(2) q
    by simp
  also have "\<dots> = (?c div ?F * 1000000 + ?c mod ?F * 1000000 div ?F) mod 2 ^ 32"
    by (simp add: mod_mod_cancel mod_add_left_eq)
  also have "?c div ?F * 1000000 + ?c mod ?F * 1000000 div ?F = ?c * 1000000 div ?F"
  proof -
    have "?c * 1000000 = ?c div ?F * 1000000 * ?F + ?c mod ?F * 1000000"
      using arg_cong [OF div_mult_mod_eq [of ?c ?F], of "\<lambda>x. x * 1000000"]
      by (simp only: add_mult_distrib mult.assoc mult.commute [of ?F 1000000])
    then show ?thesis using F by simp
  qed
  finally show ?thesis .
qed

lemma get_cycles_ram:
  assumes "get_cycles P e = Some r"
  shows "ram (snd r) = ram e"
proof -
  have "ram (snd r) = ram (snd (P, e))"
  proof (rule get_cycles.raw_induct [where Pa = "\<lambda>x r. ram (snd r) = ram (snd x)", OF _ assms])
    fix f and P :: "('h, 'x) platform" and e r
    assume IH: "\<And>P e r. f P e = Some r \<Longrightarrow> ram (snd r) = ram (snd (P, e))"
      and body: "(let (cycles_hi, e1) = csr_read P Mcycleh e; (cycles_lo, e2) = csr_read P Mcycle e1;
        (temp, e3) = csr_read P Mcycleh e2
        in if cycles_hi \<noteq> temp then f P e3 else Some (u64_of_halves cycles_hi cycles_lo, e3)) = Some r"
    from body show "ram (snd r) = ram (snd (P, e))"
      by (auto simp: csr_read_def case_prod_beta Let_def dest!: IH split: if_splits)
  qed
  then show ?thesis by simp
qed

lemma get_cycles_hw:
  fixes P :: "('h, 'x) platform"
  assumes "get_cycles P e = Some r" and "\<And>c h. q (snd (csr_rd P c h)) = q h"
  shows "q (hw (snd r)) = q (hw e)"
proof -
  let ?Q = "\<lambda>x r. (\<forall>c h. q (snd (csr_rd (fst x) c h)) = q h) \<longrightarrow> q (hw (snd r)) = q (hw (snd x))"
  have "?Q (P, e) r"
  proof (rule get_cycles.raw_induct [where Pa = ?Q, OF _ assms(1)])
    fix f and P :: "('h, 'x) platform" and e r
    assume IH: "\<And>P e r. f P e = Some r \<Longrightarrow> ?Q (P, e) r"
      and body: "(let (cycles_hi, e1) = csr_read P Mcycleh e; (cycles_lo, e2) = csr_read P Mcycle e1;
        (temp, e3) = csr_read P Mcycleh e2
        in if cycles_hi \<noteq> temp then f P e3 else Some (u64_of_halves cycles_hi cycles_lo, e3)) = Some r"
    show "?Q (P, e) r"
    proof
      assume q: "\<forall>c h. q (snd (csr_rd (fst (P, e)) c h)) = q h"
      then have "q (hw (snd (csr_read P c e))) = q (hw e)" for c e
        by (simp add: csr_read_def case_prod_beta Let_def)
      with body q IH [of P _ r] show "q (hw (snd r)) = q (hw (snd (P, e)))"
        by (fastforce simp: case_prod_beta Let_def split: if_splits)
    qed
  qed
  then show ?thesis using assms(2) by simp
qed

lemma get_time_us_hw:
  "get_time_us P t e = Some (c, e') \<Longrightarrow> (\<And>c h. q (snd (csr_rd P c h)) = q h) \<Longrightarrow> q (hw e') = q (hw e)"
  by (auto simp: get_time_us_def bind_eq_Some_conv dest!: get_cycles_hw [where q = q])

lemma get_time_us_ram: "get_time_us P t e = Some (c, e') \<Longrightarrow> ram e' = ram e"
  by (auto simp: get_time_us_def bind_eq_Some_conv dest!: get_cycles_ram)

lemma sim_get_time_us:
  "get_time_us sim_platform t e = Some (time_us_of_cycles (core_frequency_hz t)
    (u64_of_halves (csrs (hw e) Mcycleh) (csrs (hw e) Mcycle)), e)"
  by (simp add: get_time_us_def get_cycles.simps csr_read_def)

subsection \<open>Properties\<close>

text \<open>C19. Reading the 64-bit time through its two halves is safe across a carry: the retry loop
  always returns, and the value it returns is a count the timer really had between the start and
  the end of the call.\<close>

theorem read_mtime_linearizable:
  assumes "mtime_counter P time"
  shows "\<exists>t e'. read_mtime P e = Some (t, e') \<and> time (hw e) \<le> t \<and> t \<le> time (hw e')"
  by (rule mtime_counter.read_mtime_returns [OF assms])

theorem read_mtime_linearizable_witness:
  "\<exists>t e'. read_mtime clint_platform (clint_env 0xFFFFFFFF) = Some (t, e') \<and> 0xFFFFFFFF \<le> t \<and> t \<le> fst (hw e')"
  using read_mtime_linearizable [OF clint.mtime_counter_axioms, of "clint_env 0xFFFFFFFF"]
  by (simp add: clint_env_def)

text \<open>\<open>get_time_us\<close> is exact: it returns the number of whole microseconds of the cycle count,
  modulo \<open>2 ^ 32\<close>, with no intermediate overflow error for any 64-bit cycle count.\<close>

theorem get_time_us_exact:
  assumes "timer_inv t" and "get_cycles P e = Some (c, e')"
  shows "\<exists>us. get_time_us P t e = Some (us, e') \<and>
    unat us = (unat c * 1000000 div unat (core_frequency_hz t)) mod 2 ^ 32"
  using assms unat_time_us [of "core_frequency_hz t" c]
  by (simp add: get_time_us_def timer_inv_def)

theorem get_time_us_exact_witness:
  "get_cycles sim_platform sim_env = Some (0, sim_env) \<and>
   get_time_us sim_platform HardwareTimer_static sim_env = Some (0, sim_env)"
proof -
  have c: "get_cycles sim_platform sim_env = Some (0, sim_env)"
    by (subst get_cycles.simps) (simp add: csr_read_def sim_env_def u64_of_halves_def)
  have "timer_inv HardwareTimer_static"
    by (simp add: timer_inv_def HardwareTimer_static_def CPU_FREQ_HZ_def)
  from get_time_us_exact [OF this c] obtain us where
    "get_time_us sim_platform HardwareTimer_static sim_env = Some (us, sim_env)" "unat us = 0"
    by auto
  then show ?thesis using c by (simp add: unat_eq_zero)
qed

text \<open>C20. Programming the comparator causes no early timer match: whatever it held before, after
  each intermediate store it is not below the new target, and in the end it equals the target.\<close>

theorem write_mtimecmp_no_early_match:
  assumes "word_memory P peek A" and "{RISCV_MTIMECMP_ADDR, RISCV_MTIMECMP_ADDR + 4} \<subseteq> A"
    and "target < 0xFFFFFFFF00000000" and "k = 1 \<or> k = 2"
  shows "target \<le> mtimecmp_value peek
      (hw (fold (\<lambda>(a, v). mmio_write P a v) (take k (mtimecmp_writes target)) e)) \<and>
    mtimecmp_value peek (hw (write_mtimecmp P target e)) = target"
proof -
  have "target \<le> u64_of_halves 0xFFFFFFFF low" for low
    using assms(3) by (simp add: word_le_nat_alt word_less_nat_alt unat_u64_of_halves)
  then show ?thesis
    using assms(2,4) word_memory.peek_mmio_write [OF assms(1)]
    by (auto simp: mtimecmp_value_def mtimecmp_writes_def write_mtimecmp_def u64_of_its_halves)
qed

theorem write_mtimecmp_no_early_match_witness:
  "0x123456789 \<le> mtimecmp_value (\<lambda>a h. words h a) (hw (fold (\<lambda>(a, v). mmio_write sim_platform a v)
      (take 1 (mtimecmp_writes 0x123456789)) sim_env))"
  using write_mtimecmp_no_early_match [OF sim.word_memory_axioms, of "0x123456789" 1 sim_env]
  by simp

text \<open>C5. A timer interrupt re-arms the next tick in the future and without drift: the handler
  returns, the comparator then holds the new deadline, so the timer fires again, the deadline is later
  than the time the handler read and exactly one period after the previous deadline unless that is
  already past, the interrupt count grows by one and the timer wheel gets exactly one tick.\<close>

theorem timer_isr_rearms_without_drift:
  assumes "mtime_counter P time" and "0 < period_cycles t"
    and "unat (next_tick_mtime t) + 2 ^ 32 \<le> 2 ^ 64"
    and "\<And>now e'. read_mtime P e = Some (now, e') \<Longrightarrow> unat now + 2 ^ 32 \<le> 2 ^ 64"
    and "word_memory P peek mtimecmp_regs"
  shows "\<exists>now e1 t' e'. read_mtime P e = Some (now, e1) \<and> time (hw e) \<le> now \<and>
    HardwareTimer_handle_isr P t e = Some (t', e') \<and>
    mtimecmp_value peek (hw e') = next_tick_mtime t' \<and> now < next_tick_mtime t' \<and>
    (unat now < unat (next_tick_mtime t) + unat (period_cycles t) \<longrightarrow>
       unat (next_tick_mtime t') = unat (next_tick_mtime t) + unat (period_cycles t)) \<and>
    timer_interrupt_count t' = timer_interrupt_count t + 1 \<and>
    ax e' = timer_service_tick P 1 (ax e1)"
proof -
  obtain now e1 where now: "read_mtime P e = Some (now, e1)" "time (hw e) \<le> now"
    using mtime_counter.read_mtime_returns [OF assms(1)] by blast
  let ?p = "ucast (period_cycles t) :: u64"
  have p: "unat ?p = unat (period_cycles t)" "0 < unat ?p" "unat ?p < 2 ^ 32"
    using assms(2) unat_lt_2p32 [of "period_cycles t"] by (simp_all add: word_less_nat_alt)
  have n: "unat (next_tick_mtime t + ?p) = unat (next_tick_mtime t) + unat ?p"
    by (rule unat_add_no_wrap) (use assms(3) p in simp)
  have m: "unat (now + ?p) = unat now + unat ?p"
    by (rule unat_add_no_wrap) (use assms(4) [OF now(1)] p in simp)
  have ax: "ax (write_mtimecmp P v e1) = ax e1" for v
    by (simp add: write_mtimecmp_def mtimecmp_writes_def mmio_write_def)
  have cmp: "mtimecmp_value peek (hw (write_mtimecmp P v e1)) = v" for v
    using word_memory.peek_write_mtimecmp [OF assms(5)] by simp
  show ?thesis
    using now n m p
    by (auto simp: HardwareTimer_handle_isr_def arm_next_tick_def Let_def ax cmp word_le_nat_alt
        word_less_nat_alt)
qed

theorem timer_isr_rearms_without_drift_witness:
  "\<exists>t' e'. HardwareTimer_handle_isr clint_platform HardwareTimer_static (clint_env 1000) = Some (t', e') \<and>
     next_tick_mtime t' = 600000 \<and> mtimecmp_value (\<lambda>a h. snd h a) (hw e') = 600000"
proof -
  have r: "read_mtime clint_platform (clint_env 1000) = Some (1001, (clint_env 1000)\<lparr>hw := (1003, \<lambda>_. 0)\<rparr>)"
    by (subst read_mtime.simps) (simp add: mmio_read_def clint_env_def clint_rd u64_of_halves_def)
  have t: "period_cycles HardwareTimer_static = 600000" "next_tick_mtime HardwareTimer_static = 0"
    by (simp_all add: HardwareTimer_static_def CPU_FREQ_HZ_def)
  obtain t' e' where "HardwareTimer_handle_isr clint_platform HardwareTimer_static (clint_env 1000) = Some (t', e')"
    "mtimecmp_value (\<lambda>a h. snd h a) (hw e') = next_tick_mtime t'" "unat (next_tick_mtime t') = 600000"
    using timer_isr_rearms_without_drift [OF clint.mtime_counter_axioms _ _ _ clint_cmp.word_memory_axioms,
        of HardwareTimer_static "clint_env 1000"]
    by (auto simp: r t)
  moreover from this(3) have "next_tick_mtime t' = 600000" by (simp add: word_unat_eq_iff)
  ultimately show ?thesis by simp
qed

text \<open>Initialisation is guarded: with a zero argument it changes nothing; otherwise it stores
  the two frequencies, sets the period to the counter rate divided by the tick rate and arms the
  first tick one period after the time it read.  In both cases no frequency becomes zero.\<close>

theorem timer_init_guarded:
  assumes "mtime_counter P time" and "timer_inv t"
  shows "\<exists>t' e'. HardwareTimer_init P tick core counter t e = Some (t', e') \<and> timer_inv t' \<and>
    (if tick = 0 \<or> core = 0 \<or> counter = 0 then t' = t \<and> e' = e
     else core_frequency_hz t' = core \<and> timer_counter_hz t' = counter \<and>
       period_cycles t' = counter div tick \<and> timer_interrupt_count t' = 0 \<and>
       (\<exists>now. time (hw e) \<le> now \<and> next_tick_mtime t' = now + ucast (counter div tick)))"
proof -
  obtain now e1 where
    "read_mtime P (e\<lparr>ax := timer_service_init P (ax e)\<rparr>) = Some (now, e1)" "time (hw e) \<le> now"
    using mtime_counter.read_mtime_returns [OF assms(1), of "e\<lparr>ax := timer_service_init P (ax e)\<rparr>"]
    by auto
  then show ?thesis
    using assms(2) by (auto simp: HardwareTimer_init_def set_timer_period_def Let_def timer_inv_def)
qed

theorem timer_init_guarded_witness:
  "\<exists>t' e'. HardwareTimer_init clint_platform 1000 600000000 24000000 HardwareTimer_static
      (clint_env 5) = Some (t', e') \<and> period_cycles t' = 24000"
  using timer_init_guarded [OF clint.mtime_counter_axioms, of HardwareTimer_static 1000 600000000
      24000000 "clint_env 5"]
  by (auto simp: timer_inv_def HardwareTimer_static_def CPU_FREQ_HZ_def)

text \<open>A tick rate above the counter rate is not rejected by \<open>init_from_shared_clock_configuration\<close>:
  the period becomes zero, so the first deadline is the current time itself.\<close>

theorem timer_period_zero_accepted:
  assumes "read_shared_configuration P e = (c, e0)" and "ClockConfiguration_is_valid c"
    and "cc_timer_counter_hz c < tick"
    and "read_mtime P (e0\<lparr>ax := timer_service_init P (ax e0)\<rparr>) = Some (now, e1)"
  shows "\<exists>t' e'. init_from_shared_clock_configuration P tick t e = Some (True, t', e') \<and>
    period_cycles t' = 0 \<and> next_tick_mtime t' = now"
proof -
  have "tick \<noteq> 0" using assms(3) by auto
  moreover have "cc_timer_counter_hz c div tick = 0"
    using assms(3) by (simp add: word_unat_eq_iff unat_div_distrib word_less_nat_alt)
  ultimately show ?thesis
    using assms
    by (simp add: init_from_shared_clock_configuration_def HardwareTimer_init_def
        set_timer_period_def Let_def ClockConfiguration_is_valid_def)
qed

theorem timer_period_zero_accepted_witness:
  "\<exists>t' e'. init_from_shared_clock_configuration sim_platform 48000000 HardwareTimer_static
      (clock_env example_clock) = Some (True, t', e') \<and> period_cycles t' = 0 \<and> next_tick_mtime t' = 0"
proof -
  let ?e = "(clock_env example_clock)\<lparr>ax := timer_service_init sim_platform
      (ax (clock_env example_clock))\<rparr>"
  have c: "read_shared_configuration sim_platform (clock_env example_clock) =
      (example_clock, clock_env example_clock)"
    by (rule sim_read_example_clock)
  have "read_mtime sim_platform ?e = Some (0, ?e)"
    by (subst read_mtime.simps)
      (simp add: mmio_read_def clock_env_def sim_env_def memory_map u64_of_halves_def)
  then show ?thesis
    using timer_period_zero_accepted [OF c]
    by (simp add: example_clock_def ClockConfiguration_is_valid_def kClockConfigMagic_def
        kClockConfigAbiVersion_def sizeof_ClockConfiguration_def)
qed

end
