(* ===== verification/Spsc_Queue.thy ===== *)
theory Spsc_Queue
  imports Hal_Prelude
begin

text \<open>
  \<^verbatim>\<open>etl::queue_spsc_isr\<close>, the ring buffer behind every driver request queue
  (\<^verbatim>\<open>hal::DriverRequestQueue\<close> is this class with the AbstractX interrupt lock and the small memory
  model, so its indices and its size are 8-bit counters).

  The element types used by the drivers are trivially destructible: a destructor call leaves the
  storage as it is.  A reference parameter \<^verbatim>\<open>T& value\<close> is an argument and a result.  The functions
  of the base class (\<open>..._from_isr\<close>) do not lock; those of \<^verbatim>\<open>iqueue_spsc_isr\<close> call the access
  policy before and after, so they take and return the state \<open>'x\<close> that the policy works on.

  The locale \<open>bounded_fifo\<close> is the contract the drivers rely on; the ring buffer is an instance of
  it, with \<open>q_list\<close> as its abstraction to a list.
\<close>

subsection \<open>State and operations of the ring buffer\<close>

record 'a queue_spsc_isr =
  p_buffer :: "'a list"
  write_index :: u8
  read_index :: u8
  current_size :: u8
  MAX_SIZE :: u8

definition get_next_index :: "u8 \<Rightarrow> u8 \<Rightarrow> u8" where
  "get_next_index index maximum = (let index = index + 1 in if index = maximum then 0 else index)"

definition queue_spsc_isr_base :: "'a list \<Rightarrow> u8 \<Rightarrow> 'a queue_spsc_isr" where
  "queue_spsc_isr_base buffer sz =
     \<lparr>p_buffer = buffer, write_index = 0, read_index = 0, current_size = 0, MAX_SIZE = sz\<rparr>"

definition queue_spsc_isr_new :: "'a list \<Rightarrow> 'a queue_spsc_isr" where
  "queue_spsc_isr_new buffer = queue_spsc_isr_base buffer (of_nat (length buffer))"

definition push_implementation :: "'a \<Rightarrow> 'a queue_spsc_isr \<Rightarrow> bool \<times> 'a queue_spsc_isr" where
  "push_implementation value q =
     (if current_size q \<noteq> MAX_SIZE q
      then (True,
            q\<lparr>p_buffer := (p_buffer q)[unat (write_index q) := value],
              write_index := get_next_index (write_index q) (MAX_SIZE q),
              current_size := current_size q + 1\<rparr>)
      else (False, q))"

text \<open>\<open>construct args\<close> is the object the constructor \<^verbatim>\<open>T(args...)\<close> builds in place.\<close>

definition emplace_implementation ::
    "('args \<Rightarrow> 'a) \<Rightarrow> 'args \<Rightarrow> 'a queue_spsc_isr \<Rightarrow> bool \<times> 'a queue_spsc_isr" where
  "emplace_implementation construct args q =
     (if current_size q \<noteq> MAX_SIZE q
      then (True,
            q\<lparr>p_buffer := (p_buffer q)[unat (write_index q) := construct args],
              write_index := get_next_index (write_index q) (MAX_SIZE q),
              current_size := current_size q + 1\<rparr>)
      else (False, q))"

definition pop_implementation :: "'a \<Rightarrow> 'a queue_spsc_isr \<Rightarrow> bool \<times> 'a \<times> 'a queue_spsc_isr" where
  "pop_implementation value q =
     (if current_size q = 0 then (False, value, q)
      else (True, p_buffer q ! unat (read_index q),
            q\<lparr>read_index := get_next_index (read_index q) (MAX_SIZE q),
              current_size := current_size q - 1\<rparr>))"

definition pop_discard_implementation :: "'a queue_spsc_isr \<Rightarrow> bool \<times> 'a queue_spsc_isr" where
  "pop_discard_implementation q =
     (if current_size q = 0 then (False, q)
      else (True,
            q\<lparr>read_index := get_next_index (read_index q) (MAX_SIZE q),
              current_size := current_size q - 1\<rparr>))"

definition front_implementation :: "'a queue_spsc_isr \<Rightarrow> 'a" where
  "front_implementation q = p_buffer q ! unat (read_index q)"

subsection \<open>Calls from an interrupt handler (no locking)\<close>

datatype queue_error = Queue_spsc_isr_empty

definition push_from_isr :: "'a \<Rightarrow> 'a queue_spsc_isr \<Rightarrow> bool \<times> 'a queue_spsc_isr" where
  "push_from_isr value q = push_implementation value q"

definition emplace_from_isr ::
    "('args \<Rightarrow> 'a) \<Rightarrow> 'args \<Rightarrow> 'a queue_spsc_isr \<Rightarrow> bool \<times> 'a queue_spsc_isr" where
  "emplace_from_isr construct args q = emplace_implementation construct args q"

definition pop_from_isr :: "'a \<Rightarrow> 'a queue_spsc_isr \<Rightarrow> bool \<times> 'a \<times> 'a queue_spsc_isr" where
  "pop_from_isr value q = pop_implementation value q"

definition pop_discard_from_isr :: "'a queue_spsc_isr \<Rightarrow> bool \<times> 'a queue_spsc_isr" where
  "pop_discard_from_isr q = pop_discard_implementation q"

definition empty_from_isr :: "'a queue_spsc_isr \<Rightarrow> bool" where
  "empty_from_isr q = (current_size q = 0)"

definition full_from_isr :: "'a queue_spsc_isr \<Rightarrow> bool" where
  "full_from_isr q = (current_size q = MAX_SIZE q)"

definition size_from_isr :: "'a queue_spsc_isr \<Rightarrow> u8" where
  "size_from_isr q = current_size q"

definition available_from_isr :: "'a queue_spsc_isr \<Rightarrow> u8" where
  "available_from_isr q = MAX_SIZE q - current_size q"

definition capacity :: "'a queue_spsc_isr \<Rightarrow> u8" where
  "capacity q = MAX_SIZE q"

definition max_size :: "'a queue_spsc_isr \<Rightarrow> u8" where
  "max_size q = MAX_SIZE q"

text \<open>\<open>checking\<close> is the build option \<^verbatim>\<open>ETL_CHECKING_EXTRA\<close>; a failed assertion is the error.\<close>

definition front_from_isr :: "bool \<Rightarrow> 'a queue_spsc_isr \<Rightarrow> queue_error + 'a" where
  "front_from_isr checking q =
     (if checking \<and> empty_from_isr q then Inl Queue_spsc_isr_empty
      else Inr (front_implementation q))"

function clear_from_isr :: "'a queue_spsc_isr \<Rightarrow> 'a queue_spsc_isr" where
  "clear_from_isr q =
     (if fst (pop_discard_implementation q)
      then clear_from_isr (snd (pop_discard_implementation q))
      else snd (pop_discard_implementation q))"
  by pat_completeness auto

termination
  by (relation "measure (\<lambda>q. unat (current_size q))")
    (auto simp: pop_discard_implementation_def unat_pred_less)

subsection \<open>Locking calls from the coroutine domain\<close>

definition push ::
    "'x taccess \<Rightarrow> 'a \<Rightarrow> 'a queue_spsc_isr \<Rightarrow> 'x \<Rightarrow> (bool \<times> 'a queue_spsc_isr) \<times> 'x" where
  "push A value q x =
     (let x1 = access_lock A x;
          result = push_implementation value q
      in (result, access_unlock A x1))"

definition emplace ::
    "'x taccess \<Rightarrow> ('args \<Rightarrow> 'a) \<Rightarrow> 'args \<Rightarrow> 'a queue_spsc_isr \<Rightarrow> 'x \<Rightarrow>
     (bool \<times> 'a queue_spsc_isr) \<times> 'x" where
  "emplace A construct args q x =
     (let x1 = access_lock A x;
          result = emplace_implementation construct args q
      in (result, access_unlock A x1))"

definition pop ::
    "'x taccess \<Rightarrow> 'a \<Rightarrow> 'a queue_spsc_isr \<Rightarrow> 'x \<Rightarrow> (bool \<times> 'a \<times> 'a queue_spsc_isr) \<times> 'x" where
  "pop A value q x =
     (let x1 = access_lock A x;
          result = pop_implementation value q
      in (result, access_unlock A x1))"

definition pop_discard ::
    "'x taccess \<Rightarrow> 'a queue_spsc_isr \<Rightarrow> 'x \<Rightarrow> (bool \<times> 'a queue_spsc_isr) \<times> 'x" where
  "pop_discard A q x =
     (let x1 = access_lock A x;
          result = pop_discard_implementation q
      in (result, access_unlock A x1))"

definition front ::
    "'x taccess \<Rightarrow> bool \<Rightarrow> 'a queue_spsc_isr \<Rightarrow> 'x \<Rightarrow> (queue_error + 'a) \<times> 'x" where
  "front A checking q x =
     (if checking
      then (let x1 = access_lock A x
            in if \<not> empty_from_isr q then (Inr (front_implementation q), access_unlock A x1)
               else (Inl Queue_spsc_isr_empty, access_unlock A x1))
      else (let x1 = access_lock A x
            in (Inr (front_implementation q), access_unlock A x1)))"

function drain :: "'x taccess \<Rightarrow> 'a queue_spsc_isr \<Rightarrow> 'x \<Rightarrow> 'a queue_spsc_isr \<times> 'x" where
  "drain A q x =
     (let ((popped, q1), x1) = pop_discard A q x
      in if popped then drain A q1 x1 else (q1, x1))"
  by pat_completeness auto
termination
  by (relation "measure (\<lambda>(A, q, x). unat (current_size q))")
    (auto simp: pop_discard_def pop_discard_implementation_def Let_def unat_pred_less
      split: if_splits)

definition clear :: "'x taccess \<Rightarrow> bool \<Rightarrow> 'a queue_spsc_isr \<Rightarrow> 'x \<Rightarrow> 'a queue_spsc_isr \<times> 'x" where
  "clear A is_trivially_destructible q x =
     (let x1 = access_lock A x;
          (q1, x2) = (if is_trivially_destructible
                      then (q\<lparr>write_index := 0, read_index := 0, current_size := 0\<rparr>, x1)
                      else drain A q x1)
      in (q1, access_unlock A x2))"

definition empty_q :: "'x taccess \<Rightarrow> 'a queue_spsc_isr \<Rightarrow> 'x \<Rightarrow> bool \<times> 'x" where
  "empty_q A q x =
     (let x1 = access_lock A x; result = (current_size q = 0) in (result, access_unlock A x1))"

definition full_q :: "'x taccess \<Rightarrow> 'a queue_spsc_isr \<Rightarrow> 'x \<Rightarrow> bool \<times> 'x" where
  "full_q A q x =
     (let x1 = access_lock A x; result = (current_size q = MAX_SIZE q)
      in (result, access_unlock A x1))"

definition size_q :: "'x taccess \<Rightarrow> 'a queue_spsc_isr \<Rightarrow> 'x \<Rightarrow> u8 \<times> 'x" where
  "size_q A q x =
     (let x1 = access_lock A x; result = current_size q in (result, access_unlock A x1))"

definition available :: "'x taccess \<Rightarrow> 'a queue_spsc_isr \<Rightarrow> 'x \<Rightarrow> u8 \<times> 'x" where
  "available A q x =
     (let x1 = access_lock A x; result = MAX_SIZE q - current_size q
      in (result, access_unlock A x1))"

text \<open>\<^verbatim>\<open>hal::DriverRequestQueue<T, Capacity>\<close>: the queue over raw storage for \<open>Capacity\<close> requests.\<close>

definition DriverRequestQueue :: "nat \<Rightarrow> 'a \<Rightarrow> 'a queue_spsc_isr" where
  "DriverRequestQueue n raw = queue_spsc_isr_new (replicate n raw)"

subsection \<open>Specification: a bounded first-in first-out queue\<close>

datatype 'a qop = Enq 'a | Deq

datatype 'a qres = Accepted bool | Popped "'a option"

fun run_ops ::
    "('a \<Rightarrow> 'q \<Rightarrow> bool \<times> 'q) \<Rightarrow> ('a \<Rightarrow> 'q \<Rightarrow> bool \<times> 'a \<times> 'q) \<Rightarrow> 'a \<Rightarrow> 'a qop list \<Rightarrow> 'q \<Rightarrow>
     'a qres list \<times> 'q" where
  "run_ops enq deq d [] q = ([], q)"
| "run_ops enq deq d (Enq v # ops) q =
     (let (ok, q1) = enq v q; (rs, q2) = run_ops enq deq d ops q1 in (Accepted ok # rs, q2))"
| "run_ops enq deq d (Deq # ops) q =
     (let (ok, v, q1) = deq d q; (rs, q2) = run_ops enq deq d ops q1
      in (Popped (if ok then Some v else None) # rs, q2))"

fun spec_ops :: "nat \<Rightarrow> 'a qop list \<Rightarrow> 'a list \<Rightarrow> 'a qres list \<times> 'a list" where
  "spec_ops n [] xs = ([], xs)"
| "spec_ops n (Enq v # ops) xs =
     (if length xs < n
      then (let (rs, ys) = spec_ops n ops (xs @ [v]) in (Accepted True # rs, ys))
      else (let (rs, ys) = spec_ops n ops xs in (Accepted False # rs, ys)))"
| "spec_ops n (Deq # ops) [] = (let (rs, ys) = spec_ops n ops [] in (Popped None # rs, ys))"
| "spec_ops n (Deq # ops) (x # xs) =
     (let (rs, ys) = spec_ops n ops xs in (Popped (Some x) # rs, ys))"

definition q_inv :: "'a queue_spsc_isr \<Rightarrow> bool" where
  "q_inv q \<longleftrightarrow>
     length (p_buffer q) = unat (MAX_SIZE q) \<and> read_index q < MAX_SIZE q \<and>
     current_size q \<le> MAX_SIZE q \<and>
     unat (write_index q) = (unat (read_index q) + unat (current_size q)) mod unat (MAX_SIZE q)"

definition q_list :: "'a queue_spsc_isr \<Rightarrow> 'a list" where
  "q_list q =
     map (\<lambda>i. p_buffer q ! ((unat (read_index q) + i) mod unat (MAX_SIZE q)))
       [0 ..< unat (current_size q)]"

locale bounded_fifo =
  fixes inv :: "'q \<Rightarrow> bool"
    and contents :: "'q \<Rightarrow> 'a list"
    and cap :: "'q \<Rightarrow> nat"
    and enq :: "'a \<Rightarrow> 'q \<Rightarrow> bool \<times> 'q"
    and deq :: "'a \<Rightarrow> 'q \<Rightarrow> bool \<times> 'a \<times> 'q"
  assumes bounded: "inv q \<Longrightarrow> length (contents q) \<le> cap q"
    and enq_ok: "inv q \<Longrightarrow> fst (enq v q) \<longleftrightarrow> length (contents q) < cap q"
    and enq_contents: "inv q \<Longrightarrow> contents (snd (enq v q)) =
          (if length (contents q) < cap q then contents q @ [v] else contents q)"
    and enq_inv: "inv q \<Longrightarrow> inv (snd (enq v q))"
    and enq_cap: "cap (snd (enq v q)) = cap q"
    and deq_ok: "inv q \<Longrightarrow> fst (deq d q) \<longleftrightarrow> contents q \<noteq> []"
    and deq_value: "inv q \<Longrightarrow> fst (snd (deq d q)) = (case contents q of [] \<Rightarrow> d | v # _ \<Rightarrow> v)"
    and deq_contents: "inv q \<Longrightarrow> contents (snd (snd (deq d q))) = tl (contents q)"
    and deq_inv: "inv q \<Longrightarrow> inv (snd (snd (deq d q)))"
    and deq_cap: "cap (snd (snd (deq d q))) = cap q"
begin

lemma deq_empty:
  assumes "inv q" and "contents q = []"
  shows "\<exists>q'. deq d q = (False, d, q') \<and> inv q' \<and> contents q' = []"
  using deq_ok [OF assms(1), of d] deq_value [OF assms(1), of d] deq_inv [OF assms(1), of d]
    deq_contents [OF assms(1), of d] assms(2)
  by (cases "deq d q") auto

lemma deq_Cons:
  assumes "inv q" and "contents q = v # vs"
  shows "\<exists>q'. deq d q = (True, v, q') \<and> inv q' \<and> contents q' = vs \<and> cap q' = cap q"
  using deq_ok [OF assms(1), of d] deq_value [OF assms(1), of d] deq_inv [OF assms(1), of d]
    deq_contents [OF assms(1), of d] deq_cap [of d q] assms(2)
  by (cases "deq d q") auto

lemma enq_room:
  assumes "inv q" and "length (contents q) < cap q"
  shows "\<exists>q'. enq v q = (True, q') \<and> inv q' \<and> contents q' = contents q @ [v] \<and> cap q' = cap q"
  using enq_ok [OF assms(1), of v] enq_contents [OF assms(1), of v] enq_inv [OF assms(1), of v]
    enq_cap [of v q] assms(2)
  by (cases "enq v q") auto

lemma enq_no_room:
  assumes "inv q" and "length (contents q) = cap q"
  shows "\<exists>q'. enq v q = (False, q') \<and> inv q' \<and> contents q' = contents q \<and> cap q' = cap q"
  using enq_ok [OF assms(1), of v] enq_contents [OF assms(1), of v] enq_inv [OF assms(1), of v]
    enq_cap [of v q] assms(2)
  by (cases "enq v q") auto

text \<open>Popping an element and pushing it back rotates the contents, whatever the capacity.\<close>

lemma deq_enq_rotates:
  assumes "inv q" and "contents q = v # vs"
  shows "\<exists>q1 q2. deq d q = (True, v, q1) \<and> inv q1 \<and> contents q1 = vs \<and>
    enq v q1 = (True, q2) \<and> inv q2 \<and> contents q2 = vs @ [v] \<and> cap q2 = cap q"
proof -
  obtain q1 where q1: "deq d q = (True, v, q1)" "inv q1" "contents q1 = vs" "cap q1 = cap q"
    using deq_Cons [OF assms] by blast
  have "length (contents q1) < cap q1" using bounded [OF assms(1)] assms(2) q1 by simp
  from enq_room [OF q1(2) this] q1 show ?thesis by (metis (no_types))
qed

text \<open>One operation, whatever the state of the queue.\<close>

lemma enq_refines:
  assumes "inv q"
  obtains q' where "enq v q = (length (contents q) < cap q, q')" and "inv q'" and "cap q' = cap q"
    and "contents q' = (if length (contents q) < cap q then contents q @ [v] else contents q)"
proof (cases "length (contents q) < cap q")
  case True
  then show thesis using enq_room [OF assms, of v] that by auto
next
  case False
  with bounded [OF assms] have "length (contents q) = cap q" by simp
  then show thesis using enq_no_room [OF assms, of v] that False by auto
qed

lemma deq_refines:
  assumes "inv q"
  obtains q' where "deq d q = (contents q \<noteq> [], case contents q of [] \<Rightarrow> d | v # _ \<Rightarrow> v, q')" and "inv q'"
    and "cap q' = cap q" and "contents q' = tl (contents q)"
proof (cases "contents q")
  case Nil
  then show thesis using deq_empty [OF assms, of d] deq_cap [of d q] that by auto
next
  case (Cons v vs)
  then show thesis using deq_Cons [OF assms, of v vs d] that by auto
qed

lemma run_refines:
  assumes "inv q"
  shows "fst (run_ops enq deq d ops q) = fst (spec_ops (cap q) ops (contents q)) \<and>
    contents (snd (run_ops enq deq d ops q)) = snd (spec_ops (cap q) ops (contents q)) \<and>
    inv (snd (run_ops enq deq d ops q))"
  using assms
proof (induction ops arbitrary: q)
  case Nil
  then show ?case by simp
next
  case (Cons a ops)
  show ?case
  proof (cases a)
    case (Enq v)
    obtain q' where q': "enq v q = (length (contents q) < cap q, q')" "inv q'" "cap q' = cap q"
      "contents q' = (if length (contents q) < cap q then contents q @ [v] else contents q)"
      by (rule enq_refines [OF Cons.prems])
    from Cons.IH [OF q'(2)] q' show ?thesis by (simp add: Enq Let_def case_prod_beta)
  next
    case Deq
    obtain q' where q': "deq d q = (contents q \<noteq> [], case contents q of [] \<Rightarrow> d | v # _ \<Rightarrow> v, q')" "inv q'"
      "cap q' = cap q" "contents q' = tl (contents q)"
      by (rule deq_refines [OF Cons.prems])
    from Cons.IH [OF q'(2)] q' show ?thesis
      by (cases "contents q") (simp_all add: Deq Let_def case_prod_beta)
  qed
qed

end

subsection \<open>The ring buffer meets the specification\<close>

lemma q_inv_MAX_pos: "q_inv q \<Longrightarrow> 0 < unat (MAX_SIZE q)"
  by (auto simp: q_inv_def unat_gt_0 word_gt_0 dest: word_less_nat_alt [THEN iffD1])

lemma unat_get_next_index:
  assumes "i < m"
  shows "unat (get_next_index i m) = Suc (unat i) mod unat m"
proof -
  have s: "unat (i + 1) = Suc (unat i)" by (rule unat_Suc_no_wrap [OF assms])
  have "unat i < unat m" using assms by (simp add: word_less_nat_alt)
  show ?thesis
  proof (cases "i + 1 = m")
    case True
    with s show ?thesis by (simp add: get_next_index_def)
  next
    case False
    then have "unat (i + 1) \<noteq> unat m" by (simp add: word_unat_eq_iff)
    with s \<open>unat i < unat m\<close> have "Suc (unat i) < unat m" by simp
    with False s show ?thesis by (simp add: get_next_index_def)
  qed
qed

lemma ring_slots_distinct:
  fixes r i n m :: nat
  assumes "i < n" and "n < m"
  shows "(r + i) mod m \<noteq> (r + n) mod m"
proof
  assume "(r + i) mod m = (r + n) mod m"
  then have "(r + n) mod m = (r + i) mod m" by simp
  then have "m dvd (r + n) - (r + i)" using assms by (subst (asm) mod_eq_dvd_iff_nat) simp_all
  then have "m dvd n - i" by simp
  then have "m \<le> n - i" using assms by (simp add: dvd_imp_le)
  then show False using assms by simp
qed

lemma length_q_list [simp]: "length (q_list q) = unat (current_size q)"
  by (simp add: q_list_def)

lemma push_implementation_full:
  "current_size q = MAX_SIZE q \<Longrightarrow> push_implementation v q = (False, q)"
  by (simp add: push_implementation_def)

lemma push_implementation_room:
  assumes "q_inv q" and "current_size q \<noteq> MAX_SIZE q"
  shows "fst (push_implementation v q)"
    and "q_inv (snd (push_implementation v q))"
    and "q_list (snd (push_implementation v q)) = q_list q @ [v]"
proof -
  let ?q = "snd (push_implementation v q)"
  let ?m = "unat (MAX_SIZE q)" and ?r = "unat (read_index q)" and ?n = "unat (current_size q)"
  show "fst (push_implementation v q)" using assms by (simp add: push_implementation_def)
  have lt: "current_size q < MAX_SIZE q" using assms by (auto simp: q_inv_def)
  have n: "unat (current_size q + 1) = Suc ?n" by (rule unat_Suc_no_wrap [OF lt])
  have nm: "?n < ?m" using lt by (simp add: word_less_nat_alt)
  have w: "unat (write_index q) = (?r + ?n) mod ?m" using assms by (simp add: q_inv_def)
  have wm: "unat (write_index q) < ?m" using w nm by simp
  have wlt: "write_index q < MAX_SIZE q" using wm by (simp add: word_less_nat_alt)
  have "current_size q + 1 \<le> MAX_SIZE q" using n nm by (simp add: word_le_nat_alt)
  then show "q_inv ?q"
    using assms w
    by (simp add: push_implementation_def q_inv_def unat_get_next_index [OF wlt] n mod_Suc_eq)
  have old: "(p_buffer q)[unat (write_index q) := v] ! ((?r + i) mod ?m) =
      p_buffer q ! ((?r + i) mod ?m)" if "i < ?n" for i
    using ring_slots_distinct [OF that nm, of ?r] w by simp
  have new: "(p_buffer q)[unat (write_index q) := v] ! ((?r + ?n) mod ?m) = v"
    using wm w assms by (simp add: q_inv_def)
  show "q_list ?q = q_list q @ [v]"
    using assms n old new by (simp add: push_implementation_def q_list_def)
qed

lemma pop_implementation_empty:
  "current_size q = 0 \<Longrightarrow> pop_implementation d q = (False, d, q)"
  by (simp add: pop_implementation_def)

lemma pop_implementation_nonempty:
  assumes "q_inv q" and "current_size q \<noteq> 0"
  shows "fst (pop_implementation d q)"
    and "fst (snd (pop_implementation d q)) = hd (q_list q)"
    and "q_inv (snd (snd (pop_implementation d q)))"
    and "q_list (snd (snd (pop_implementation d q))) = tl (q_list q)"
proof -
  let ?q = "snd (snd (pop_implementation d q))"
  let ?m = "unat (MAX_SIZE q)" and ?r = "unat (read_index q)"
  obtain k where k: "unat (current_size q) = Suc k"
    using assms(2) by (metis old.nat.exhaust unat_eq_zero)
  have n: "unat (current_size q - 1) = k" using assms(2) k by (simp add: unat_minus_one)
  have r: "read_index q < MAX_SIZE q" "?r < ?m"
    using assms by (simp_all add: q_inv_def word_less_nat_alt)
  have km: "Suc k \<le> ?m" using assms k by (simp add: q_inv_def word_le_nat_alt)
  show "fst (pop_implementation d q)" using assms by (simp add: pop_implementation_def)
  show "fst (snd (pop_implementation d q)) = hd (q_list q)"
    using assms k r by (simp add: pop_implementation_def q_list_def upt_rec del: upt_Suc)
  have w: "(?r + Suc k) mod ?m = (Suc ?r mod ?m + k) mod ?m"
    by (simp add: mod_add_left_eq)
  have "unat (get_next_index (read_index q) (MAX_SIZE q)) < ?m"
    using r by (simp add: unat_get_next_index)
  then show "q_inv ?q"
    using assms km w k n r
    by (simp add: pop_implementation_def q_inv_def unat_get_next_index word_less_nat_alt
        word_le_nat_alt)
  have "tl (q_list q) = map (\<lambda>i. p_buffer q ! ((?r + Suc i) mod ?m)) [0..<k]"
    unfolding q_list_def k map_tl [symmetric]
    by (simp add: upt_conv_Cons map_Suc_upt [symmetric] comp_def del: upt_Suc)
  moreover have "(Suc ?r mod ?m + i) mod ?m = (?r + Suc i) mod ?m" for i
    by (simp add: mod_add_left_eq)
  ultimately show "q_list ?q = tl (q_list q)"
    using assms n r by (simp add: pop_implementation_def q_list_def unat_get_next_index)
qed

lemma q_list_Nil_iff: "q_list q = [] \<longleftrightarrow> current_size q = 0"
  by (simp add: q_list_def unat_eq_zero)

interpretation spsc: bounded_fifo q_inv q_list "\<lambda>q. unat (MAX_SIZE q)" push_from_isr pop_from_isr
proof
  fix q :: "'a queue_spsc_isr" and v d :: 'a
  show "unat (MAX_SIZE (snd (push_from_isr v q))) = unat (MAX_SIZE q)"
    by (simp add: push_from_isr_def push_implementation_def)
  show "unat (MAX_SIZE (snd (snd (pop_from_isr d q)))) = unat (MAX_SIZE q)"
    by (simp add: pop_from_isr_def pop_implementation_def)
  assume q: "q_inv q"
  then show le: "length (q_list q) \<le> unat (MAX_SIZE q)"
    by (simp add: q_inv_def word_le_nat_alt)
  have full: "length (q_list q) < unat (MAX_SIZE q) \<longleftrightarrow> current_size q \<noteq> MAX_SIZE q"
    using le by (auto simp: word_unat_eq_iff)
  show "fst (push_from_isr v q) \<longleftrightarrow> length (q_list q) < unat (MAX_SIZE q)"
    unfolding full by (simp add: push_from_isr_def push_implementation_def)
  show "q_list (snd (push_from_isr v q)) =
      (if length (q_list q) < unat (MAX_SIZE q) then q_list q @ [v] else q_list q)"
    unfolding full push_from_isr_def
    using push_implementation_room(3) [OF q] push_implementation_full [of q] by simp
  show "q_inv (snd (push_from_isr v q))"
    unfolding push_from_isr_def
    using push_implementation_room(2) [OF q] push_implementation_full [of q] q
    by (cases "current_size q = MAX_SIZE q") simp_all
  show "fst (pop_from_isr d q) \<longleftrightarrow> q_list q \<noteq> []"
    by (simp add: pop_from_isr_def pop_implementation_def q_list_Nil_iff)
  show "fst (snd (pop_from_isr d q)) = (case q_list q of [] \<Rightarrow> d | v # _ \<Rightarrow> v)"
    unfolding pop_from_isr_def
    using pop_implementation_nonempty(2) [OF q, of d] pop_implementation_empty [of q d]
      q_list_Nil_iff [of q]
    by (cases "current_size q = 0") (simp_all split: list.split)
  show "q_list (snd (snd (pop_from_isr d q))) = tl (q_list q)"
    unfolding pop_from_isr_def
    using pop_implementation_nonempty(4) [OF q] pop_implementation_empty [of q]
    by (cases "current_size q = 0") (simp_all add: q_list_Nil_iff [symmetric])
  show "q_inv (snd (snd (pop_from_isr d q)))"
    unfolding pop_from_isr_def
    using pop_implementation_nonempty(3) [OF q] pop_implementation_empty [of q] q
    by (cases "current_size q = 0") simp_all
qed

declare clear_from_isr.simps [simp del] drain.simps [simp del]

lemma emplace_is_push: "emplace_implementation construct args q = push_implementation (construct args) q"
  by (simp add: emplace_implementation_def push_implementation_def)

lemma push_fst_snd [simp]:
  "fst (push A v q x) = push_from_isr v q" "fst (pop A v q x) = pop_from_isr v q"
  by (simp_all add: push_def pop_def push_from_isr_def pop_from_isr_def)

lemma unat_MAX_SIZE_new [simp]:
  "n < 256 \<Longrightarrow> unat (MAX_SIZE (DriverRequestQueue n raw)) = n"
  by (simp add: DriverRequestQueue_def queue_spsc_isr_new_def queue_spsc_isr_base_def unat_of_nat)

lemma q_list_new [simp]: "q_list (DriverRequestQueue n raw) = []"
  by (simp add: DriverRequestQueue_def queue_spsc_isr_new_def queue_spsc_isr_base_def q_list_def)

lemma q_inv_new:
  assumes "0 < n" and "n < 256"
  shows "q_inv (DriverRequestQueue n raw)"
proof -
  have "(0 :: u8) < of_nat n" using assms by (simp add: word_less_nat_alt unat_of_nat)
  then show ?thesis
    using assms
    by (simp add: q_inv_def DriverRequestQueue_def queue_spsc_isr_new_def
        queue_spsc_isr_base_def unat_of_nat)
qed

text \<open>The queues of the drivers have capacity 8; they satisfy the contract with that bound.\<close>

definition dq_inv :: "'a queue_spsc_isr \<Rightarrow> bool" where
  "dq_inv q \<longleftrightarrow> q_inv q \<and> MAX_SIZE q = 8"

lemma MAX_SIZE_unchanged [simp]:
  "MAX_SIZE (snd (push_from_isr v q)) = MAX_SIZE q"
  "MAX_SIZE (snd (snd (pop_from_isr v q))) = MAX_SIZE q"
  by (simp_all add: push_from_isr_def push_implementation_def pop_from_isr_def
      pop_implementation_def)

interpretation dq: bounded_fifo dq_inv q_list "\<lambda>_. 8" push_from_isr pop_from_isr
  by unfold_locales
    (use spsc.bounded spsc.enq_ok spsc.enq_contents spsc.enq_inv spsc.deq_ok spsc.deq_value
      spsc.deq_contents spsc.deq_inv in \<open>simp_all add: dq_inv_def, fastforce+\<close>)

lemma dq_inv_new [simp]: "dq_inv (DriverRequestQueue 8 raw)"
  by (simp add: dq_inv_def q_inv_new)
    (simp add: DriverRequestQueue_def queue_spsc_isr_new_def queue_spsc_isr_base_def)

text \<open>A locked call leaves hardware and memory alone.\<close>

lemma with_ax_push [simp]:
  "fst (with_ax (push A v q) e) = push_from_isr v q"
  "hw (snd (with_ax (push A v q) e)) = hw e"
  "ram (snd (with_ax (push A v q) e)) = ram e"
  by (simp_all add: with_ax_def push_def Let_def push_from_isr_def)

lemma with_ax_pop [simp]:
  "fst (with_ax (pop A v q) e) = pop_from_isr v q"
  "hw (snd (with_ax (pop A v q) e)) = hw e"
  "ram (snd (with_ax (pop A v q) e)) = ram e"
  by (simp_all add: with_ax_def pop_def Let_def pop_from_isr_def)

context dispatcher
begin

lemma log_push [simp]: "log (ax (snd (with_ax (push (taccess P) v q) e))) = log (ax e)"
  by (simp add: with_ax_def push_def Let_def log_lock log_unlock)

lemma log_pop [simp]: "log (ax (snd (with_ax (pop (taccess P) v q) e))) = log (ax e)"
  by (simp add: with_ax_def pop_def Let_def log_lock log_unlock)

end

lemma pop_discard_step:
  "pop_discard_implementation q = (fst (pop_implementation d q), snd (snd (pop_implementation d q)))"
  by (simp add: pop_discard_implementation_def pop_implementation_def)

lemma clear_from_isr_empties:
  assumes "q_inv q"
  shows "q_inv (clear_from_isr q) \<and> q_list (clear_from_isr q) = []"
  using assms
proof (induction q rule: clear_from_isr.induct)
  case (1 q)
  show ?case
  proof (cases "current_size q = 0")
    case True
    then show ?thesis using "1.prems"
      by (simp add: clear_from_isr.simps [of q] pop_discard_implementation_def q_list_Nil_iff)
  next
    case False
    have "q_inv (snd (pop_discard_implementation q))"
      using pop_implementation_nonempty(3) [OF "1.prems" False]
      by (simp add: pop_discard_step [of q undefined])
    moreover have "fst (pop_discard_implementation q)"
      using False by (simp add: pop_discard_implementation_def)
    ultimately show ?thesis using "1.IH" by (simp add: clear_from_isr.simps [of q])
  qed
qed

lemma fst_drain: "fst (drain A q x) = clear_from_isr q"
proof (induction A q x rule: drain.induct)
  case (1 A q x)
  obtain p q1 x1 where e: "pop_discard A q x = ((p, q1), x1)" by (metis prod.exhaust)
  then have pq: "pop_discard_implementation q = (p, q1)" by (simp add: pop_discard_def Let_def)
  have "p \<Longrightarrow> fst (drain A q1 x1) = clear_from_isr q1" using "1.IH" e by auto
  then show ?case
    by (subst drain.simps, subst clear_from_isr.simps) (simp add: e pq)
qed

subsection \<open>Properties\<close>

text \<open>C3. A driver request queue behaves as a bounded first-in first-out queue: for every sequence
  of pushes and pops, started on a new queue of capacity \<open>n\<close>, each push is accepted exactly when
  fewer than \<open>n\<close> requests wait, each pop returns the oldest waiting request or reports emptiness,
  and the ring buffer ends with exactly the requests the specification says are waiting.\<close>

theorem driver_queue_refines_fifo:
  assumes "0 < n" and "n < 256"
  shows "fst (run_ops push_from_isr pop_from_isr d ops (DriverRequestQueue n raw)) =
      fst (spec_ops n ops []) \<and>
    q_list (snd (run_ops push_from_isr pop_from_isr d ops (DriverRequestQueue n raw))) =
      snd (spec_ops n ops [])"
  using spsc.run_refines [OF q_inv_new [OF assms], of d ops] assms by simp

theorem driver_queue_refines_fifo_witness:
  "fst (run_ops push_from_isr pop_from_isr (0::nat) [Enq 7, Enq 8, Enq 9, Deq, Enq 9, Deq, Deq, Deq]
      (DriverRequestQueue 2 0)) =
    [Accepted True, Accepted True, Accepted False, Popped (Some 7), Accepted True,
     Popped (Some 8), Popped (Some 9), Popped None]"
  using driver_queue_refines_fifo [of 2 "0::nat"
      "[Enq 7, Enq 8, Enq 9, Deq, Enq 9, Deq, Deq, Deq]" 0]
  by simp

text \<open>C32. The ring invariant (indices inside the buffer, size within capacity, write index
  consistent with read index and size) is preserved by every operation of the queue that changes
  it, locked or not, and clearing leaves it empty.\<close>

theorem queue_operations_keep_invariant:
  assumes "q_inv q"
  shows "q_inv (snd (push_from_isr v q)) \<and> q_inv (snd (emplace_from_isr mk args q)) \<and>
    q_inv (snd (snd (pop_from_isr d q))) \<and> q_inv (snd (pop_discard_from_isr q)) \<and>
    q_inv (snd (fst (push A v q x))) \<and> q_inv (snd (fst (emplace A mk args q x))) \<and>
    q_inv (snd (snd (fst (pop A d q x)))) \<and> q_inv (snd (fst (pop_discard A q x))) \<and>
    q_inv (clear_from_isr q) \<and> q_list (clear_from_isr q) = [] \<and>
    q_inv (fst (clear A trivial q x)) \<and> q_list (fst (clear A trivial q x)) = []"
proof -
  have e: "emplace_from_isr mk args q = push_from_isr (mk args) q"
    by (simp add: emplace_from_isr_def emplace_is_push push_from_isr_def)
  have "fst (emplace A mk args q x) = push_from_isr (mk args) q"
    by (simp add: emplace_def emplace_is_push push_from_isr_def)
  moreover have d: "q_inv (snd (pop_discard_from_isr q))"
    using spsc.deq_inv [OF assms, of d]
    by (simp add: pop_discard_from_isr_def pop_discard_step [of q d] pop_from_isr_def)
  moreover have "fst (pop_discard A q x) = pop_discard_from_isr q"
    by (simp add: pop_discard_def pop_discard_from_isr_def)
  moreover have "q_inv (fst (clear A trivial q x)) \<and> q_list (fst (clear A trivial q x)) = []"
    using assms q_inv_MAX_pos [OF assms] clear_from_isr_empties [OF assms]
    by (cases trivial)
      (simp_all add: clear_def q_inv_def q_list_def word_less_nat_alt Let_def case_prod_beta
        fst_drain)
  ultimately show ?thesis
    using clear_from_isr_empties [OF assms]
    by (simp add: e spsc.enq_inv [OF assms] spsc.deq_inv [OF assms])
qed

theorem queue_operations_keep_invariant_witness:
  "q_inv (snd (push_from_isr (5::nat) (DriverRequestQueue 8 0))) \<and>
   q_list (clear_from_isr (DriverRequestQueue 8 (0::nat))) = []"
  using queue_operations_keep_invariant [OF q_inv_new [of 8 "0::nat"], of 5 Suc 1 0
      "\<lparr>access_lock = Suc, access_unlock = Suc\<rparr>" 0 False]
  by simp

declare length_q_list [simp del]

lemmas dq_simps = dq.enq_ok dq.enq_contents dq.enq_inv dq.deq_ok dq.deq_value dq.deq_contents
  dq.deq_inv

end
