(* ===== verification/Fifo_Server.thy ===== *)
theory Fifo_Server
  imports Hal_Prelude "HOL-Library.Sublist"
begin

text \<open>
  Service in the order of arrival.  The interrupt driven drivers all keep a queue of requests: an
  operation of a coroutine appends to it, an interrupt takes the request at the front out of it.  The
  locale \<open>fifo_server\<close> is the order half of that contract, \<open>working_server\<close> adds that a completion
  interrupt never passes a waiting request by.  The drivers (mailbox, UART receiver, SPI) interpret them;
  what follows for whole runs is proved here once.
\<close>

text \<open>A step from one state to the next has an event, the requests it accepts and the requests it
  finishes; a run collects them.\<close>

inductive served_run ::
    "('s \<Rightarrow> 'ev \<Rightarrow> 'r list \<Rightarrow> 'r list \<Rightarrow> 's \<Rightarrow> bool) \<Rightarrow> 's \<Rightarrow> 'ev list \<Rightarrow> 'r list \<Rightarrow> 'r list \<Rightarrow> 's \<Rightarrow> bool"
  for step :: "'s \<Rightarrow> 'ev \<Rightarrow> 'r list \<Rightarrow> 'r list \<Rightarrow> 's \<Rightarrow> bool" where
  stop: "served_run step s [] [] [] s"
| more: "step s ev a f s1 \<Longrightarrow> served_run step s1 evs as fs s' \<Longrightarrow>
    served_run step s (ev # evs) (a @ as) (f @ fs) s'"

lemma served_one: "step s ev a f s' \<Longrightarrow> served_run step s [ev] a f s'"
  using served_run.more [of step s ev a f s' "[]" "[]" "[]" s'] by (simp add: served_run.stop)

lemma served_append:
  "served_run step s evs as fs s1 \<Longrightarrow> served_run step s1 evs' as' fs' s' \<Longrightarrow>
    served_run step s (evs @ evs') (as @ as') (fs @ fs') s'"
proof (induction rule: served_run.induct)
  case (more s ev a f s1 evs as fs s2)
  then have "served_run step s1 (evs @ evs') (as @ as') (fs @ fs') s'" by blast
  from served_run.more [of step, OF more.hyps(1) this] show ?case by simp
qed simp

locale fifo_server =
  fixes step :: "'s \<Rightarrow> 'ev \<Rightarrow> 'r list \<Rightarrow> 'r list \<Rightarrow> 's \<Rightarrow> bool"
    and inv :: "'s \<Rightarrow> bool"
    and jobs :: "'s \<Rightarrow> 'r list"
    and posted_in :: "'s \<Rightarrow> handle list"
    and handles_of :: "'r \<Rightarrow> handle list"
  assumes step_inv: "step s ev a f s' \<Longrightarrow> inv s \<Longrightarrow> inv s'"
    and step_order: "step s ev a f s' \<Longrightarrow> inv s \<Longrightarrow> jobs s @ a = f @ jobs s'"
    and step_posts: "step s ev a f s' \<Longrightarrow> inv s \<Longrightarrow>
      \<exists>ps. posted_in s' = posted_in s @ ps \<and> subseq (concat (map handles_of f)) ps"
begin

lemma run_inv: "served_run step s evs as fs s' \<Longrightarrow> inv s \<Longrightarrow> inv s'"
  by (induction rule: served_run.induct) (auto intro: step_inv)

lemma run_order: "served_run step s evs as fs s' \<Longrightarrow> inv s \<Longrightarrow> jobs s @ as = fs @ jobs s'"
proof (induction rule: served_run.induct)
  case (more s ev a f s1 evs as fs s')
  have "jobs s @ a @ as = f @ jobs s1 @ as" using step_order [OF more.hyps(1) more.prems] by (metis append_assoc)
  also have "\<dots> = f @ fs @ jobs s'" using more.IH step_inv [OF more.hyps(1) more.prems] by simp
  finally show ?case by simp
qed simp

lemma run_posts:
  "served_run step s evs as fs s' \<Longrightarrow> inv s \<Longrightarrow>
    \<exists>ps. posted_in s' = posted_in s @ ps \<and> subseq (concat (map handles_of fs)) ps"
proof (induction rule: served_run.induct)
  case (more s ev a f s1 evs as fs s')
  obtain ps where ps: "posted_in s1 = posted_in s @ ps" "subseq (concat (map handles_of f)) ps"
    using step_posts [OF more.hyps(1) more.prems] by blast
  obtain qs where qs: "posted_in s' = posted_in s1 @ qs" "subseq (concat (map handles_of fs)) qs"
    using more.IH step_inv [OF more.hyps(1) more.prems] by blast
  show ?case using ps qs list_emb_append_mono by (intro exI [of _ "ps @ qs"]) auto
qed simp

end

text \<open>A server works on the request at the front; as long as requests are left it goes on working, and each
  completion (\<open>tick\<close>) finishes one.\<close>

locale working_server = fifo_server step inv jobs posted_in handles_of
  for step :: "'s \<Rightarrow> 'ev \<Rightarrow> 'r list \<Rightarrow> 'r list \<Rightarrow> 's \<Rightarrow> bool" and inv :: "'s \<Rightarrow> bool"
    and jobs :: "'s \<Rightarrow> 'r list" and posted_in :: "'s \<Rightarrow> handle list" and handles_of :: "'r \<Rightarrow> handle list" +
  fixes working :: "'s \<Rightarrow> bool"
    and tick :: "'ev \<Rightarrow> bool"
  assumes tick_finishes: "step s ev a f s' \<Longrightarrow> inv s \<Longrightarrow> working s \<Longrightarrow> tick ev \<Longrightarrow> f \<noteq> []"
    and keeps_working: "step s ev a f s' \<Longrightarrow> inv s \<Longrightarrow> working s \<Longrightarrow> jobs s' \<noteq> [] \<Longrightarrow> working s'"
begin

lemma finishes_enough:
  "served_run step s evs as fs s' \<Longrightarrow> inv s \<Longrightarrow> working s \<Longrightarrow>
    length (jobs s) \<le> length fs \<or> length (filter tick evs) \<le> length fs"
proof (induction rule: served_run.induct)
  case (more s ev a f s1 evs as fs s')
  have order: "length (jobs s) + length a = length f + length (jobs s1)"
    using step_order [OF more.hyps(1) more.prems(1)] by (metis length_append)
  show ?case
  proof (cases "jobs s1 = []")
    case False
    then have "length (jobs s1) \<le> length fs \<or> length (filter tick evs) \<le> length fs"
      using more.IH step_inv [OF more.hyps(1) more.prems(1)] keeps_working [OF more.hyps(1) more.prems] by blast
    moreover have "tick ev \<Longrightarrow> 1 \<le> length f"
      using tick_finishes [OF more.hyps(1) more.prems] by (simp add: Suc_le_eq)
    ultimately show ?thesis using order by auto
  qed (use order in simp)
qed simp

text \<open>The request with \<open>i\<close> others before it is finished by the completion number \<open>i + 1\<close>, whatever
  happens in between, and those before it in their order.\<close>

lemma request_finished:
  assumes "served_run step s evs as fs s'" and "inv s" and "working s"
    and "i < length (jobs s)" and "i < length (filter tick evs)"
  shows "take (Suc i) fs = take (Suc i) (jobs s)"
proof -
  have n: "Suc i \<le> length fs" using finishes_enough [OF assms(1-3)] assms(4,5) by linarith
  have "take (Suc i) (jobs s @ as) = take (Suc i) (fs @ jobs s')" using run_order [OF assms(1,2)] by simp
  with n assms(4) show ?thesis by simp
qed

text \<open>So its coroutine, too, is resumed, after those before it.\<close>

lemma request_resumed:
  assumes "served_run step s evs as fs s'" and "inv s" and "working s"
    and "i < length (jobs s)" and "i < length (filter tick evs)"
  shows "\<exists>ps. posted_in s' = posted_in s @ ps \<and> subseq (concat (map handles_of (take (Suc i) (jobs s)))) ps"
proof -
  obtain ps where ps: "posted_in s' = posted_in s @ ps" "subseq (concat (map handles_of fs)) ps"
    using run_posts [OF assms(1,2)] by blast
  have "fs = take (Suc i) (jobs s) @ drop (Suc i) fs"
    using request_finished [OF assms] append_take_drop_id [of "Suc i" fs] by simp
  then have "subseq (concat (map handles_of (take (Suc i) (jobs s)))) (concat (map handles_of fs))"
    by (metis concat_append list_emb_append2 map_append subseq_append subseq_order.order_refl subseq_rev_drop_many)
  with ps show ?thesis using subseq_order.trans by blast
qed

end

end
