(* ===== verification/Msgbox.thy ===== *)
theory Msgbox
  imports Memory_Map Spsc_Queue Fifo_Server
begin

text \<open>
  \<^verbatim>\<open>hal/include/hal_msgbox.hpp\<close>: the hardware mailbox.  Outgoing doorbells are one register write;
  incoming ones wake the coroutine that has waited longest, through a driver request queue.
  An awaiter lives in the frame of its coroutine: \<open>self\<close> is its address, its word \<^verbatim>\<open>message\<close> is at
  offset 0 and its \<^verbatim>\<open>handle\<close> at offset 4.

  \<open>msgbox_step\<close> is the driver over time: coroutines that begin to wait, mailbox interrupts with and
  without a message, and anything else in between.
\<close>

subsection \<open>Registers\<close>

definition DIRECTION_STRIDE :: u32 where
  [regs]: "DIRECTION_STRIDE = 0x100"

definition RD_IRQ_EN :: u32 where
  [regs]: "RD_IRQ_EN = 0x0020"

definition RD_IRQ_STATUS :: u32 where
  [regs]: "RD_IRQ_STATUS = 0x0024"

definition WR_IRQ_EN :: u32 where
  [regs]: "WR_IRQ_EN = 0x0030"

definition WR_IRQ_STATUS :: u32 where
  [regs]: "WR_IRQ_STATUS = 0x0034"

definition DEBUG_REG :: u32 where
  [regs]: "DEBUG_REG = 0x0040"

definition FIFO_STATUS :: u32 where
  [regs]: "FIFO_STATUS = 0x0050"

definition MSG_STATUS :: u32 where
  [regs]: "MSG_STATUS = 0x0060"

definition MSG_QUEUE :: u32 where
  [regs]: "MSG_QUEUE = 0x0070"

definition WR_THRESHOLD :: u32 where
  [regs]: "WR_THRESHOLD = 0x0080"

definition RX_DIRECTION :: u32 where
  [regs]: "RX_DIRECTION = 2"

definition RX_QUEUE :: u32 where
  [regs]: "RX_QUEUE = 0"

definition msgbox_reg :: "u32 \<Rightarrow> u32 \<Rightarrow> u32 \<Rightarrow> u32 \<Rightarrow> u32" where
  "msgbox_reg base offset direction queue =
     base + offset + (direction * DIRECTION_STRIDE) + (queue * 4)"

subsection \<open>Driver state and operations\<close>

record DoorbellRequest =
  dr_handle :: handle
  dr_message :: u32

definition DoorbellRequest_default :: DoorbellRequest where
  "DoorbellRequest_default = \<lparr>dr_handle = 0, dr_message = 0\<rparr>"

record msgbox =
  pending_doorbell_requests :: "DoorbellRequest queue_spsc_isr"

definition msgbox_static :: msgbox where
  "msgbox_static = \<lparr>pending_doorbell_requests = DriverRequestQueue 8 DoorbellRequest_default\<rparr>"

definition MsgboxDriver_init :: "('h, 'x) platform \<Rightarrow> ('h, 'x) env \<Rightarrow> ('h, 'x) env" where
  "MsgboxDriver_init P e =
     mmio_write P (msgbox_reg RISCV_MSGBOX_BASE RD_IRQ_EN RX_DIRECTION 0)
       (push_bit (unat (RX_QUEUE * 2)) 1) e"

text \<open>The \<^verbatim>\<open>fence\<close> before the store orders memory accesses; accesses of the model are in program
  order already.\<close>

definition ring_doorbell_to_linux ::
    "('h, 'x) platform \<Rightarrow> u32 \<Rightarrow> ('h, 'x) env \<Rightarrow> ('h, 'x) env" where
  "ring_doorbell_to_linux P message e = mmio_write P (msgbox_reg MSGBOX_BASE MSG_QUEUE 0 0) message e"

definition queue_doorbell_request ::
    "('h, 'x) platform \<Rightarrow> handle \<Rightarrow> u32 \<Rightarrow> msgbox \<Rightarrow> ('h, 'x) env \<Rightarrow> bool \<times> msgbox \<times> ('h, 'x) env" where
  "queue_doorbell_request P h message m e =
     (let ((ok, q), e1) = with_ax (push (taccess P) \<lparr>dr_handle = h, dr_message = message\<rparr>
            (pending_doorbell_requests m)) e
      in (ok, m\<lparr>pending_doorbell_requests := q\<rparr>, e1))"

definition pop_doorbell_request ::
    "DoorbellRequest \<Rightarrow> msgbox \<Rightarrow> bool \<times> DoorbellRequest \<times> msgbox" where
  "pop_doorbell_request req m =
     (let (ok, r, q) = pop_from_isr req (pending_doorbell_requests m)
      in (ok, r, m\<lparr>pending_doorbell_requests := q\<rparr>))"

text \<open>\<^verbatim>\<open>wait_for_doorbell()\<close> constructs the awaiter with a zero message and a null handle.\<close>

definition wait_for_doorbell :: "u32 \<Rightarrow> ('h, 'x) env \<Rightarrow> ('h, 'x) env" where
  "wait_for_doorbell self e = store_u32 (self + 4) 0 (store_u32 self 0 e)"

definition AsyncDoorbellAwaiter_await_suspend ::
    "('h, 'x) platform \<Rightarrow> u32 \<Rightarrow> handle \<Rightarrow> msgbox \<Rightarrow> ('h, 'x) env \<Rightarrow> msgbox \<times> ('h, 'x) env" where
  "AsyncDoorbellAwaiter_await_suspend P self h m e =
     (let e1 = store_u32 (self + 4) h e;
          (ok, m1, e2) = queue_doorbell_request P h self m e1
      in (m1, e2))"

definition AsyncDoorbellAwaiter_await_resume :: "u32 \<Rightarrow> ('h, 'x) env \<Rightarrow> u32" where
  "AsyncDoorbellAwaiter_await_resume self e = load_u32 self e"

definition MsgboxDriver_handle_isr ::
    "('h, 'x) platform \<Rightarrow> msgbox \<Rightarrow> ('h, 'x) env \<Rightarrow> msgbox \<times> ('h, 'x) env" where
  "MsgboxDriver_handle_isr P m e =
     (let (status, e1) = mmio_read P (msgbox_reg RISCV_MSGBOX_BASE RD_IRQ_STATUS RX_DIRECTION 0) e
      in if status = 0 then (m, e1)
         else
           (let (msg, e2) =
                  mmio_read P (msgbox_reg RISCV_MSGBOX_BASE MSG_QUEUE RX_DIRECTION RX_QUEUE) e1;
                e3 = mmio_write P (msgbox_reg RISCV_MSGBOX_BASE RD_IRQ_STATUS RX_DIRECTION 0)
                       status e2;
                (ok, req, m1) = pop_doorbell_request DoorbellRequest_default m
            in if \<not> ok then (m1, e3)
               else
                 (let e4 = (if dr_message req \<noteq> 0 then store_u32 (dr_message req) msg e3 else e3)
                  in (m1, post P (dr_handle req) e4))))"

subsection \<open>Invariant\<close>

definition msgbox_inv :: "msgbox \<Rightarrow> bool" where
  "msgbox_inv m \<longleftrightarrow> dq_inv (pending_doorbell_requests m)"

definition waiters :: "msgbox \<Rightarrow> DoorbellRequest list" where
  "waiters m = q_list (pending_doorbell_requests m)"

lemma msgbox_inv_static: "msgbox_inv msgbox_static"
  by (simp add: msgbox_inv_def msgbox_static_def)

lemma waiters_static [simp]: "waiters msgbox_static = []"
  by (simp add: waiters_def msgbox_static_def)

lemma queue_doorbell_request_spec:
  assumes "msgbox_inv m"
  shows "msgbox_inv (fst (snd (queue_doorbell_request P h a m e)))"
    and "fst (queue_doorbell_request P h a m e) \<longleftrightarrow> length (waiters m) < 8"
    and "waiters (fst (snd (queue_doorbell_request P h a m e))) =
      (if length (waiters m) < 8 then waiters m @ [\<lparr>dr_handle = h, dr_message = a\<rparr>] else waiters m)"
    and "hw (snd (snd (queue_doorbell_request P h a m e))) = hw e"
    and "ram (snd (snd (queue_doorbell_request P h a m e))) = ram e"
  using assms
  by (simp_all add: dq_simps queue_doorbell_request_def case_prod_beta Let_def msgbox_inv_def waiters_def)

lemma pop_doorbell_request_spec:
  assumes "msgbox_inv m"
  shows "msgbox_inv (snd (snd (pop_doorbell_request r m)))"
    and "fst (pop_doorbell_request r m) \<longleftrightarrow> waiters m \<noteq> []"
    and "fst (snd (pop_doorbell_request r m)) = (case waiters m of [] \<Rightarrow> r | v # _ \<Rightarrow> v)"
    and "waiters (snd (snd (pop_doorbell_request r m))) = tl (waiters m)"
  using assms
  by (simp_all add: dq_simps pop_doorbell_request_def case_prod_beta Let_def msgbox_inv_def waiters_def)

subsection \<open>The driver over time\<close>

datatype msgbox_event = Waits | Doorbell | No_message | Elsewhere

text \<open>Whether an interrupt taken now finds a message.\<close>

definition message_pending :: "('h, 'x) platform \<Rightarrow> ('h, 'x) env \<Rightarrow> bool" where
  "message_pending P e \<longleftrightarrow>
     fst (mmio_read P (msgbox_reg RISCV_MSGBOX_BASE RD_IRQ_STATUS RX_DIRECTION 0) e) \<noteq> 0"

inductive msgbox_step ::
    "('h, 'x) platform \<Rightarrow> ('x \<Rightarrow> handle list) \<Rightarrow> msgbox \<times> ('h, 'x) env \<Rightarrow> msgbox_event \<Rightarrow>
     DoorbellRequest list \<Rightarrow> DoorbellRequest list \<Rightarrow> msgbox \<times> ('h, 'x) env \<Rightarrow> bool"
  for P :: "('h, 'x) platform" and log :: "'x \<Rightarrow> handle list" where
  wait_begins: "AsyncDoorbellAwaiter_await_suspend P self h m e = (m', e') \<Longrightarrow>
    msgbox_step P log (m, e) Waits
      (if length (waiters m) < 8 then [\<lparr>dr_handle = h, dr_message = self\<rparr>] else []) [] (m', e')"
| message: "message_pending P e \<Longrightarrow> MsgboxDriver_handle_isr P m e = (m', e') \<Longrightarrow>
    msgbox_step P log (m, e) Doorbell [] (take 1 (waiters m)) (m', e')"
| no_message: "\<not> message_pending P e \<Longrightarrow> MsgboxDriver_handle_isr P m e = (m', e') \<Longrightarrow>
    msgbox_step P log (m, e) No_message [] [] (m', e')"
| elsewhere: "log x = log (ax e) @ ps \<Longrightarrow>
    msgbox_step P log (m, e) Elsewhere [] [] (m, \<lparr>hw = h, ax = x, ram = r\<rparr>)"

text \<open>What the handler does to the queue and to the handles posted.\<close>

lemma msgbox_isr_cases:
  assumes "msgbox_inv m" and "MsgboxDriver_handle_isr P m e = (m', e')"
  shows "msgbox_inv m'"
    and "waiters m = (if message_pending P e then take 1 (waiters m) else []) @ waiters m'"
proof -
  note spec = pop_doorbell_request_spec [OF assms(1), of DoorbellRequest_default]
  obtain status e1 where r: "mmio_read P (msgbox_reg RISCV_MSGBOX_BASE RD_IRQ_STATUS RX_DIRECTION 0) e = (status, e1)"
    by fastforce
  have "m' = (if status = 0 then m else snd (snd (pop_doorbell_request DoorbellRequest_default m)))"
    using assms(2) r by (auto simp: MsgboxDriver_handle_isr_def case_prod_beta Let_def split: if_splits)
  then show "msgbox_inv m'" "waiters m = (if message_pending P e then take 1 (waiters m) else []) @ waiters m'"
    using assms(1) spec(1,4) r by (cases "waiters m"; auto simp: message_pending_def)+
qed

context dispatcher
begin

lemma log_await_doorbell:
  "AsyncDoorbellAwaiter_await_suspend P self h m e = (m', e') \<Longrightarrow> log (ax e') = log (ax e)"
  by (auto simp: AsyncDoorbellAwaiter_await_suspend_def queue_doorbell_request_def case_prod_beta Let_def)

lemma log_msgbox_isr:
  assumes "msgbox_inv m" and "MsgboxDriver_handle_isr P m e = (m', e')"
  shows "log (ax e') = log (ax e) @ (if message_pending P e then map dr_handle (take 1 (waiters m)) else [])"
  using assms(2) pop_doorbell_request_spec(2,3) [OF assms(1), of DoorbellRequest_default]
  by (cases "waiters m")
    (auto simp: MsgboxDriver_handle_isr_def message_pending_def mmio_read_def case_prod_beta Let_def split: if_splits)

end

lemma await_doorbell_waiters:
  assumes "msgbox_inv m" and "AsyncDoorbellAwaiter_await_suspend P self h m e = (m', e')"
  shows "msgbox_inv m'"
    and "waiters m' = waiters m @ (if length (waiters m) < 8 then [\<lparr>dr_handle = h, dr_message = self\<rparr>] else [])"
proof -
  have "m' = fst (snd (queue_doorbell_request P h self m (store_u32 (self + 4) h e)))"
    using assms(2) by (simp add: AsyncDoorbellAwaiter_await_suspend_def case_prod_beta Let_def)
  then show "msgbox_inv m'"
    "waiters m' = waiters m @ (if length (waiters m) < 8 then [\<lparr>dr_handle = h, dr_message = self\<rparr>] else [])"
    using queue_doorbell_request_spec(1,3) [OF assms(1), of P h self] by simp_all
qed

text \<open>The mailbox is a server that is always at work: every message finishes a wait.\<close>

sublocale dispatcher \<subseteq> mailbox_server: working_server "msgbox_step P log" "msgbox_inv \<circ> fst" "waiters \<circ> fst"
  "\<lambda>s. log (ax (snd s))" "\<lambda>r. [dr_handle r]" "\<lambda>s. waiters (fst s) \<noteq> []" "\<lambda>ev. ev = Doorbell"
proof
  fix s s' :: "msgbox \<times> ('h, 'x) env" and ev a f
  assume step: "msgbox_step P log s ev a f s'" and inv: "(msgbox_inv \<circ> fst) s"
  show "(msgbox_inv \<circ> fst) s'"
    using step inv by cases (auto intro: await_doorbell_waiters(1) msgbox_isr_cases(1))
  show "(waiters \<circ> fst) s @ a = f @ (waiters \<circ> fst) s'"
    using step
  proof cases
    case (wait_begins self h m e m' e')
    then show ?thesis using await_doorbell_waiters(2) [of m P self h e m' e'] inv by simp
  next
    case (message e m m' e')
    then show ?thesis using msgbox_isr_cases(2) [of m P e m' e'] inv by simp
  next
    case (no_message e m m' e')
    then show ?thesis using msgbox_isr_cases(2) [of m P e m' e'] inv by simp
  qed simp
  show "\<exists>ps. log (ax (snd s')) = log (ax (snd s)) @ ps \<and> subseq (concat (map (\<lambda>r. [dr_handle r]) f)) ps"
    using step inv by cases (auto simp: log_await_doorbell log_msgbox_isr)
  show "f \<noteq> []" if "waiters (fst s) \<noteq> []" "ev = Doorbell"
    using step that by cases auto
  show "waiters (fst s') \<noteq> []" if "(waiters \<circ> fst) s' \<noteq> []" using that by simp
qed

context dispatcher
begin

lemma doorbell_run:
  assumes "served_run (msgbox_step P log) (msgbox_static, e0) evs acc fin (m, e)"
    and "served_run (msgbox_step P log) (m, e) evs' acc' fin' (m', e')"
    and "i < length (waiters m)" and "i < length (filter (\<lambda>ev. ev = Doorbell) evs')"
  shows "acc = fin @ waiters m" and "take (Suc i) fin' = take (Suc i) (waiters m)"
    and "\<exists>ps. log (ax e') = log (ax e) @ ps \<and> subseq (map dr_handle (take (Suc i) (waiters m))) ps"
proof -
  have inv: "(msgbox_inv \<circ> fst) (msgbox_static, e0)" by (simp add: msgbox_inv_static)
  have w: "waiters (fst (m, e)) \<noteq> []" and i: "i < length ((waiters \<circ> fst) (m, e))" using assms(3) by auto
  note later = mailbox_server.run_inv [OF assms(1) inv]
  show "acc = fin @ waiters m" using mailbox_server.run_order [OF assms(1) inv] by simp
  show "take (Suc i) fin' = take (Suc i) (waiters m)"
    using mailbox_server.request_finished [OF assms(2) later w i assms(4)] by simp
  show "\<exists>ps. log (ax e') = log (ax e) @ ps \<and> subseq (map dr_handle (take (Suc i) (waiters m))) ps"
    using mailbox_server.request_resumed [OF assms(2) later w i assms(4)]
    by (simp add: concat_map_singleton)
qed

end

subsection \<open>Properties\<close>

text \<open>C21. A doorbell interrupt serves the longest waiting coroutine: with a pending status the handler
  reads the message, acknowledges exactly the status it read, removes the first waiter, stores the
  message in that waiter's frame and posts its handle once; with no waiter the message is consumed
  and acknowledged, and nothing is stored or posted; with no pending status nothing happens beyond
  the status read.\<close>

theorem msgbox_isr_serves_first_waiter:
  assumes "msgbox_inv m"
    and "bus_rd P (msgbox_reg RISCV_MSGBOX_BASE RD_IRQ_STATUS RX_DIRECTION 0) (hw e) = (status, h1)"
    and "bus_rd P (msgbox_reg RISCV_MSGBOX_BASE MSG_QUEUE RX_DIRECTION RX_QUEUE) h1 = (msg, h2)"
    and "h3 = bus_wr P (msgbox_reg RISCV_MSGBOX_BASE RD_IRQ_STATUS RX_DIRECTION 0) status h2"
    and "MsgboxDriver_handle_isr P m e = (m', e')"
  shows "msgbox_inv m' \<and>
    (if status = 0 then m' = m \<and> e' = e\<lparr>hw := h1\<rparr>
     else case waiters m of
       [] \<Rightarrow> waiters m' = [] \<and> e' = e\<lparr>hw := h3\<rparr>
     | w # ws \<Rightarrow> waiters m' = ws \<and> hw e' = h3 \<and> ax e' = isr_post P (dr_handle w) (ax e) \<and>
         ram e' = (if dr_message w \<noteq> 0
                   then store_bytes (dr_message w) (bytes_of_u32 msg) (ram e) else ram e))"
proof (cases "status = 0")
  case True
  with assms show ?thesis by (auto simp: MsgboxDriver_handle_isr_def env_defs)
next
  case False
  note spec = pop_doorbell_request_spec [OF assms(1), of DoorbellRequest_default]
  obtain ok r m1 where p: "pop_doorbell_request DoorbellRequest_default m = (ok, r, m1)"
    by (metis prod.exhaust)
  show ?thesis
  proof (cases "waiters m")
    case Nil
    with assms False p spec show ?thesis
      by (auto simp: MsgboxDriver_handle_isr_def env_defs)
  next
    case (Cons w ws)
    with assms False p spec show ?thesis
      by (auto simp: MsgboxDriver_handle_isr_def env_defs)
  qed
qed

definition doorbell_env :: "(sim_hw, sim_ax) env" where
  "doorbell_env = sim_env\<lparr>hw := (hw sim_env)\<lparr>words :=
     (\<lambda>_. 0)(0x07136224 := 1, 0x07136270 := 0xCAFE)\<rparr>\<rparr>"

theorem msgbox_isr_serves_first_waiter_witness:
  "let (m1, e1) = AsyncDoorbellAwaiter_await_suspend sim_platform 0x80100 0x80200 msgbox_static
         (wait_for_doorbell 0x80100 doorbell_env);
       (m2, e2) = MsgboxDriver_handle_isr sim_platform m1 e1
   in waiters m2 = [] \<and> posted (ax e2) = [0x80200] \<and>
      AsyncDoorbellAwaiter_await_resume 0x80100 e2 = 0xCAFE"
proof -
  let ?s = "AsyncDoorbellAwaiter_await_suspend sim_platform 0x80100 0x80200 msgbox_static
     (wait_for_doorbell 0x80100 doorbell_env)"
  let ?r = "MsgboxDriver_handle_isr sim_platform (fst ?s) (snd ?s)"
  have inv: "msgbox_inv (fst ?s)"
    and w: "waiters (fst ?s) = [\<lparr>dr_handle = 0x80200, dr_message = 0x80100\<rparr>]"
    and h: "hw (snd ?s) = hw doorbell_env"
    by (simp_all add: AsyncDoorbellAwaiter_await_suspend_def Let_def case_prod_beta
        wait_for_doorbell_def store_u32_def queue_doorbell_request_spec [OF msgbox_inv_static])
  have x: "posted (ax (snd ?s)) = []"
    by (simp add: AsyncDoorbellAwaiter_await_suspend_def queue_doorbell_request_def with_ax_def
        push_def Let_def case_prod_beta doorbell_env_def sim_env_def wait_for_doorbell_def
        store_u32_def)
  have addr: "msgbox_reg RISCV_MSGBOX_BASE RD_IRQ_STATUS RX_DIRECTION 0 = 0x07136224"
    "msgbox_reg RISCV_MSGBOX_BASE MSG_QUEUE RX_DIRECTION RX_QUEUE = 0x07136270"
    by (simp_all add: msgbox_reg_def regs memory_map)
  have "waiters (fst ?r) = [] \<and> posted (ax (snd ?r)) = [0x80200] \<and>
      ram (snd ?r) = store_bytes 0x80100 (bytes_of_u32 0xCAFE) (ram (snd ?s))"
    using msgbox_isr_serves_first_waiter [OF inv, where P = sim_platform and e = "snd ?s"
        and status = 1 and msg = "0xCAFE" and ?h1.0 = "hw doorbell_env" and ?h2.0 = "hw doorbell_env"
        and m' = "fst ?r" and e' = "snd ?r", OF _ _ refl]
    by (simp add: h w addr x) (simp add: doorbell_env_def)
  then show ?thesis
    by (simp add: Let_def case_prod_beta AsyncDoorbellAwaiter_await_resume_def load_u32_def
        bytes_of_u32_def u32_of_bytes_def)
qed

text \<open>C22. Every wait for a doorbell ends: over any run of the driver from its static state, the waits
  that were accepted are those that have ended followed by those still queued, in order, and a coroutine with \<open>i\<close>
  others before it is resumed by the message number \<open>i + 1\<close> from then on, after those before it, whatever
  waits, spurious interrupts and other activity come in between.\<close>

theorem doorbell_waiters_resumed:
  assumes "dispatcher P log"
    and "served_run (msgbox_step P log) (msgbox_static, e0) evs acc fin (m, e)"
    and "served_run (msgbox_step P log) (m, e) evs' acc' fin' (m', e')"
    and "i < length (waiters m)" and "i < length (filter (\<lambda>ev. ev = Doorbell) evs')"
  shows "acc = fin @ waiters m \<and> take (Suc i) fin' = take (Suc i) (waiters m) \<and>
    (\<exists>ps. log (ax e') = log (ax e) @ ps \<and> subseq (map dr_handle (take (Suc i) (waiters m))) ps)"
  using dispatcher.doorbell_run [OF assms] by blast

theorem doorbell_waiters_resumed_witness:
  "\<exists>m' e' ps. served_run (msgbox_step sim_platform posted) (msgbox_static, sim_env) [Waits, Elsewhere, Doorbell]
      [\<lparr>dr_handle = 0x80200, dr_message = 0x80100\<rparr>] [\<lparr>dr_handle = 0x80200, dr_message = 0x80100\<rparr>] (m', e') \<and>
    posted (ax e') = posted (ax sim_env) @ ps \<and> subseq [0x80200] ps"
proof -
  let ?step = "msgbox_step sim_platform posted" and ?r = "\<lparr>dr_handle = 0x80200, dr_message = 0x80100\<rparr>"
  obtain m e where s: "AsyncDoorbellAwaiter_await_suspend sim_platform 0x80100 0x80200 msgbox_static sim_env = (m, e)"
    by fastforce
  note w = await_doorbell_waiters [OF msgbox_inv_static s]
  then have one: "served_run ?step (msgbox_static, sim_env) [Waits] [?r] [] (m, e)"
    using served_one [of ?step, OF msgbox_step.wait_begins [OF s]] by simp
  let ?e1 = "\<lparr>hw = hw doorbell_env, ax = ax e, ram = ram e\<rparr>"
  obtain m' e' where t: "MsgboxDriver_handle_isr sim_platform m ?e1 = (m', e')" by fastforce
  have "message_pending sim_platform ?e1"
    by (simp add: message_pending_def mmio_read_def doorbell_env_def msgbox_reg_def regs memory_map)
  from msgbox_step.message [OF this t] w(2)
  have "served_run ?step (m, ?e1) [Doorbell] [] [?r] (m', e')"
    using served_one [of ?step] by simp
  moreover have "?step (m, e) Elsewhere [] [] (m, ?e1)" by (rule msgbox_step.elsewhere [of _ _ _ "[]"]) simp
  ultimately have two: "served_run ?step (m, e) [Elsewhere, Doorbell] [] [?r] (m', e')"
    using served_run.more [of ?step "(m, e)" Elsewhere "[]" "[]"] by fastforce
  have log_e: "posted (ax e) = posted (ax sim_env)" using sim_log.log_await_doorbell [OF s] .
  have "\<exists>ps. posted (ax e') = posted (ax e) @ ps \<and> subseq (map dr_handle (take (Suc 0) (waiters m))) ps"
    using doorbell_waiters_resumed [OF sim_log.dispatcher_axioms one two, of 0] w(2) by simp
  moreover have "served_run ?step (msgbox_static, sim_env) [Waits, Elsewhere, Doorbell] [?r] [?r] (m', e')"
    using served_append [OF one two] by simp
  ultimately show ?thesis using w(2) log_e by auto
qed

text \<open>The mailbox registers the driver writes as its receive side, in the address space of the
  coprocessor, are words of the trace buffer that the resource table exports: initialising the
  mailbox and acknowledging a doorbell overwrite trace text.\<close>

theorem msgbox_registers_inside_trace_buffer:
  "region_within (msgbox_reg RISCV_MSGBOX_BASE RD_IRQ_EN RX_DIRECTION 0, 4)
     (IPC_TRACE_BUFFER_ADDR, IPC_TRACE_BUFFER_SIZE) \<and>
   region_within (msgbox_reg RISCV_MSGBOX_BASE RD_IRQ_STATUS RX_DIRECTION 0, 4)
     (IPC_TRACE_BUFFER_ADDR, IPC_TRACE_BUFFER_SIZE)"
  by (simp add: msgbox_reg_def regs memory_map region_within_def region_end_def)

end
