(* ===== verification/Hal_Boot.thy ===== *)
theory Hal_Boot
  imports Boot_Status Clock_Config Hw_Timer Msgbox
begin

text \<open>
  \<^verbatim>\<open>hal/include/hal_boot.hpp\<close>: the boot handshake.  The firmware reads the clock configuration of
  Linux, starts the timer if it can, publishes a boot status and rings one doorbell.
\<close>

subsection \<open>Operations\<close>

definition make_status :: "State \<Rightarrow> FailureReason \<Rightarrow> u32 \<Rightarrow> u32 \<Rightarrow> u32 \<Rightarrow> Status" where
  "make_status state failure_reason generation clock_configuration_generation riscv_core_hz =
     \<lparr>st_magic = kBootStatusMagic, st_abi_version = kBootStatusAbiVersion,
      st_size_bytes = sizeof_Status, st_generation = generation, st_state = State_code state,
      st_failure_reason = FailureReason_code failure_reason,
      st_clock_configuration_generation = clock_configuration_generation,
      st_riscv_core_hz = riscv_core_hz, st_mcause = 0, st_mepc = 0, st_mtval = 0,
      st_reserved = replicate 5 0\<rparr>"

definition initialize_from_linux_clock_configuration ::
    "('h, 'x) platform \<Rightarrow> u32 \<Rightarrow> HardwareTimer \<Rightarrow> ('h, 'x) env \<Rightarrow>
     (bool \<times> HardwareTimer \<times> ('h, 'x) env) option" where
  "initialize_from_linux_clock_configuration P timer_tick_hz t e =
     (let (configuration, e1) = read_shared_configuration P e;
          status_generation =
            (if cc_generation configuration = 0 then 1 else cc_generation configuration)
      in if \<not> ClockConfiguration_is_valid configuration then
           (let e2 = publish P (make_status InitFailed ClockConfigurationInvalid
                       status_generation 0 0) e1
            in Some (False, t, ring_doorbell_to_linux P kFirmwareInitFailedDoorbell e2))
         else if timer_tick_hz = 0 \<or> cc_timer_counter_hz configuration < timer_tick_hz then
           (let e2 = publish P (make_status InitFailed TimerConfigurationInvalid status_generation
                       (cc_generation configuration) (cc_riscv_core_hz configuration)) e1
            in Some (False, t, ring_doorbell_to_linux P kFirmwareInitFailedDoorbell e2))
         else do {
           (t1, e2) \<leftarrow> HardwareTimer_init P timer_tick_hz (cc_riscv_core_hz configuration)
                          (cc_timer_counter_hz configuration) t e1;
           let e3 = publish P (make_status Ready NoFailure status_generation
                      (cc_generation configuration) (cc_riscv_core_hz configuration)) e2;
           Some (True, t1, ring_doorbell_to_linux P kFirmwareReadyDoorbell e3)
         })"

subsection \<open>What the handshake promises\<close>

text \<open>The failure the configuration and the requested tick rate call for.\<close>

definition boot_verdict :: "ClockConfiguration \<Rightarrow> u32 \<Rightarrow> FailureReason" where
  "boot_verdict c tick =
     (if \<not> ClockConfiguration_is_valid c then ClockConfigurationInvalid
      else if tick = 0 \<or> cc_timer_counter_hz c < tick then TimerConfigurationInvalid
      else NoFailure)"

definition boot_report :: "ClockConfiguration \<Rightarrow> u32 \<Rightarrow> Status" where
  "boot_report c tick =
     make_status (if boot_verdict c tick = NoFailure then Ready else InitFailed)
       (boot_verdict c tick)
       (if cc_generation c = 0 then 1 else cc_generation c)
       (if ClockConfiguration_is_valid c then cc_generation c else 0)
       (if ClockConfiguration_is_valid c then cc_riscv_core_hz c else 0)"

definition boot_doorbell :: "FailureReason \<Rightarrow> u32" where
  "boot_doorbell r = (if r = NoFailure then kFirmwareReadyDoorbell else kFirmwareInitFailedDoorbell)"

subsection \<open>Lemmas\<close>

lemma make_status_valid: "g \<noteq> 0 \<Longrightarrow> Status_is_valid (make_status s r g c f)"
  by (cases s) (simp_all add: Status_is_valid_def make_status_def)

lemma make_status_reserved [simp]: "length (st_reserved (make_status s r g c f)) = 5"
  by (simp add: make_status_def)

lemma boot_report_valid: "Status_is_valid (boot_report c tick)"
  by (simp add: boot_report_def make_status_valid)

lemma boot_report_reserved [simp]: "length (st_reserved (boot_report c tick)) = 5"
  by (simp add: boot_report_def)

lemma ax_publish [simp]: "ax (publish P s e) = ax e"
proof -
  have "ax (do_writes P ws e) = ax e" for ws
    by (induction ws arbitrary: e) (auto simp: do_writes_def mmio_write_def)
  then show ?thesis by (simp add: publish_eq_writes)
qed

lemma hw_ring_doorbell:
  "hw (ring_doorbell_to_linux P v e) = bus_wr P (msgbox_reg MSGBOX_BASE MSG_QUEUE 0 0) v (hw e)"
  by (simp add: ring_doorbell_to_linux_def mmio_write_def)

lemma ax_ring_doorbell [simp]: "ax (ring_doorbell_to_linux P v e) = ax e"
  by (simp add: ring_doorbell_to_linux_def mmio_write_def)

lemma boot_refused:
  assumes "read_shared_configuration P e = (c, e0)" and "boot_verdict c tick \<noteq> NoFailure"
  shows "initialize_from_linux_clock_configuration P tick t e =
    Some (False, t, ring_doorbell_to_linux P (boot_doorbell (boot_verdict c tick))
      (publish P (boot_report c tick) e0))"
  using assms
  by (auto simp: initialize_from_linux_clock_configuration_def boot_verdict_def boot_report_def
      boot_doorbell_def Let_def split: if_splits)

lemma boot_accepted:
  assumes "read_shared_configuration P e = (c, e0)" and "boot_verdict c tick = NoFailure"
    and "HardwareTimer_init P tick (cc_riscv_core_hz c) (cc_timer_counter_hz c) t e0 = Some (t1, e1)"
  shows "initialize_from_linux_clock_configuration P tick t e =
    Some (True, t1, ring_doorbell_to_linux P (boot_doorbell (boot_verdict c tick))
      (publish P (boot_report c tick) e1))"
  using assms
  by (auto simp: initialize_from_linux_clock_configuration_def boot_verdict_def boot_report_def
      boot_doorbell_def Let_def split: if_splits)

lemma div_pos_word: "0 < b \<Longrightarrow> b \<le> (a :: u32) \<Longrightarrow> 0 < a div b"
  by (simp add: word_less_nat_alt word_le_nat_alt unat_div_distrib div_greater_zero_iff)

lemma boot_timer_started:
  assumes "mtime_counter P time" and "boot_verdict c tick = NoFailure"
  shows "\<exists>t1 e1. HardwareTimer_init P tick (cc_riscv_core_hz c) (cc_timer_counter_hz c) t e =
      Some (t1, e1) \<and> timer_inv t1 \<and> 0 < period_cycles t1 \<and>
      period_cycles t1 = cc_timer_counter_hz c div tick"
proof -
  have c: "0 < tick" "tick \<le> cc_timer_counter_hz c" "cc_riscv_core_hz c \<noteq> 0" "cc_timer_counter_hz c \<noteq> 0"
    using assms(2)
    by (auto simp: boot_verdict_def ClockConfiguration_is_valid_def word_gt_0 split: if_splits)
  obtain now e1 where
    "read_mtime P (e\<lparr>ax := timer_service_init P (ax e)\<rparr>) = Some (now, e1)"
    using mtime_counter.read_mtime_returns [OF assms(1), of "e\<lparr>ax := timer_service_init P (ax e)\<rparr>"]
    by auto
  then show ?thesis
    using c div_pos_word [OF c(1,2)]
    by (auto simp: HardwareTimer_init_def set_timer_period_def Let_def timer_inv_def)
qed

subsection \<open>Properties\<close>

text \<open>C4. The boot handshake always ends, with exactly the verdict the configuration calls for: it
  returns true iff the configuration is valid and the tick rate is between 1 and the counter rate.
  When the doorbell is rung, ready (\<open>0xA1\<close>) or failed (\<open>0xA2\<close>), a reader already sees the complete
  and valid report.  A refused boot leaves the timer and the coroutine runtime untouched; an
  accepted one leaves a timer with a positive period.\<close>

theorem boot_handshake_outcome:
  assumes "word_memory P peek A" and "status_words \<subseteq> A" and "mtime_counter P time"
    and "read_shared_configuration P e = (c, e0)"
  shows "\<exists>ok t' e' h.
    initialize_from_linux_clock_configuration P tick t e = Some (ok, t', e') \<and>
    (ok \<longleftrightarrow> boot_verdict c tick = NoFailure) \<and>
    hw e' = bus_wr P (msgbox_reg MSGBOX_BASE MSG_QUEUE 0 0) (boot_doorbell (boot_verdict c tick)) h \<and>
    observe_status peek h = boot_report c tick \<and> Status_is_valid (boot_report c tick) \<and>
    (if ok then timer_inv t' \<and> 0 < period_cycles t' \<and> period_cycles t' = cc_timer_counter_hz c div tick
     else t' = t \<and> ax e' = ax e0)"
proof (cases "boot_verdict c tick = NoFailure")
  case True
  then obtain t1 e1 where t1: "timer_inv t1" "0 < period_cycles t1"
      "period_cycles t1 = cc_timer_counter_hz c div tick"
    and "HardwareTimer_init P tick (cc_riscv_core_hz c) (cc_timer_counter_hz c) t e0 = Some (t1, e1)"
    using boot_timer_started [OF assms(3) True] by blast
  from boot_accepted [OF assms(4) True this(4)] t1 True show ?thesis
    using word_memory.observe_publish [OF assms(1,2), of "boot_report c tick" e1]
    by (auto simp: hw_ring_doorbell boot_report_valid)
next
  case False
  from boot_refused [OF assms(4) this, of t] False show ?thesis
    using word_memory.observe_publish [OF assms(1,2), of "boot_report c tick" e0]
    by (auto simp: hw_ring_doorbell boot_report_valid)
qed

theorem boot_handshake_outcome_witness:
  "\<exists>t' e'. initialize_from_linux_clock_configuration sim_platform 1000 HardwareTimer_static
      (clock_env example_clock) = Some (True, t', e') \<and> period_cycles t' = 24000"
proof -
  have v: "boot_verdict example_clock 1000 = NoFailure"
    by (simp add: boot_verdict_def ClockConfiguration_is_valid_def example_clock_def
        kClockConfigMagic_def kClockConfigAbiVersion_def sizeof_ClockConfiguration_def)
  show ?thesis
    using boot_handshake_outcome [OF sim.word_memory_axioms subset_UNIV
        sim_clock.mtime_counter_axioms sim_read_example_clock, of 1000 HardwareTimer_static]
    by (auto simp: v) (simp add: example_clock_def)
qed

end
