(* ===== verification/Clic.thy ===== *)
theory Clic
  imports Memory_Map
begin

text \<open>
  \<^verbatim>\<open>hal/include/hal_clic.hpp\<close>: the core-local interrupt controller, one register per interrupt line, and
  the forwarding of groups of GIC interrupts to it.  Every read-modify-write runs with interrupts
  masked.
\<close>

subsection \<open>Interrupt numbers and register fields\<close>

datatype ClicIrq =
    RiscvWdt | RiscvMsgbox | McuTimer0 | McuDmacNs | GpioL_S | GpioL_NS | GpioM_S | GpioM_NS
  | SUart0 | SUart1 | STwi0 | STwi1 | STwi2 | SSpi | CpusMsgboxRiscv
  | GicGroup32_39 | GicGroup40_47 | GicGroup48_55 | GicGroup56_63

fun ClicIrq_code :: "ClicIrq \<Rightarrow> u32" where
  "ClicIrq_code RiscvWdt = 16"
| "ClicIrq_code RiscvMsgbox = 17"
| "ClicIrq_code McuTimer0 = 25"
| "ClicIrq_code McuDmacNs = 37"
| "ClicIrq_code GpioL_S = 62"
| "ClicIrq_code GpioL_NS = 63"
| "ClicIrq_code GpioM_S = 64"
| "ClicIrq_code GpioM_NS = 65"
| "ClicIrq_code SUart0 = 66"
| "ClicIrq_code SUart1 = 67"
| "ClicIrq_code STwi0 = 68"
| "ClicIrq_code STwi1 = 69"
| "ClicIrq_code STwi2 = 60"
| "ClicIrq_code SSpi = 76"
| "ClicIrq_code CpusMsgboxRiscv = 81"
| "ClicIrq_code GicGroup32_39 = 90"
| "ClicIrq_code GicGroup40_47 = 91"
| "ClicIrq_code GicGroup48_55 = 92"
| "ClicIrq_code GicGroup56_63 = 93"

datatype ClicTrigger = Level | PosEdge | NegEdge

fun ClicTrigger_code :: "ClicTrigger \<Rightarrow> u32" where
  "ClicTrigger_code Level = 0"
| "ClicTrigger_code PosEdge = 1"
| "ClicTrigger_code NegEdge = 3"

definition MAX_INTERRUPTS :: u32 where
  "MAX_INTERRUPTS = 144"

definition INT_IP_SHIFT :: nat where
  [regs]: "INT_IP_SHIFT = 0"

definition INT_IE_SHIFT :: nat where
  [regs]: "INT_IE_SHIFT = 8"

definition INT_VECTOR_BIT :: u32 where
  [regs]: "INT_VECTOR_BIT = push_bit 16 1"

definition INT_TRIG_SHIFT :: nat where
  [regs]: "INT_TRIG_SHIFT = 17"

definition INT_TRIG_MASK :: u32 where
  [regs]: "INT_TRIG_MASK = push_bit INT_TRIG_SHIFT 0x3"

definition INT_MODE_MASK :: u32 where
  [regs]: "INT_MODE_MASK = push_bit 22 0x3"

definition INT_MODE_MACHINE :: u32 where
  [regs]: "INT_MODE_MACHINE = push_bit 22 0x3"

definition INT_PRIO_SHIFT :: nat where
  [regs]: "INT_PRIO_SHIFT = 27"

definition INT_PRIO_MASK :: u32 where
  [regs]: "INT_PRIO_MASK = push_bit INT_PRIO_SHIFT 0x1F"

definition CFG_OFFSET :: u32 where
  [regs]: "CFG_OFFSET = 0x0000"

definition MINTTHRESH_OFFSET :: u32 where
  [regs]: "MINTTHRESH_OFFSET = 0x0008"

definition INT_BASE_OFFSET :: u32 where
  [regs]: "INT_BASE_OFFSET = 0x1000"

definition int_offset :: "u32 \<Rightarrow> u32" where
  "int_offset irq = INT_BASE_OFFSET + irq * 4"

definition clic_reg :: "u32 \<Rightarrow> u32" where
  "clic_reg offset = CLIC_BASE + offset"

subsection \<open>Operations\<close>

text \<open>The value \<^verbatim>\<open>enable\<close> computes from the current register value.\<close>

definition enable_value :: "u32 \<Rightarrow> ClicTrigger \<Rightarrow> bool \<Rightarrow> u32 \<Rightarrow> u32" where
  "enable_value priority trigger hardware_vectored value =
     (let value = value AND NOT (INT_PRIO_MASK OR INT_TRIG_MASK OR INT_VECTOR_BIT);
          value = value OR INT_MODE_MACHINE;
          value = value OR (push_bit INT_PRIO_SHIFT priority AND INT_PRIO_MASK);
          value = value OR (push_bit INT_TRIG_SHIFT (ClicTrigger_code trigger) AND INT_TRIG_MASK);
          value = (if hardware_vectored then value OR INT_VECTOR_BIT else value)
      in value OR push_bit INT_IE_SHIFT 1)"

definition Clic_enable ::
    "('h, 'x) platform \<Rightarrow> u32 \<Rightarrow> u32 \<Rightarrow> ClicTrigger \<Rightarrow> bool \<Rightarrow> ('h, 'x) env \<Rightarrow> ('h, 'x) env" where
  "Clic_enable P irq priority trigger hardware_vectored e =
     (if irq \<ge> MAX_INTERRUPTS then e
      else masked P (mmio_modify P (clic_reg (int_offset irq))
             (enable_value priority trigger hardware_vectored)) e)"

definition Clic_enable_irq ::
    "('h, 'x) platform \<Rightarrow> ClicIrq \<Rightarrow> u32 \<Rightarrow> ClicTrigger \<Rightarrow> bool \<Rightarrow> ('h, 'x) env \<Rightarrow> ('h, 'x) env" where
  "Clic_enable_irq P irq priority trigger hardware_vectored e =
     Clic_enable P (ClicIrq_code irq) priority trigger hardware_vectored e"

definition Clic_disable :: "('h, 'x) platform \<Rightarrow> u32 \<Rightarrow> ('h, 'x) env \<Rightarrow> ('h, 'x) env" where
  "Clic_disable P irq e =
     (if irq \<ge> MAX_INTERRUPTS then e
      else masked P (mmio_modify P (clic_reg (int_offset irq))
             (\<lambda>v. v AND NOT (push_bit INT_IE_SHIFT 1))) e)"

definition Clic_disable_irq :: "('h, 'x) platform \<Rightarrow> ClicIrq \<Rightarrow> ('h, 'x) env \<Rightarrow> ('h, 'x) env" where
  "Clic_disable_irq P irq e = Clic_disable P (ClicIrq_code irq) e"

definition Clic_init :: "('h, 'x) platform \<Rightarrow> ('h, 'x) env \<Rightarrow> ('h, 'x) env" where
  "Clic_init P e =
     (let e1 = mmio_write P (clic_reg CFG_OFFSET) 0 e;
          e2 = mmio_write P (clic_reg MINTTHRESH_OFFSET) 0 e1
      in fold (\<lambda>i. Clic_disable P (of_nat i)) [0 ..< unat MAX_INTERRUPTS] e2)"

definition is_pending :: "('h, 'x) platform \<Rightarrow> u32 \<Rightarrow> ('h, 'x) env \<Rightarrow> bool \<times> ('h, 'x) env" where
  "is_pending P irq e =
     (if irq < MAX_INTERRUPTS
      then (let (v, e1) = mmio_read P (clic_reg (int_offset irq)) e
            in (v AND push_bit INT_IP_SHIFT 1 \<noteq> 0, e1))
      else (False, e))"

definition clear_pending :: "('h, 'x) platform \<Rightarrow> u32 \<Rightarrow> ('h, 'x) env \<Rightarrow> ('h, 'x) env" where
  "clear_pending P irq e =
     (if irq \<ge> MAX_INTERRUPTS then e
      else masked P (mmio_modify P (clic_reg (int_offset irq))
             (\<lambda>v. v AND NOT (push_bit INT_IP_SHIFT 1))) e)"

definition clear_pending_irq :: "('h, 'x) platform \<Rightarrow> ClicIrq \<Rightarrow> ('h, 'x) env \<Rightarrow> ('h, 'x) env" where
  "clear_pending_irq P irq e = clear_pending P (ClicIrq_code irq) e"

subsection \<open>Forwarding of GIC groups\<close>

definition GINTC_CONFIG_REG0 :: u32 where
  [regs]: "GINTC_CONFIG_REG0 = 0x00C0"

definition gintc_reg :: "u32 \<Rightarrow> u32" where
  "gintc_reg offset = S_INTC_BASE + offset"

definition enable_for_gic_irq :: "('h, 'x) platform \<Rightarrow> u32 \<Rightarrow> ('h, 'x) env \<Rightarrow> ('h, 'x) env" where
  "enable_for_gic_irq P gic_irq e =
     (if gic_irq < 32 then e
      else
        (let bitn = gic_irq - 32; reg_index = bitn div 32
         in masked P (mmio_modify P (gintc_reg (GINTC_CONFIG_REG0 + reg_index * 4))
              (\<lambda>r. r OR push_bit (unat (bitn mod 32)) 1)) e))"

definition disable_for_gic_irq :: "('h, 'x) platform \<Rightarrow> u32 \<Rightarrow> ('h, 'x) env \<Rightarrow> ('h, 'x) env" where
  "disable_for_gic_irq P gic_irq e =
     (if gic_irq < 32 then e
      else
        (let bitn = gic_irq - 32; reg_index = bitn div 32
         in masked P (mmio_modify P (gintc_reg (GINTC_CONFIG_REG0 + reg_index * 4))
              (\<lambda>r. r AND NOT (push_bit (unat (bitn mod 32)) 1))) e))"

definition clic_irq_for_gic_irq :: "u32 \<Rightarrow> u32" where
  "clic_irq_for_gic_irq gic_irq = 90 + (gic_irq - 32) div 8"

text \<open>The interrupt register of a line, and the set of the 144 registers.\<close>

definition int_reg :: "u32 \<Rightarrow> u32" where
  "int_reg irq = clic_reg (int_offset irq)"

definition int_regs :: "u32 set" where
  "int_regs = int_reg ` {irq. irq < MAX_INTERRUPTS}"

subsection \<open>Lemmas\<close>

lemma int_reg_inject:
  assumes "i < MAX_INTERRUPTS" and "j < MAX_INTERRUPTS"
  shows "int_reg i = int_reg j \<longleftrightarrow> i = j"
proof -
  have u: "unat (k * 4) = unat k * 4" if "k < MAX_INTERRUPTS" for k :: u32
    using that by (simp add: MAX_INTERRUPTS_def word_less_nat_alt unat_word_ariths)
  have "int_reg i = int_reg j \<longleftrightarrow> i * 4 = j * 4"
    by (simp add: int_reg_def clic_reg_def int_offset_def)
  then show ?thesis using u [OF assms(1)] u [OF assms(2)] by (auto simp: word_unat_eq_iff)
qed

lemma int_reg_in [simp]: "irq < MAX_INTERRUPTS \<Longrightarrow> int_reg irq \<in> int_regs"
  by (simp add: int_regs_def)

text \<open>The register after \<^verbatim>\<open>enable\<close>, bit by bit.\<close>

lemma bit_trigger_code: "bit (ClicTrigger_code trigger) n \<longleftrightarrow>
    n = 0 \<and> trigger \<noteq> Level \<or> n = 1 \<and> trigger = NegEdge"
  by (cases trigger) (auto simp: bit_simps bit_numeral_rec split: nat.splits)

lemma bit_fields:
  "bit INT_PRIO_MASK n \<longleftrightarrow> 27 \<le> n \<and> n < 32"
  "bit INT_TRIG_MASK n \<longleftrightarrow> n = 17 \<or> n = 18"
  "bit INT_VECTOR_BIT n \<longleftrightarrow> n = 16"
  "bit INT_MODE_MACHINE n \<longleftrightarrow> n = 22 \<or> n = 23"
proof -
  have m: "(0x3 :: u32) = mask 2" "(0x1F :: u32) = mask 5" by (simp_all add: mask_eq_exp_minus_1)
  show "bit INT_PRIO_MASK n \<longleftrightarrow> 27 \<le> n \<and> n < 32"
    unfolding INT_PRIO_MASK_def INT_PRIO_SHIFT_def m by (auto simp: bit_simps)
  show "bit INT_TRIG_MASK n \<longleftrightarrow> n = 17 \<or> n = 18"
    unfolding INT_TRIG_MASK_def INT_TRIG_SHIFT_def m by (auto simp: bit_simps)
  show "bit INT_VECTOR_BIT n \<longleftrightarrow> n = 16"
    unfolding INT_VECTOR_BIT_def bit_push_bit_1 by auto
  show "bit INT_MODE_MACHINE n \<longleftrightarrow> n = 22 \<or> n = 23"
    unfolding INT_MODE_MACHINE_def m by (auto simp: bit_simps)
qed

lemma bit_enable_value:
  assumes "n < 32"
  shows "bit (enable_value priority trigger vectored v) n \<longleftrightarrow>
    (if 27 \<le> n then bit priority (n - 27)
     else if n = 17 then trigger \<noteq> Level else if n = 18 then trigger = NegEdge
     else if n = 16 then vectored
     else n = 8 \<or> n = 22 \<or> n = 23 \<or> bit v n)"
proof -
  have "bit (push_bit INT_PRIO_SHIFT priority AND INT_PRIO_MASK) n \<longleftrightarrow> 27 \<le> n \<and> bit priority (n - 27)"
    using assms by (auto simp: bit_and_iff bit_push_bit_iff bit_fields INT_PRIO_SHIFT_def)
  moreover have "bit (push_bit INT_TRIG_SHIFT (ClicTrigger_code trigger) AND INT_TRIG_MASK) n \<longleftrightarrow>
      n = 17 \<and> trigger \<noteq> Level \<or> n = 18 \<and> trigger = NegEdge"
    using assms
    by (auto simp: bit_and_iff bit_push_bit_iff bit_fields INT_TRIG_SHIFT_def bit_trigger_code)
  moreover have "bit (push_bit INT_IE_SHIFT 1 :: u32) n \<longleftrightarrow> n = 8"
    unfolding INT_IE_SHIFT_def bit_push_bit_1 by auto
  moreover have "bit (v AND NOT (INT_PRIO_MASK OR INT_TRIG_MASK OR INT_VECTOR_BIT)) n \<longleftrightarrow>
      bit v n \<and> n < 27 \<and> n \<notin> {16, 17, 18}"
    using assms unfolding bit_and_iff bit_not_iff bit_or_iff bit_fields by auto
  ultimately show ?thesis
    unfolding enable_value_def Let_def
    by (cases vectored; simp only: if_True if_False bit_or_iff bit_fields; use assms in auto)
qed

context word_memory
begin

lemma peek_Clic_enable:
  assumes "int_regs \<subseteq> A" and "irq < MAX_INTERRUPTS" and "b \<in> A"
  shows "peek b (hw (Clic_enable P irq priority trigger vectored e)) =
    (if b = int_reg irq then enable_value priority trigger vectored (peek b (hw e)) else peek b (hw e))"
  using assms subsetD [OF assms(1) int_reg_in [OF assms(2)]]
  by (auto simp: Clic_enable_def hw_masked_modify int_reg_def [symmetric] peek_mmio_modify)

lemma peek_Clic_disable:
  assumes "int_regs \<subseteq> A" and "irq < MAX_INTERRUPTS" and "b \<in> A"
  shows "peek b (hw (Clic_disable P irq e)) =
    (if b = int_reg irq then peek b (hw e) AND NOT 0x100 else peek b (hw e))"
  using assms subsetD [OF assms(1) int_reg_in [OF assms(2)]]
  by (auto simp: Clic_disable_def hw_masked_modify int_reg_def [symmetric] peek_mmio_modify regs)

lemma peek_disable_all:
  assumes "int_regs \<subseteq> A" and "n \<le> 144" and "irq < MAX_INTERRUPTS"
  shows "peek (int_reg irq) (hw (fold (\<lambda>i. Clic_disable P (of_nat i)) [0..<n] e)) =
    (if unat irq < n then peek (int_reg irq) (hw e) AND NOT 0x100 else peek (int_reg irq) (hw e))"
  using assms(2)
proof (induction n)
  case 0
  then show ?case by simp
next
  case (Suc n)
  have n: "unat (of_nat n :: u32) = n" using Suc.prems by (simp add: unat_of_nat)
  then have lt: "(of_nat n :: u32) < MAX_INTERRUPTS"
    using Suc.prems by (simp add: MAX_INTERRUPTS_def word_less_nat_alt)
  have in_A: "int_reg irq \<in> A" using assms(1,3) by auto
  have eq: "int_reg irq = int_reg (of_nat n) \<longleftrightarrow> unat irq = n"
    using int_reg_inject [OF assms(3) lt] n by (auto simp: word_unat_eq_iff)
  show ?case
    using Suc peek_Clic_disable [OF assms(1) lt in_A] eq by (auto simp: less_Suc_eq)
qed

end

subsection \<open>Properties\<close>

text \<open>C36. Enabling an interrupt line programs exactly that line: the register gets the enable bit,
  machine mode, the five low bits of the priority, the trigger and the vectoring bit as asked,
  keeps its pending bit, and the registers of all other lines are unchanged.  A line number out
  of range changes nothing at all.\<close>

theorem clic_enable_programs_one_line:
  assumes "word_memory P peek A" and "int_regs \<subseteq> A"
  shows "if irq < MAX_INTERRUPTS
    then (\<forall>n < 32. bit (peek (int_reg irq) (hw (Clic_enable P irq priority trigger vectored e))) n =
           (if 27 \<le> n then bit priority (n - 27)
            else if n = 17 then trigger \<noteq> Level else if n = 18 then trigger = NegEdge
            else if n = 16 then vectored
            else n = 8 \<or> n = 22 \<or> n = 23 \<or> bit (peek (int_reg irq) (hw e)) n)) \<and>
         (\<forall>other < MAX_INTERRUPTS. other \<noteq> irq \<longrightarrow>
           peek (int_reg other) (hw (Clic_enable P irq priority trigger vectored e)) =
           peek (int_reg other) (hw e))
    else Clic_enable P irq priority trigger vectored e = e"
proof (cases "irq < MAX_INTERRUPTS")
  case True
  have p: "peek (int_reg j) (hw (Clic_enable P irq priority trigger vectored e)) =
      (if j = irq then enable_value priority trigger vectored (peek (int_reg j) (hw e))
       else peek (int_reg j) (hw e))" if "j < MAX_INTERRUPTS" for j
    using word_memory.peek_Clic_enable [OF assms True] assms(2) int_reg_in [OF that]
      int_reg_inject [OF that True] by auto
  show ?thesis using True p bit_enable_value by simp
next
  case False
  then show ?thesis by (simp add: Clic_enable_def)
qed

theorem clic_enable_programs_one_line_witness:
  "bit (words (hw (Clic_enable sim_platform 17 1 Level False sim_env)) (int_reg 17)) 8 \<and>
   bit (words (hw (Clic_enable sim_platform 17 1 Level False sim_env)) (int_reg 17)) 27 \<and>
   \<not> bit (words (hw (Clic_enable sim_platform 17 1 Level False sim_env)) (int_reg 17)) 16"
  using clic_enable_programs_one_line [OF sim.word_memory_axioms subset_UNIV,
      of 17 1 Level False sim_env]
  by (simp add: MAX_INTERRUPTS_def)

text \<open>After \<open>Clic_init\<close> every one of the 144 lines is disabled, whatever it was before, and no
  other bit of a line register has changed.\<close>

theorem clic_init_disables_every_line:
  assumes "word_memory P peek A" and "insert (clic_reg CFG_OFFSET) (insert (clic_reg MINTTHRESH_OFFSET) int_regs) \<subseteq> A"
    and "irq < MAX_INTERRUPTS"
  shows "peek (int_reg irq) (hw (Clic_init P e)) = peek (int_reg irq) (hw e) AND NOT 0x100 \<and>
    \<not> bit (peek (int_reg irq) (hw (Clic_init P e))) INT_IE_SHIFT"
proof -
  have irq: "int_reg irq \<in> A" using assms(2) int_reg_in [OF assms(3)] by blast
  have u: "unat irq * 4 < 576" using assms(3) by (simp add: MAX_INTERRUPTS_def word_less_nat_alt)
  then have "unat (irq * 4) = unat irq * 4" by (simp add: unat_word_ariths)
  then have "unat (0x1000 + irq * 4) = 4096 + unat irq * 4"
    using u by (subst unat_add_no_wrap) simp_all
  then have ne: "0x1000 + irq * 4 \<noteq> 0" "0x1000 + irq * 4 \<noteq> 8" by (auto simp: word_unat_eq_iff)
  have "int_reg irq \<noteq> clic_reg CFG_OFFSET" "int_reg irq \<noteq> clic_reg MINTTHRESH_OFFSET"
    using ne unfolding int_reg_def clic_reg_def int_offset_def regs by simp_all
  then have w: "peek (int_reg irq) (hw (mmio_write P (clic_reg MINTTHRESH_OFFSET) 0
      (mmio_write P (clic_reg CFG_OFFSET) 0 e))) = peek (int_reg irq) (hw e)"
    using irq assms(2) by (simp add: word_memory.peek_mmio_write [OF assms(1)])
  have "int_regs \<subseteq> A" "unat irq < 144"
    using assms(2,3) by (simp_all add: MAX_INTERRUPTS_def word_less_nat_alt)
  then have p: "peek (int_reg irq) (hw (Clic_init P e)) = peek (int_reg irq) (hw e) AND NOT 0x100"
    using word_memory.peek_disable_all [OF assms(1) _ order_refl assms(3)] w
    by (simp add: Clic_init_def MAX_INTERRUPTS_def Let_def)
  have "(0x100 :: u32) = push_bit 8 1" by simp
  then have "\<not> bit (v AND NOT (0x100 :: u32)) INT_IE_SHIFT" for v
    by (simp only: bit_and_iff bit_not_iff INT_IE_SHIFT_def bit_push_bit_1) simp
  with p show ?thesis by simp
qed

theorem clic_init_disables_every_line_witness:
  "\<not> bit (words (hw (Clic_init sim_platform (Clic_enable sim_platform 17 1 Level False sim_env)))
      (int_reg 17)) INT_IE_SHIFT"
  by (rule conjunct2 [OF clic_init_disables_every_line [OF sim.word_memory_axioms subset_UNIV]])
    (simp add: MAX_INTERRUPTS_def)

text \<open>Forwarding a GIC interrupt and routing it agree: for every number from 32 on, enabling sets
  exactly the bit of that number in the register array, disabling clears it again without touching
  other bits, and the line computed for the numbers 32 to 63 is the one named for the group.\<close>

theorem gic_forwarding_sets_one_bit:
  assumes "word_memory P peek A" and "gintc_reg (GINTC_CONFIG_REG0 + (g - 32) div 32 * 4) \<in> A"
    and "32 \<le> g"
  shows "(let r = gintc_reg (GINTC_CONFIG_REG0 + (g - 32) div 32 * 4); b = unat ((g - 32) mod 32) in
      (\<forall>n < 32. bit (peek r (hw (enable_for_gic_irq P g e))) n = (n = b \<or> bit (peek r (hw e)) n)) \<and>
      (\<forall>n < 32. bit (peek r (hw (disable_for_gic_irq P g e))) n = (n \<noteq> b \<and> bit (peek r (hw e)) n))) \<and>
    (g < 64 \<longrightarrow> clic_irq_for_gic_irq g \<in>
       ClicIrq_code ` {GicGroup32_39, GicGroup40_47, GicGroup48_55, GicGroup56_63})"
proof -
  have b: "unat ((g - 32) mod 32) < 32" by (simp add: unat_mod_distrib)
  have bits: "bit (v OR push_bit k (1 :: u32)) n = (n = k \<or> bit v n)"
    "bit (v AND NOT (push_bit k (1 :: u32))) n = (n \<noteq> k \<and> bit v n)" if "n < 32" "k < 32" for v k n
    using that by (auto simp: bit_simps)
  have "(g - 32) div 8 \<in> {0, 1, 2, 3}" if "g < 64"
  proof -
    have "unat (g - 32) < 32"
      using that assms(3) by (simp add: word_less_nat_alt word_le_nat_alt unat_sub_if')
    then have "unat ((g - 32) div 8) < 4" by (simp add: unat_div_distrib)
    then have "(g - 32) div 8 < 4" by (simp add: word_less_nat_alt)
    then show ?thesis by (auto simp: word_less_nat_alt word_unat_eq_iff)
  qed
  then have "g < 64 \<longrightarrow> clic_irq_for_gic_irq g \<in>
       ClicIrq_code ` {GicGroup32_39, GicGroup40_47, GicGroup48_55, GicGroup56_63}"
    by (auto simp: clic_irq_for_gic_irq_def)
  moreover have "\<not> g < 32" using assms(3) by simp
  ultimately show ?thesis
    using b bits assms(2)
    by (simp add: enable_for_gic_irq_def disable_for_gic_irq_def Let_def hw_masked_modify
        word_memory.peek_mmio_modify [OF assms(1)])
qed

theorem gic_forwarding_sets_one_bit_witness:
  "bit (words (hw (enable_for_gic_irq sim_platform 48 sim_env)) 0x070210C0) 16 \<and>
   clic_irq_for_gic_irq 48 = ClicIrq_code GicGroup48_55"
  using gic_forwarding_sets_one_bit [OF sim.word_memory_axioms UNIV_I, of 48 sim_env]
  by (simp add: gintc_reg_def regs memory_map clic_irq_for_gic_irq_def Let_def)

end
