(* ===== verification/Gpio.thy ===== *)
theory Gpio
  imports Memory_Map Spsc_Queue "HOL-Library.Multiset"
begin

text \<open>
  \<^verbatim>\<open>hal/include/hal_gpio.hpp\<close>: pins, pin interrupts, registered interrupt callbacks and coroutines that
  wait for an edge.  The default build masks interrupts around each read-modify-write of a pin; with
  \<^verbatim>\<open>HAL_GPIO_USE_AMO\<close> it is one atomic instruction (\<open>set_pin_amo\<close> and its like).

  A registered callback is code of an application: it is the parameter \<open>call\<close>, which gets the
  address of the function, the port, the pin and the context and may change the driver state and
  the environment.  A shift \<^verbatim>\<open>1U << pin\<close> is defined in C++ for pins below 32 only.
\<close>

subsection \<open>Registers\<close>

datatype PinMode = INPUT | OUTPUT | INT_RISING | INT_FALLING | INT_BOTH

fun PinMode_code :: "PinMode \<Rightarrow> u32" where
  "PinMode_code INPUT = 0"
| "PinMode_code OUTPUT = 1"
| "PinMode_code INT_RISING = 4"
| "PinMode_code INT_FALLING = 5"
| "PinMode_code INT_BOTH = 6"

datatype IntTrigger = RISING_EDGE | FALLING_EDGE | HIGH_LEVEL | LOW_LEVEL | BOTH_EDGES

fun IntTrigger_code :: "IntTrigger \<Rightarrow> u32" where
  "IntTrigger_code RISING_EDGE = 0"
| "IntTrigger_code FALLING_EDGE = 1"
| "IntTrigger_code HIGH_LEVEL = 2"
| "IntTrigger_code LOW_LEVEL = 3"
| "IntTrigger_code BOTH_EDGES = 4"

definition PORT_A :: u32 where
  [regs]: "PORT_A = 0"

definition PORT_B :: u32 where
  [regs]: "PORT_B = 1"

definition PORT_C :: u32 where
  [regs]: "PORT_C = 2"

definition PORT_J :: u32 where
  [regs]: "PORT_J = 9"

definition PORT_L :: u32 where
  [regs]: "PORT_L = 16"

definition PORT_M :: u32 where
  [regs]: "PORT_M = 17"

definition BANK_STRIDE :: u32 where
  [regs]: "BANK_STRIDE = 0x30"

definition get_port :: "u32 \<Rightarrow> u32" where
  "get_port port_idx =
     (let base = (if port_idx \<ge> PORT_L then R_PIO_BASE else PIO_BASE);
          bank = (if port_idx \<ge> PORT_L then port_idx - PORT_L else port_idx)
      in base + bank * BANK_STRIDE)"

definition get_int_regs :: "u32 \<Rightarrow> u32" where
  "get_int_regs port_idx =
     (let base = (if port_idx \<ge> PORT_L then R_PIO_BASE else PIO_BASE);
          bank = (if port_idx \<ge> PORT_L then port_idx - PORT_L else port_idx)
      in base + 0x200 + bank * 0x20)"

text \<open>The members of \<^verbatim>\<open>PortRegs\<close> and \<^verbatim>\<open>IntRegs\<close> the driver uses, as addresses.\<close>

definition port_CFG :: "u32 \<Rightarrow> u32 \<Rightarrow> u32" where
  "port_CFG port_idx i = get_port port_idx + 4 * i"

definition port_DATA :: "u32 \<Rightarrow> u32" where
  "port_DATA port_idx = get_port port_idx + 0x10"

definition int_CFG :: "u32 \<Rightarrow> u32 \<Rightarrow> u32" where
  "int_CFG port_idx i = get_int_regs port_idx + 4 * i"

definition int_CTL :: "u32 \<Rightarrow> u32" where
  "int_CTL port_idx = get_int_regs port_idx + 0x10"

definition int_STATUS :: "u32 \<Rightarrow> u32" where
  "int_STATUS port_idx = get_int_regs port_idx + 0x14"

subsection \<open>Pin level operations\<close>

definition set_pin :: "('h, 'x) platform \<Rightarrow> u32 \<Rightarrow> u32 \<Rightarrow> ('h, 'x) env \<Rightarrow> ('h, 'x) env" where
  "set_pin P port_idx pin e =
     masked P (mmio_modify P (port_DATA port_idx) (\<lambda>d. d OR push_bit (unat pin) 1)) e"

definition clear_pin :: "('h, 'x) platform \<Rightarrow> u32 \<Rightarrow> u32 \<Rightarrow> ('h, 'x) env \<Rightarrow> ('h, 'x) env" where
  "clear_pin P port_idx pin e =
     masked P (mmio_modify P (port_DATA port_idx) (\<lambda>d. d AND NOT (push_bit (unat pin) 1))) e"

definition toggle_pin :: "('h, 'x) platform \<Rightarrow> u32 \<Rightarrow> u32 \<Rightarrow> ('h, 'x) env \<Rightarrow> ('h, 'x) env" where
  "toggle_pin P port_idx pin e =
     masked P (mmio_modify P (port_DATA port_idx) (\<lambda>d. d XOR push_bit (unat pin) 1)) e"

text \<open>The variants with \<^verbatim>\<open>HAL_GPIO_USE_AMO\<close>: one atomic instruction, which reads the register, combines it
  with the operand and writes it back.\<close>

definition set_pin_amo :: "('h, 'x) platform \<Rightarrow> u32 \<Rightarrow> u32 \<Rightarrow> ('h, 'x) env \<Rightarrow> ('h, 'x) env" where
  "set_pin_amo P port_idx pin e = mmio_modify P (port_DATA port_idx) (\<lambda>d. d OR push_bit (unat pin) 1) e"

definition clear_pin_amo :: "('h, 'x) platform \<Rightarrow> u32 \<Rightarrow> u32 \<Rightarrow> ('h, 'x) env \<Rightarrow> ('h, 'x) env" where
  "clear_pin_amo P port_idx pin e =
     mmio_modify P (port_DATA port_idx) (\<lambda>d. d AND NOT (push_bit (unat pin) 1)) e"

definition toggle_pin_amo :: "('h, 'x) platform \<Rightarrow> u32 \<Rightarrow> u32 \<Rightarrow> ('h, 'x) env \<Rightarrow> ('h, 'x) env" where
  "toggle_pin_amo P port_idx pin e = mmio_modify P (port_DATA port_idx) (\<lambda>d. d XOR push_bit (unat pin) 1) e"

definition read_pin :: "('h, 'x) platform \<Rightarrow> u32 \<Rightarrow> u32 \<Rightarrow> ('h, 'x) env \<Rightarrow> bool \<times> ('h, 'x) env" where
  "read_pin P port_idx pin e =
     (let (d, e1) = mmio_read P (port_DATA port_idx) e
      in (d AND push_bit (unat pin) 1 \<noteq> 0, e1))"

text \<open>Replacement of the four-bit field of a pin in a configuration register.\<close>

definition set_nibble :: "u32 \<Rightarrow> u32 \<Rightarrow> u32 \<Rightarrow> u32" where
  "set_nibble shift code v =
     (v AND NOT (push_bit (unat shift) 0x0F)) OR push_bit (unat shift) (code AND 0x0F)"

definition configure_pin :: "('h, 'x) platform \<Rightarrow> u32 \<Rightarrow> u32 \<Rightarrow> PinMode \<Rightarrow> ('h, 'x) env \<Rightarrow> ('h, 'x) env" where
  "configure_pin P port_idx pin mode e =
     (let reg_idx = pin div 8; bit_offset = (pin mod 8) * 4
      in mmio_modify P (port_CFG port_idx reg_idx) (set_nibble bit_offset (PinMode_code mode)) e)"

subsection \<open>Driver state\<close>

record PinEventRequest =
  pe_handle :: handle
  pe_port :: u32
  pe_pin :: u32

definition PinEventRequest_default :: PinEventRequest where
  "PinEventRequest_default = \<lparr>pe_handle = 0, pe_port = 0, pe_pin = 0\<rparr>"

record PinHandler =
  ph_callback :: u32
  ph_context :: u32
  ph_port :: u32
  ph_pin :: u32

definition MAX_PIN_HANDLERS :: nat where
  "MAX_PIN_HANDLERS = 8"

record gpio =
  pending_pin_events :: "PinEventRequest queue_spsc_isr"
  handlers :: "PinHandler list"

definition gpio_static :: gpio where
  "gpio_static =
     \<lparr>pending_pin_events = DriverRequestQueue 8 PinEventRequest_default,
      handlers = replicate MAX_PIN_HANDLERS \<lparr>ph_callback = 0, ph_context = 0, ph_port = 0, ph_pin = 0\<rparr>\<rparr>"

type_synonym ('h, 'x) pin_callback =
  "u32 \<Rightarrow> u32 \<Rightarrow> u32 \<Rightarrow> u32 \<Rightarrow> gpio \<times> ('h, 'x) env \<Rightarrow> gpio \<times> ('h, 'x) env"

subsection \<open>Pin interrupts\<close>

definition enable_pin_interrupt ::
    "('h, 'x) platform \<Rightarrow> u32 \<Rightarrow> u32 \<Rightarrow> IntTrigger \<Rightarrow> ('h, 'x) env \<Rightarrow> ('h, 'x) env" where
  "enable_pin_interrupt P port_idx pin trigger e =
     (let shift = (pin mod 8) * 4
      in masked P (\<lambda>e.
           let e1 = mmio_modify P (int_CFG port_idx (pin div 8))
                      (set_nibble shift (IntTrigger_code trigger)) e;
               e2 = mmio_write P (int_STATUS port_idx) (push_bit (unat pin) 1) e1
           in mmio_modify P (int_CTL port_idx) (\<lambda>c. c OR push_bit (unat pin) 1) e2) e)"

definition enable_pin_interrupt_default ::
    "('h, 'x) platform \<Rightarrow> u32 \<Rightarrow> u32 \<Rightarrow> ('h, 'x) env \<Rightarrow> ('h, 'x) env" where
  "enable_pin_interrupt_default P port_idx pin e = enable_pin_interrupt P port_idx pin RISING_EDGE e"

definition disable_pin_interrupt ::
    "('h, 'x) platform \<Rightarrow> u32 \<Rightarrow> u32 \<Rightarrow> ('h, 'x) env \<Rightarrow> ('h, 'x) env" where
  "disable_pin_interrupt P port_idx pin e =
     masked P (\<lambda>e.
       let e1 = mmio_modify P (int_CTL port_idx) (\<lambda>c. c AND NOT (push_bit (unat pin) 1)) e
       in mmio_write P (int_STATUS port_idx) (push_bit (unat pin) 1) e1) e"

text \<open>The slot loop of \<^verbatim>\<open>register_pin_isr\<close>: the first slot that is free or already belongs to the pin.\<close>

fun claim_slot :: "u32 \<Rightarrow> u32 \<Rightarrow> u32 \<Rightarrow> u32 \<Rightarrow> PinHandler list \<Rightarrow> PinHandler list option" where
  "claim_slot port pin callback context [] = None"
| "claim_slot port pin callback context (slot # slots) =
     (if ph_callback slot \<noteq> 0 \<and> (ph_port slot \<noteq> port \<or> ph_pin slot \<noteq> pin)
      then map_option ((#) slot) (claim_slot port pin callback context slots)
      else Some (slot\<lparr>ph_port := port, ph_pin := pin, ph_context := context,
                      ph_callback := callback\<rparr> # slots))"

definition register_pin_isr ::
    "('h, 'x) platform \<Rightarrow> u32 \<Rightarrow> u32 \<Rightarrow> u32 \<Rightarrow> u32 \<Rightarrow> IntTrigger \<Rightarrow> gpio \<Rightarrow> ('h, 'x) env \<Rightarrow>
     bool \<times> gpio \<times> ('h, 'x) env" where
  "register_pin_isr P port pin callback context trigger g e =
     (let (flags, e1) = irq_save P e
      in case claim_slot port pin callback context (handlers g) of
           Some slots \<Rightarrow>
             (let e2 = irq_restore P flags e1
              in (True, g\<lparr>handlers := slots\<rparr>, enable_pin_interrupt P port pin trigger e2))
         | None \<Rightarrow> (False, g, irq_restore P flags e1))"

definition unregister_pin_isr ::
    "('h, 'x) platform \<Rightarrow> u32 \<Rightarrow> u32 \<Rightarrow> gpio \<Rightarrow> ('h, 'x) env \<Rightarrow> gpio \<times> ('h, 'x) env" where
  "unregister_pin_isr P port pin g e =
     (let e1 = disable_pin_interrupt P port pin e;
          (flags, e2) = irq_save P e1;
          g1 = g\<lparr>handlers := map (\<lambda>slot.
                 if ph_callback slot \<noteq> 0 \<and> ph_port slot = port \<and> ph_pin slot = pin
                 then slot\<lparr>ph_callback := 0, ph_context := 0\<rparr> else slot) (handlers g)\<rparr>
      in (g1, irq_restore P flags e2))"

subsection \<open>Waiting coroutines and dispatch\<close>

definition queue_pin_event_request ::
    "('h, 'x) platform \<Rightarrow> handle \<Rightarrow> u32 \<Rightarrow> u32 \<Rightarrow> gpio \<Rightarrow> ('h, 'x) env \<Rightarrow> bool \<times> gpio \<times> ('h, 'x) env" where
  "queue_pin_event_request P h port pin g e =
     (let ((ok, q), e1) = with_ax (push (taccess P) \<lparr>pe_handle = h, pe_port = port, pe_pin = pin\<rparr>
            (pending_pin_events g)) e
      in (ok, g\<lparr>pending_pin_events := q\<rparr>, e1))"

definition pop_pin_event_request :: "PinEventRequest \<Rightarrow> gpio \<Rightarrow> bool \<times> PinEventRequest \<times> gpio" where
  "pop_pin_event_request req g =
     (let (ok, r, q) = pop_from_isr req (pending_pin_events g)
      in (ok, r, g\<lparr>pending_pin_events := q\<rparr>))"

text \<open>The awaiter in the coroutine frame: \<^verbatim>\<open>port\<close> at offset 0, \<^verbatim>\<open>pin\<close> at 4, \<^verbatim>\<open>handle\<close> at 8.\<close>

definition wait_for_edge :: "u32 \<Rightarrow> u32 \<Rightarrow> u32 \<Rightarrow> ('h, 'x) env \<Rightarrow> ('h, 'x) env" where
  "wait_for_edge self port pin e =
     store_u32 (self + 8) 0 (store_u32 (self + 4) pin (store_u32 self port e))"

definition AsyncPinEventAwaiter_await_suspend ::
    "('h, 'x) platform \<Rightarrow> u32 \<Rightarrow> handle \<Rightarrow> gpio \<Rightarrow> ('h, 'x) env \<Rightarrow> gpio \<times> ('h, 'x) env" where
  "AsyncPinEventAwaiter_await_suspend P self h g e =
     (let e1 = store_u32 (self + 8) h e;
          (ok, g1, e2) = queue_pin_event_request P h (load_u32 self e1) (load_u32 (self + 4) e1) g e1
      in (g1, enable_pin_interrupt P (load_u32 self e2) (load_u32 (self + 4) e2) RISING_EDGE e2))"

definition slot_for :: "u32 \<Rightarrow> u32 \<Rightarrow> PinHandler \<Rightarrow> bool" where
  "slot_for port pin slot \<longleftrightarrow> ph_callback slot \<noteq> 0 \<and> ph_port slot = port \<and> ph_pin slot = pin"

definition request_for :: "u32 \<Rightarrow> u32 \<Rightarrow> PinEventRequest \<Rightarrow> bool" where
  "request_for port pin req \<longleftrightarrow> pe_port req = port \<and> pe_pin req = pin"

text \<open>The request loop of \<^verbatim>\<open>dispatch_pin_event\<close> with \<open>n\<close> iterations left.\<close>

fun dispatch_requests ::
    "('h, 'x) platform \<Rightarrow> u32 \<Rightarrow> u32 \<Rightarrow> nat \<Rightarrow> gpio \<times> ('h, 'x) env \<Rightarrow> gpio \<times> ('h, 'x) env" where
  "dispatch_requests P port pin 0 (g, e) = (g, e)"
| "dispatch_requests P port pin (Suc n) (g, e) =
     (let (ok, req, q1) = pop_from_isr PinEventRequest_default (pending_pin_events g)
      in if \<not> ok then (g\<lparr>pending_pin_events := q1\<rparr>, e)
         else if request_for port pin req
         then (g\<lparr>pending_pin_events := q1\<rparr>, post P (pe_handle req) e)
         else
           (let (ok2, q2) = push_from_isr req q1
            in dispatch_requests P port pin n (g\<lparr>pending_pin_events := q2\<rparr>, e)))"

definition dispatch_pin_event ::
    "('h, 'x) pin_callback \<Rightarrow> ('h, 'x) platform \<Rightarrow> u32 \<Rightarrow> u32 \<Rightarrow> gpio \<times> ('h, 'x) env \<Rightarrow>
     gpio \<times> ('h, 'x) env" where
  "dispatch_pin_event call P port pin s =
     (let (g, e) =
            (case find (slot_for port pin) (handlers (fst s)) of
               Some slot \<Rightarrow> call (ph_callback slot) port pin (ph_context slot) s
             | None \<Rightarrow> s);
          queued = unat (size_from_isr (pending_pin_events g))
      in dispatch_requests P port pin queued (g, e))"

text \<open>\<^verbatim>\<open>__builtin_ctz\<close>: the number of trailing zero bits.\<close>

definition builtin_ctz :: "u32 \<Rightarrow> nat" where
  "builtin_ctz w = length (takeWhile (\<lambda>i. \<not> bit w i) [0..<32])"

function dispatch_pending ::
    "('h, 'x) pin_callback \<Rightarrow> ('h, 'x) platform \<Rightarrow> u32 \<Rightarrow> u32 \<Rightarrow> gpio \<times> ('h, 'x) env \<Rightarrow>
     gpio \<times> ('h, 'x) env" where
  "dispatch_pending call P port pending s =
     (if pending = 0 then s
      else dispatch_pending call P port (pending AND (pending - 1))
             (dispatch_pin_event call P port (of_nat (builtin_ctz pending)) s))"
  by pat_completeness auto

termination
proof (relation "measure (\<lambda>(call, P, port, pending, s). unat pending)")
  show "wf (measure (\<lambda>(call :: ('h, 'x) pin_callback, P :: ('h, 'x) platform, port :: u32,
      pending :: u32, s :: gpio \<times> ('h, 'x) env). unat pending))" by simp
  fix call :: "('h, 'x) pin_callback" and P :: "('h, 'x) platform" and port pending :: u32
    and s :: "gpio \<times> ('h, 'x) env"
  assume "pending \<noteq> 0"
  then have "unat (pending - 1) < unat pending" by (rule unat_pred_less)
  moreover have "unat (pending AND (pending - 1)) \<le> unat (pending - 1)"
    using word_and_le1 [of "pending" "pending - 1"] by (simp add: word_le_nat_alt)
  ultimately show "((call, P, port, pending AND (pending - 1),
      dispatch_pin_event call P port (of_nat (builtin_ctz pending)) s), call, P, port, pending, s)
    \<in> measure (\<lambda>(call, P, port, pending, s). unat pending)" by simp
qed

definition handle_bank_isr ::
    "('h, 'x) pin_callback \<Rightarrow> ('h, 'x) platform \<Rightarrow> u32 \<Rightarrow> gpio \<Rightarrow> ('h, 'x) env \<Rightarrow> gpio \<times> ('h, 'x) env" where
  "handle_bank_isr call P port g e =
     (let (status, e1) = mmio_read P (int_STATUS port) e;
          (ctl, e2) = mmio_read P (int_CTL port) e1;
          pending = status AND ctl
      in if pending = 0 then (g, e2)
         else dispatch_pending call P port pending
                (g, mmio_write P (int_STATUS port) pending e2))"

definition Gpio_handle_isr ::
    "('h, 'x) pin_callback \<Rightarrow> ('h, 'x) platform \<Rightarrow> u32 \<Rightarrow> u32 \<Rightarrow> gpio \<Rightarrow> ('h, 'x) env \<Rightarrow>
     gpio \<times> ('h, 'x) env" where
  "Gpio_handle_isr call P port pin g e =
     dispatch_pin_event call P port pin
       (g, mmio_write P (int_STATUS port) (push_bit (unat pin) 1) e)"

subsection \<open>Invariant and views\<close>

definition gpio_inv :: "gpio \<Rightarrow> bool" where
  "gpio_inv g \<longleftrightarrow> dq_inv (pending_pin_events g) \<and> length (handlers g) = MAX_PIN_HANDLERS"

definition pin_waiters :: "gpio \<Rightarrow> PinEventRequest list" where
  "pin_waiters g = q_list (pending_pin_events g)"

definition pins_of :: "u32 \<Rightarrow> nat list" where
  "pins_of w = filter (bit w) [0..<32]"

definition pin_handler :: "u32 \<Rightarrow> u32 \<Rightarrow> gpio \<Rightarrow> (u32 \<times> u32) option" where
  "pin_handler port pin g =
     map_option (\<lambda>slot. (ph_callback slot, ph_context slot)) (find (slot_for port pin) (handlers g))"

subsection \<open>Example data\<close>

definition no_callback :: "('h, 'x) pin_callback" where
  "no_callback cb port pin ctx s = s"

definition three_pin_waiters :: gpio where
  "three_pin_waiters = gpio_static\<lparr>pending_pin_events :=
     snd (push_from_isr \<lparr>pe_handle = 3, pe_port = 16, pe_pin = 5\<rparr>
       (snd (push_from_isr \<lparr>pe_handle = 2, pe_port = 16, pe_pin = 4\<rparr>
         (snd (push_from_isr \<lparr>pe_handle = 1, pe_port = 16, pe_pin = 5\<rparr>
           (pending_pin_events gpio_static))))))\<rparr>"

subsection \<open>Trailing zeros and the set bits of a register\<close>

lemma builtin_ctz_props:
  assumes "w \<noteq> 0"
  shows "builtin_ctz w < 32" and "bit w (builtin_ctz w)" and "i < builtin_ctz w \<Longrightarrow> \<not> bit w i"
proof -
  let ?t = "takeWhile (\<lambda>i. \<not> bit w i) [0..<32]"
  obtain j where j: "bit w j" using assms bit_eqI [of w 0] by auto
  then have "j < 32" using bit_imp_le_length [of w j] by simp
  with j have "?t \<noteq> [0..<32]" by (metis (no_types, lifting) atLeastLessThan_iff set_upt
      set_takeWhileD zero_le)
  then have "length ?t \<noteq> length [0..<32]"
    by (metis takeWhile_eq_take take_all order_refl)
  then have k: "length ?t < 32" using length_takeWhile_le [of "\<lambda>i. \<not> bit w i" "[0..<32]"] by simp
  then show "builtin_ctz w < 32" by (simp add: builtin_ctz_def)
  show "bit w (builtin_ctz w)"
    using nth_length_takeWhile [of "\<lambda>i. \<not> bit w i" "[0..<32]"] k by (simp add: builtin_ctz_def)
  show "\<not> bit w i" if "i < builtin_ctz w"
    using nth_mem [of i ?t] set_takeWhileD [of "?t ! i" "\<lambda>i. \<not> bit w i" "[0..<32]"] k that
      takeWhile_nth [of i "\<lambda>i. \<not> bit w i" "[0..<32]"]
    by (simp add: builtin_ctz_def)
qed

text \<open>\<^verbatim>\<open>pending &= pending - 1U\<close> clears the lowest set bit and no other.\<close>

lemma bit_clear_lowest:
  assumes "w \<noteq> 0" and "n < 32"
  shows "bit (w AND (w - 1)) n \<longleftrightarrow> bit w n \<and> n \<noteq> builtin_ctz w"
proof -
  define k where "k = builtin_ctz w"
  define u where "u = push_bit (Suc k) (drop_bit (Suc k) w)"
  define b where "b = (push_bit k 1 :: u32)"
  have k: "k < 32" "bit w k" "\<And>i. i < k \<Longrightarrow> \<not> bit w i"
    using builtin_ctz_props [OF assms(1)] by (simp_all add: k_def)
  have u: "bit u i \<longleftrightarrow> k < i \<and> bit w i" for i
    using bit_imp_le_length [of w i] unfolding u_def bit_push_bit_iff bit_drop_bit_eq
    by (auto simp: Suc_le_eq)
  have b: "bit b i \<longleftrightarrow> i = k" for i
    using k(1) unfolding b_def bit_push_bit_1 by auto
  have "w = u OR b"
    by (rule bit_word_eqI) (use k u b in \<open>auto simp: bit_or_iff linorder_neq_iff\<close>)
  moreover have "u AND b = 0" by (rule bit_word_eqI) (simp add: bit_and_iff u b)
  ultimately have "w = u + b" by (simp add: disjunctive_add_eq_or)
  then have "w - 1 = u + mask k" by (simp add: b_def mask_eq_exp_minus_1 push_bit_eq_mult)
  moreover have "u AND mask k = 0" by (rule bit_word_eqI) (simp add: bit_and_iff u bit_mask_iff)
  ultimately have m: "w - 1 = u OR mask k" by (simp add: disjunctive_add_eq_or)
  have "bit (w AND (u OR mask k)) n \<longleftrightarrow> bit w n \<and> n \<noteq> k"
    using k u [of n] assms(2) by (auto simp: bit_and_iff bit_or_iff bit_mask_iff linorder_neq_iff)
  then show ?thesis unfolding m k_def .
qed

lemma pins_of_0 [simp]: "pins_of 0 = []"
  by (simp add: pins_of_def)

lemma pins_of_step:
  assumes "w \<noteq> 0"
  shows "pins_of w = builtin_ctz w # pins_of (w AND (w - 1))"
proof -
  let ?k = "builtin_ctz w"
  note k = builtin_ctz_props [OF assms]
  have split: "[0..<32] = [0..<?k] @ ?k # [Suc ?k..<32]"
    using k(1) by (metis le_eq_less_or_eq upt_add_eq_append upt_conv_Cons zero_le
        le_add_diff_inverse)
  have "filter (bit w) [0..<?k] = []" "filter (bit (w AND (w - 1))) [0..<?k] = []"
    using k by (simp_all add: filter_empty_conv bit_clear_lowest [OF assms])
  moreover have "\<not> bit (w AND (w - 1)) ?k" using bit_clear_lowest [OF assms k(1)] by simp
  moreover have "filter (bit (w AND (w - 1))) [Suc ?k..<32] = filter (bit w) [Suc ?k..<32]"
    by (rule filter_cong) (simp_all add: bit_clear_lowest [OF assms])
  ultimately show ?thesis unfolding pins_of_def split using k(2) by simp
qed

declare dispatch_pending.simps [simp del]

lemma dispatch_pending_fold:
  "dispatch_pending call P port w s =
    fold (\<lambda>pin. dispatch_pin_event call P port (of_nat pin)) (pins_of w) s"
proof (induction call P port w s rule: dispatch_pending.induct)
  case (1 call P port w s)
  then show ?case
    by (cases "w = 0")
      (simp_all add: dispatch_pending.simps [of call P port 0 s]
        dispatch_pending.simps [of call P port w s] pins_of_step)
qed

subsection \<open>Waiters and handlers\<close>

lemma dispatch_requests_spec:
  assumes "dq_inv (pending_pin_events g)" and "q_list (pending_pin_events g) = xs @ ps"
  shows "\<exists>q. dq_inv q \<and>
    (case dropWhile (\<lambda>r. \<not> request_for port pin r) xs of
       [] \<Rightarrow> dispatch_requests P port pin (length xs) (g, e) = (g\<lparr>pending_pin_events := q\<rparr>, e) \<and>
         q_list q = ps @ xs
     | z # zs \<Rightarrow> dispatch_requests P port pin (length xs) (g, e) =
         (g\<lparr>pending_pin_events := q\<rparr>, post P (pe_handle z) e) \<and>
         q_list q = zs @ ps @ takeWhile (\<lambda>r. \<not> request_for port pin r) xs)"
  using assms
proof (induction xs arbitrary: g ps)
  case Nil
  then show ?case by (intro exI [of _ "pending_pin_events g"]) simp
next
  case (Cons x xs)
  obtain q1 q2 where q: "pop_from_isr PinEventRequest_default (pending_pin_events g) = (True, x, q1)"
      "dq_inv q1" "q_list q1 = xs @ ps" "push_from_isr x q1 = (True, q2)" "dq_inv q2"
      "q_list q2 = xs @ (ps @ [x])"
    using dq.deq_enq_rotates [OF Cons.prems(1), of x "xs @ ps" PinEventRequest_default] Cons.prems(2)
    by auto
  show ?case
  proof (cases "request_for port pin x")
    case True
    then show ?thesis using q by (intro exI [of _ q1]) simp
  next
    case False
    then show ?thesis
      using q Cons.IH [of "g\<lparr>pending_pin_events := q2\<rparr>" "ps @ [x]"] by (auto split: list.splits)
  qed
qed

lemma dispatch_pin_event_waiters:
  assumes "gpio_inv g"
    and "\<And>cb ctx. fst (call cb port pin ctx (g, e)) = g"
  shows "\<exists>g' e'. dispatch_pin_event call P port pin (g, e) = (g', e') \<and> gpio_inv g' \<and>
    handlers g' = handlers g \<and>
    (let e1 = (case pin_handler port pin g of
                 Some (cb, ctx) \<Rightarrow> snd (call cb port pin ctx (g, e)) | None \<Rightarrow> e)
     in case dropWhile (\<lambda>r. \<not> request_for port pin r) (pin_waiters g) of
          [] \<Rightarrow> pin_waiters g' = pin_waiters g \<and> e' = e1
        | z # zs \<Rightarrow>
            pin_waiters g' = zs @ takeWhile (\<lambda>r. \<not> request_for port pin r) (pin_waiters g) \<and>
            e' = post P (pe_handle z) e1)"
proof -
  let ?s = "case find (slot_for port pin) (handlers g) of
      Some slot \<Rightarrow> call (ph_callback slot) port pin (ph_context slot) (g, e) | None \<Rightarrow> (g, e)"
  let ?e1 = "case pin_handler port pin g of
      Some (cb, ctx) \<Rightarrow> snd (call cb port pin ctx (g, e)) | None \<Rightarrow> e"
  have s: "?s = (g, ?e1)"
    using assms(2) by (auto simp: pin_handler_def prod_eq_iff split: option.split)
  have "unat (size_from_isr (pending_pin_events g)) = length (pin_waiters g)"
    by (simp add: size_from_isr_def pin_waiters_def length_q_list)
  then have d: "dispatch_pin_event call P port pin (g, e) =
      dispatch_requests P port pin (length (pin_waiters g)) (g, ?e1)"
    by (simp add: dispatch_pin_event_def s)
  obtain q where "dq_inv q" "case dropWhile (\<lambda>r. \<not> request_for port pin r) (pin_waiters g) of
       [] \<Rightarrow> dispatch_requests P port pin (length (pin_waiters g)) (g, ?e1) =
         (g\<lparr>pending_pin_events := q\<rparr>, ?e1) \<and> q_list q = pin_waiters g
     | z # zs \<Rightarrow> dispatch_requests P port pin (length (pin_waiters g)) (g, ?e1) =
         (g\<lparr>pending_pin_events := q\<rparr>, post P (pe_handle z) ?e1) \<and>
         q_list q = zs @ takeWhile (\<lambda>r. \<not> request_for port pin r) (pin_waiters g)"
    using dispatch_requests_spec [where g = g and xs = "pin_waiters g" and ps = "[]" and port = port
        and pin = pin and P = P and e = ?e1, unfolded append_Nil append_Nil2, OF _ pin_waiters_def [symmetric]]
      assms(1)
    unfolding gpio_inv_def by blast
  moreover have "pin_waiters (g\<lparr>pending_pin_events := q\<rparr>) = q_list q" by (simp add: pin_waiters_def)
  moreover have "gpio_inv (g\<lparr>pending_pin_events := q\<rparr>)"
    using \<open>dq_inv q\<close> assms(1) by (simp add: gpio_inv_def)
  ultimately show ?thesis
    unfolding d Let_def
    by (intro exI [of _ "g\<lparr>pending_pin_events := q\<rparr>"])
      (cases "dropWhile (\<lambda>r. \<not> request_for port pin r) (pin_waiters g)", simp_all del: dropWhile_eq_Nil_conv)
qed

lemma claim_slot_finds:
  assumes "claim_slot port pin callback context hs = Some hs'" and "callback \<noteq> 0"
  shows "\<exists>slot. find (slot_for port pin) hs' = Some slot \<and> ph_callback slot = callback \<and>
      ph_context slot = context"
    and "(p, n) \<noteq> (port, pin) \<Longrightarrow> find (slot_for p n) hs' = find (slot_for p n) hs"
    and "length hs' = length hs"
  using assms
  by (induction hs arbitrary: hs') (auto simp: slot_for_def split: if_splits)

lemma claim_slot_None_iff:
  "claim_slot port pin callback context hs = None \<longleftrightarrow>
    (\<forall>slot \<in> set hs. ph_callback slot \<noteq> 0 \<and> (ph_port slot \<noteq> port \<or> ph_pin slot \<noteq> pin))"
  by (induction hs) auto

lemma find_unregistered:
  "find (slot_for p n) (map (\<lambda>slot. if ph_callback slot \<noteq> 0 \<and> ph_port slot = port \<and> ph_pin slot = pin
      then slot\<lparr>ph_callback := 0, ph_context := 0\<rparr> else slot) hs) =
    (if (p, n) = (port, pin) then None else find (slot_for p n) hs)"
  by (induction hs) (auto simp: slot_for_def [abs_def])

lemma pin_waiters_example:
  "gpio_inv three_pin_waiters \<and> pin_waiters three_pin_waiters =
    [\<lparr>pe_handle = 1, pe_port = 16, pe_pin = 5\<rparr>, \<lparr>pe_handle = 2, pe_port = 16, pe_pin = 4\<rparr>,
     \<lparr>pe_handle = 3, pe_port = 16, pe_pin = 5\<rparr>]"
  by (simp add: three_pin_waiters_def gpio_inv_def gpio_static_def pin_waiters_def dq_simps)

lemma bit_set_nibble:
  assumes "k < 8" and "n < 32" and "shift = 4 * of_nat k"
  shows "bit (set_nibble shift code v) n =
    (if n div 4 = k then bit code (n mod 4) else bit v n)"
proof -
  have s: "unat shift = 4 * k" using assms(1,3) by (simp add: unat_word_ariths unat_of_nat)
  have m: "(0x0F :: u32) = mask 4" by (simp add: mask_eq_exp_minus_1)
  have q: "n div 4 = k \<longleftrightarrow> 4 * k \<le> n \<and> n - 4 * k < 4" by linarith
  have r: "n mod 4 = n - 4 * k" if "n div 4 = k" using that by (simp add: minus_mult_div_eq_mod [symmetric])
  show ?thesis
    unfolding set_nibble_def m s
    using assms(1,2) r q by (auto simp: bit_simps)
qed

subsection \<open>Properties\<close>

text \<open>C18. A bank interrupt dispatches exactly the pins that are both pending and enabled, each once
  and in ascending order, and acknowledges exactly those: bits of \<open>STATUS\<close> that this core did not
  enable are never written, so a bank shared with Linux keeps them.\<close>

theorem bank_isr_dispatches_enabled_pins:
  assumes "bus_rd P (int_STATUS port) (hw e) = (status, h1)"
    and "bus_rd P (int_CTL port) h1 = (ctl, h2)"
  shows "handle_bank_isr call P port g e =
    (if pins_of (status AND ctl) = [] then (g, e\<lparr>hw := h2\<rparr>)
     else fold (\<lambda>pin. dispatch_pin_event call P port (of_nat pin)) (pins_of (status AND ctl))
       (g, e\<lparr>hw := bus_wr P (int_STATUS port) (status AND ctl) h2\<rparr>)) \<and>
    set (pins_of (status AND ctl)) = {n. bit status n \<and> bit ctl n} \<and>
    sorted (pins_of (status AND ctl)) \<and> distinct (pins_of (status AND ctl))"
proof -
  let ?w = "status AND ctl"
  have "pins_of ?w = [] \<longleftrightarrow> ?w = 0" by (cases "?w = 0") (simp_all add: pins_of_step)
  moreover have "set (pins_of ?w) = {n. bit status n \<and> bit ctl n}"
    using bit_imp_le_length [of status] by (auto simp: pins_of_def bit_and_iff)
  moreover have "sorted (pins_of ?w)" "distinct (pins_of ?w)"
    by (simp_all add: pins_of_def sorted_wrt_filter)
  ultimately show ?thesis
    using assms
    by (simp add: handle_bank_isr_def mmio_read_def mmio_write_def dispatch_pending_fold Let_def)
qed

theorem bank_isr_dispatches_enabled_pins_witness:
  "let e = sim_env\<lparr>hw := (hw sim_env)\<lparr>words :=
         (\<lambda>_. 0)(int_STATUS 16 := 0xB0, int_CTL 16 := 0x31)\<rparr>\<rparr>
   in set (pins_of (0xB0 AND 0x31)) = {n. bit (0xB0 :: u32) n \<and> bit (0x31 :: u32) n} \<and>
      snd (handle_bank_isr no_callback sim_platform 16 gpio_static e) =
      snd (fold (\<lambda>pin. dispatch_pin_event no_callback sim_platform 16 (of_nat pin)) [4, 5]
        (gpio_static, e\<lparr>hw := (hw e)\<lparr>words := (words (hw e))(int_STATUS 16 := 0x30)\<rparr>\<rparr>))"
proof -
  let ?h = "(hw sim_env)\<lparr>words := (\<lambda>_. 0)(int_STATUS 16 := 0xB0, int_CTL 16 := 0x31)\<rparr>"
  have ne: "int_STATUS 16 \<noteq> int_CTL 16" by (simp add: int_STATUS_def int_CTL_def)
  have "pins_of 0x30 = [4, 5]" by code_simp
  then show ?thesis
    using bank_isr_dispatches_enabled_pins [of sim_platform 16 "sim_env\<lparr>hw := ?h\<rparr>" "0xB0" ?h "0x31"
        ?h no_callback gpio_static] ne
    by (simp add: Let_def)
qed

text \<open>C29. A pin event resumes exactly one waiting coroutine, the first one waiting for that pin, and
  keeps every other one waiting; with no such waiter nothing is posted and the order of the queue
  is unchanged.  The callback registered for the pin, if any, runs first.  When a waiter is
  resumed, the requests behind it move in front of those that were before it.\<close>

theorem pin_event_resumes_first_waiter:
  assumes "gpio_inv g" and "\<And>cb ctx. fst (call cb port pin ctx (g, e)) = g"
  shows "\<exists>g' e'. dispatch_pin_event call P port pin (g, e) = (g', e') \<and> gpio_inv g' \<and>
    handlers g' = handlers g \<and>
    (let e1 = (case pin_handler port pin g of
                 Some (cb, ctx) \<Rightarrow> snd (call cb port pin ctx (g, e)) | None \<Rightarrow> e)
     in case dropWhile (\<lambda>r. \<not> request_for port pin r) (pin_waiters g) of
          [] \<Rightarrow> pin_waiters g' = pin_waiters g \<and> e' = e1
        | z # zs \<Rightarrow> request_for port pin z \<and> mset (pin_waiters g) = add_mset z (mset (pin_waiters g')) \<and>
            pin_waiters g' = zs @ takeWhile (\<lambda>r. \<not> request_for port pin r) (pin_waiters g) \<and>
            e' = post P (pe_handle z) e1)"
proof -
  let ?p = "\<lambda>r. \<not> request_for port pin r"
  let ?e1 = "case pin_handler port pin g of
      Some (cb, ctx) \<Rightarrow> snd (call cb port pin ctx (g, e)) | None \<Rightarrow> e"
  have z: "request_for port pin z \<and>
      mset (pin_waiters g) = add_mset z (mset (zs @ takeWhile ?p (pin_waiters g)))"
    if "dropWhile ?p (pin_waiters g) = z # zs" for z zs
  proof -
    have "mset (pin_waiters g) = mset (takeWhile ?p (pin_waiters g) @ dropWhile ?p (pin_waiters g))"
      by (simp only: takeWhile_dropWhile_id)
    moreover have "request_for port pin z" using that by (simp add: dropWhile_eq_Cons_conv)
    ultimately show ?thesis using that by (simp add: union_commute)
  qed
  obtain g' e' where d: "dispatch_pin_event call P port pin (g, e) = (g', e')" "gpio_inv g'"
      "handlers g' = handlers g"
    and c: "case dropWhile ?p (pin_waiters g) of
          [] \<Rightarrow> pin_waiters g' = pin_waiters g \<and> e' = ?e1
        | z # zs \<Rightarrow> pin_waiters g' = zs @ takeWhile ?p (pin_waiters g) \<and> e' = post P (pe_handle z) ?e1"
    using dispatch_pin_event_waiters [of g call port pin e P] assms unfolding Let_def by blast
  show ?thesis
  proof (cases "dropWhile ?p (pin_waiters g)")
    case Nil
    with c d show ?thesis by (simp del: dropWhile_eq_Nil_conv)
  next
    case (Cons y ys)
    with c d z [OF Cons] show ?thesis by simp
  qed
qed

theorem pin_event_resumes_first_waiter_witness:
  "\<exists>g' e'. dispatch_pin_event no_callback sim_platform 16 4 (three_pin_waiters, sim_env) = (g', e') \<and>
     map pe_handle (pin_waiters g') = [3, 1] \<and> posted (ax e') = [2]"
  using pin_event_resumes_first_waiter [of three_pin_waiters no_callback 16 4 sim_env sim_platform]
    pin_waiters_example
  by (auto simp: no_callback_def request_for_def pin_handler_def Let_def three_pin_waiters_def
      gpio_static_def slot_for_def MAX_PIN_HANDLERS_def numeral_eq_Suc post_def sim_env_def)



text \<open>Both variants of the pin operations do the same to the hardware; they differ in whether interrupts
  are masked meanwhile.\<close>

lemma amo_variants_agree:
  "hw (set_pin_amo P port pin e) = hw (set_pin P port pin e)"
  "hw (clear_pin_amo P port pin e) = hw (clear_pin P port pin e)"
  "hw (toggle_pin_amo P port pin e) = hw (toggle_pin P port pin e)"
  by (simp_all add: set_pin_amo_def clear_pin_amo_def toggle_pin_amo_def set_pin_def clear_pin_def toggle_pin_def
      hw_masked_modify)

text \<open>Pin level operations touch exactly one pin: after \<open>set_pin\<close>, \<open>clear_pin\<close> and \<open>toggle_pin\<close>
  the data bit of the pin is 1, 0 and inverted, all other bits are as before; \<open>configure_pin\<close>
  replaces exactly the four mode bits of the pin in its configuration register.\<close>

theorem pin_operations_touch_one_pin:
  assumes "word_memory P peek A" and "{port_DATA port, port_CFG port (pin div 8)} \<subseteq> A"
    and "pin < 32" and "n < 32"
  shows "bit (peek (port_DATA port) (hw (set_pin P port pin e))) n =
      (n = unat pin \<or> bit (peek (port_DATA port) (hw e)) n) \<and>
    bit (peek (port_DATA port) (hw (clear_pin P port pin e))) n =
      (n \<noteq> unat pin \<and> bit (peek (port_DATA port) (hw e)) n) \<and>
    bit (peek (port_DATA port) (hw (toggle_pin P port pin e))) n =
      ((n = unat pin) \<noteq> bit (peek (port_DATA port) (hw e)) n) \<and>
    bit (peek (port_CFG port (pin div 8)) (hw (configure_pin P port pin mode e))) n =
      (if n div 4 = unat pin mod 8 then bit (PinMode_code mode) (n mod 4)
       else bit (peek (port_CFG port (pin div 8)) (hw e)) n)"
proof -
  note m = word_memory.peek_mmio_modify [OF assms(1)]
  have p: "unat pin < 32" using assms(3) by (simp add: word_less_nat_alt)
  have b: "bit (push_bit (unat pin) (1 :: u32)) n \<longleftrightarrow> n = unat pin"
    using p unfolding bit_push_bit_1 by auto
  have x: "bit (v XOR w) n \<longleftrightarrow> bit v n \<noteq> bit w n" for v w :: u32 by (simp add: bit_xor_iff)
  have "(pin mod 8) * 4 = 4 * of_nat (unat pin mod 8)"
    by (simp add: word_unat_eq_iff unat_word_ariths unat_of_nat)
  from bit_set_nibble [OF _ assms(4) this] have c: "bit (set_nibble ((pin mod 8) * 4) code v) n =
      (if n div 4 = unat pin mod 8 then bit code (n mod 4) else bit v n)" for code v by simp
  show ?thesis
    using assms(2,4)
    unfolding set_pin_def clear_pin_def toggle_pin_def configure_pin_def Let_def hw_masked_modify
    by (simp only: m insert_subset if_True refl bit_or_iff bit_and_iff bit_not_iff x b c) auto
qed

theorem pin_operations_touch_one_pin_witness:
  "bit (words (hw (set_pin sim_platform 1 3 sim_env)) (port_DATA 1)) 3 \<and>
   \<not> bit (words (hw (clear_pin sim_platform 1 3 (set_pin sim_platform 1 3 sim_env))) (port_DATA 1)) 3"
  using pin_operations_touch_one_pin [OF sim.word_memory_axioms subset_UNIV, of 3 3 1 sim_env INPUT]
    pin_operations_touch_one_pin [OF sim.word_memory_axioms subset_UNIV, of 3 3 1
      "set_pin sim_platform 1 3 sim_env" INPUT]
  by simp

end
