(* ===== verification/Spi_Dma.thy ===== *)
theory Spi_Dma
  imports Memory_Map Spsc_Queue Fifo_Server
begin

text \<open>
  \<^verbatim>\<open>hal/include/hal_spi_dma.hpp\<close>: the SPI driver.  Each of the two buses has a request queue, an active
  request and a busy flag; a coroutine queues a request and tries to start it, the interrupt of a
  finished transfer stores the received bytes, starts the next request and resumes the coroutine.

  The state machine is studied at the level of single steps (\<open>spi_event\<close>): a submission, an attempt
  to start, a transfer-complete interrupt, in any order and on either bus.  \<open>spi_bus_step\<close> is the same seen
  from one bus, with the rest of the firmware in between.
\<close>

subsection \<open>Registers and clock\<close>

datatype SpiMode = SINGLE_IO | DUAL_IO

definition SPI_GCR :: u32 where [regs]: "SPI_GCR = 0x04"
definition SPI_TCR :: u32 where [regs]: "SPI_TCR = 0x08"
definition SPI_IER :: u32 where [regs]: "SPI_IER = 0x10"
definition SPI_ISR :: u32 where [regs]: "SPI_ISR = 0x14"
definition SPI_CCR :: u32 where [regs]: "SPI_CCR = 0x24"
definition SPI_MBC :: u32 where [regs]: "SPI_MBC = 0x30"
definition SPI_MTC :: u32 where [regs]: "SPI_MTC = 0x34"
definition SPI_BCC :: u32 where [regs]: "SPI_BCC = 0x38"
definition SPI_TXD :: u32 where [regs]: "SPI_TXD = 0x200"
definition SPI_RXD :: u32 where [regs]: "SPI_RXD = 0x300"

text \<open>The loop that halves the clock, with the values of \<^verbatim>\<open>cur\<close> and \<^verbatim>\<open>cdr1\<close>.\<close>

function cdr1_loop :: "u32 \<Rightarrow> u32 \<Rightarrow> u32 \<Rightarrow> u32" where
  "cdr1_loop target_hz cur cdr1 =
     (if cur > target_hz \<and> cdr1 < 15 then cdr1_loop target_hz (drop_bit 1 cur) (cdr1 + 1) else cdr1)"
  by pat_completeness auto

termination
proof (relation "measure (\<lambda>(target_hz, cur, cdr1). 15 - unat cdr1)")
  show "wf (measure (\<lambda>(target_hz :: u32, cur :: u32, cdr1 :: u32). 15 - unat cdr1))" by simp
  fix target_hz cur cdr1 :: u32
  assume "cur > target_hz \<and> cdr1 < 15"
  then show "((target_hz, drop_bit 1 cur, cdr1 + 1), target_hz, cur, cdr1)
      \<in> measure (\<lambda>(target_hz, cur, cdr1). 15 - unat cdr1)"
    using unat_Suc_no_wrap [of cdr1 15] by (auto simp: word_less_nat_alt)
qed

text \<open>The value written to the clock register; \<^verbatim>\<open>2U * target_hz\<close> wraps.\<close>

definition spi_ccr :: "u32 \<Rightarrow> u32 \<Rightarrow> arith_error + u32" where
  "spi_ccr target_hz parent_hz =
     (if 2 * target_hz = 0 then Inl Division_by_zero
      else
        (let divisor = parent_hz div (2 * target_hz)
         in if divisor \<ge> 1 \<and> divisor \<le> 256 then Inr (divisor - 1)
            else
              (let cdr1 = cdr1_loop target_hz parent_hz 0
               in Inr (push_bit 12 1 OR push_bit 8 (cdr1 AND 0x0F)))))"

definition set_frequency ::
    "('h, 'x) platform \<Rightarrow> u32 \<Rightarrow> u32 \<Rightarrow> u32 \<Rightarrow> ('h, 'x) env \<Rightarrow> arith_error + ('h, 'x) env" where
  "set_frequency P spi_base_addr target_hz parent_hz e =
     (if target_hz = 0 then Inr e
      else
        (let parent_hz = (if parent_hz = 0 then 200000000 else parent_hz)
         in case spi_ccr target_hz parent_hz of
              Inl err \<Rightarrow> Inl err
            | Inr ccr \<Rightarrow> Inr (mmio_write P (spi_base_addr + SPI_CCR) ccr e)))"

definition SpiDmaDriver_init ::
    "('h, 'x) platform \<Rightarrow> u32 \<Rightarrow> SpiMode \<Rightarrow> u32 \<Rightarrow> u32 \<Rightarrow> ('h, 'x) env \<Rightarrow>
     arith_error + ('h, 'x) env" where
  "SpiDmaDriver_init P spi_base_addr mode target_hz parent_hz e =
     (let e1 = mmio_write P (spi_base_addr + SPI_GCR) 0x80000000 e;
          e2 = mmio_write P (spi_base_addr + SPI_GCR) 0x00000003 e1;
          e3 = (if mode = DUAL_IO
                then mmio_write P (spi_base_addr + SPI_TCR) (push_bit 28 1 OR push_bit 2 1) e2
                else mmio_write P (spi_base_addr + SPI_TCR) (push_bit 2 1) e2)
      in case set_frequency P spi_base_addr target_hz parent_hz e3 of
           Inl err \<Rightarrow> Inl err
         | Inr e4 \<Rightarrow> Inr (mmio_write P (spi_base_addr + SPI_IER) (push_bit 12 1) e4))"

subsection \<open>Driver state\<close>

record TransferRequest =
  tr_spi_base :: u32
  tr_handle :: handle
  tr_tx_data :: span
  tr_rx_data :: span

definition TransferRequest_default :: TransferRequest where
  "TransferRequest_default =
     \<lparr>tr_spi_base = 0, tr_handle = 0, tr_tx_data = empty_span, tr_rx_data = empty_span\<rparr>"

record spi =
  pending_spi0_requests :: "TransferRequest queue_spsc_isr"
  pending_spi1_requests :: "TransferRequest queue_spsc_isr"
  active_spi0_request :: TransferRequest
  active_spi1_request :: TransferRequest
  busy_spi0 :: bool
  busy_spi1 :: bool

definition spi_static :: spi where
  "spi_static =
     \<lparr>pending_spi0_requests = DriverRequestQueue 8 TransferRequest_default,
      pending_spi1_requests = DriverRequestQueue 8 TransferRequest_default,
      active_spi0_request = TransferRequest_default, active_spi1_request = TransferRequest_default,
      busy_spi0 = False, busy_spi1 = False\<rparr>"

text \<open>The functions that return references, as reading and updating functions.\<close>

definition queue_for :: "u32 \<Rightarrow> spi \<Rightarrow> TransferRequest queue_spsc_isr" where
  "queue_for base s = (if base = SPI0_BASE then pending_spi0_requests s else pending_spi1_requests s)"

definition set_queue_for :: "u32 \<Rightarrow> TransferRequest queue_spsc_isr \<Rightarrow> spi \<Rightarrow> spi" where
  "set_queue_for base q s =
     (if base = SPI0_BASE then s\<lparr>pending_spi0_requests := q\<rparr> else s\<lparr>pending_spi1_requests := q\<rparr>)"

definition active_request_for :: "u32 \<Rightarrow> spi \<Rightarrow> TransferRequest" where
  "active_request_for base s =
     (if base = SPI0_BASE then active_spi0_request s else active_spi1_request s)"

definition set_active_request_for :: "u32 \<Rightarrow> TransferRequest \<Rightarrow> spi \<Rightarrow> spi" where
  "set_active_request_for base r s =
     (if base = SPI0_BASE then s\<lparr>active_spi0_request := r\<rparr> else s\<lparr>active_spi1_request := r\<rparr>)"

definition busy_for :: "u32 \<Rightarrow> spi \<Rightarrow> bool" where
  "busy_for base s = (if base = SPI0_BASE then busy_spi0 s else busy_spi1 s)"

definition set_busy_for :: "u32 \<Rightarrow> bool \<Rightarrow> spi \<Rightarrow> spi" where
  "set_busy_for base b s = (if base = SPI0_BASE then s\<lparr>busy_spi0 := b\<rparr> else s\<lparr>busy_spi1 := b\<rparr>)"

subsection \<open>Transfers\<close>

definition queue_transfer_request ::
    "('h, 'x) platform \<Rightarrow> u32 \<Rightarrow> handle \<Rightarrow> span \<Rightarrow> span \<Rightarrow> spi \<Rightarrow> ('h, 'x) env \<Rightarrow>
     bool \<times> spi \<times> ('h, 'x) env" where
  "queue_transfer_request P spi_base h tx rx s e =
     (let ((ok, q), e1) = with_ax (push (taccess P)
            \<lparr>tr_spi_base = spi_base, tr_handle = h, tr_tx_data = tx, tr_rx_data = rx\<rparr>
            (queue_for spi_base s)) e
      in (ok, set_queue_for spi_base q s, e1))"

definition pop_transfer_request :: "u32 \<Rightarrow> TransferRequest \<Rightarrow> spi \<Rightarrow> bool \<times> TransferRequest \<times> spi" where
  "pop_transfer_request spi_base req s =
     (let (ok, r, q) = pop_from_isr req (queue_for spi_base s) in (ok, r, set_queue_for spi_base q s))"

definition spi_start_transfer ::
    "('h, 'x) platform \<Rightarrow> u32 \<Rightarrow> span \<Rightarrow> u32 \<Rightarrow> ('h, 'x) env \<Rightarrow> ('h, 'x) env" where
  "spi_start_transfer P base tx rx_len e =
     (let total_len = (if sp_size tx > rx_len then sp_size tx else rx_len);
          e1 = mmio_write P (base + SPI_MBC) total_len e;
          e2 = mmio_write P (base + SPI_MTC) (sp_size tx) e1;
          e3 = mmio_write P (base + SPI_BCC) 0 e2;
          e4 = fold (\<lambda>b. mmio_write P (base + SPI_TXD) (ucast b)) (span_bytes tx e3) e3
      in mmio_modify P (base + SPI_TCR) (\<lambda>v. v OR push_bit 31 1) e4)"

definition try_start_next_transfer ::
    "('h, 'x) platform \<Rightarrow> u32 \<Rightarrow> spi \<Rightarrow> ('h, 'x) env \<Rightarrow> spi \<times> ('h, 'x) env" where
  "try_start_next_transfer P base s e =
     (let (flags, e1) = irq_save P e;
          (s2, e2) =
            (if \<not> busy_for base s
             then
               (let (ok, req, s1) = pop_transfer_request base TransferRequest_default s
                in if ok
                   then (set_active_request_for base req (set_busy_for base True s1),
                         spi_start_transfer P base (tr_tx_data req) (sp_size (tr_rx_data req)) e1)
                   else (s1, e1))
             else (s, e1))
      in (s2, irq_restore P flags e2))"

text \<open>The receive loop, with the index \<open>i\<close> and the number of iterations left.\<close>

fun read_rxd :: "('h, 'x) platform \<Rightarrow> u32 \<Rightarrow> u32 \<Rightarrow> nat \<Rightarrow> ('h, 'x) env \<Rightarrow> ('h, 'x) env" where
  "read_rxd P base dest 0 e = e"
| "read_rxd P base dest (Suc n) e =
     (let (v, e1) = mmio_read P (base + SPI_RXD) e
      in read_rxd P base (dest + 1) n (store_u8 dest (ucast v) e1))"

definition complete_transfer_from_isr ::
    "('h, 'x) platform \<Rightarrow> u32 \<Rightarrow> spi \<Rightarrow> ('h, 'x) env \<Rightarrow> spi \<times> ('h, 'x) env" where
  "complete_transfer_from_isr P base s e =
     (let e1 = mmio_write P (base + SPI_ISR) (push_bit 12 1) e;
          req = active_request_for base s;
          e2 = read_rxd P base (sp_data (tr_rx_data req)) (unat (sp_size (tr_rx_data req))) e1;
          (ok, next_req, s1) = pop_transfer_request base TransferRequest_default s;
          (s2, e3) =
            (if ok
             then (set_active_request_for base next_req (set_busy_for base True s1),
                   spi_start_transfer P base (tr_tx_data next_req) (sp_size (tr_rx_data next_req)) e2)
             else (set_active_request_for base TransferRequest_default (set_busy_for base False s1), e2))
      in (s2, if tr_handle req \<noteq> 0 then post P (tr_handle req) e3 else e3))"

definition handle_spi0_isr :: "('h, 'x) platform \<Rightarrow> spi \<Rightarrow> ('h, 'x) env \<Rightarrow> spi \<times> ('h, 'x) env" where
  "handle_spi0_isr P s e = complete_transfer_from_isr P SPI0_BASE s e"

definition handle_spi1_isr :: "('h, 'x) platform \<Rightarrow> spi \<Rightarrow> ('h, 'x) env \<Rightarrow> spi \<times> ('h, 'x) env" where
  "handle_spi1_isr P s e = complete_transfer_from_isr P SPI1_BASE s e"

text \<open>The awaiter at \<open>self\<close>: \<^verbatim>\<open>spi_base\<close> at offset 0, \<^verbatim>\<open>tx_data\<close> at 4 and 8, \<^verbatim>\<open>rx_data\<close> at 12 and 16,
  \<^verbatim>\<open>handle\<close> at 20.\<close>

definition async_transfer :: "u32 \<Rightarrow> u32 \<Rightarrow> span \<Rightarrow> span \<Rightarrow> ('h, 'x) env \<Rightarrow> ('h, 'x) env" where
  "async_transfer self base tx rx e =
     store_u32 (self + 20) 0 (store_u32 (self + 16) (sp_size rx) (store_u32 (self + 12) (sp_data rx)
       (store_u32 (self + 8) (sp_size tx) (store_u32 (self + 4) (sp_data tx) (store_u32 self base e)))))"

definition SpiTransferAwaiter_await_ready :: "u32 \<Rightarrow> ('h, 'x) env \<Rightarrow> bool" where
  "SpiTransferAwaiter_await_ready self e \<longleftrightarrow>
     sp_size (load_span (self + 4) e) = 0 \<and> sp_size (load_span (self + 12) e) = 0"

definition SpiTransferAwaiter_await_suspend ::
    "('h, 'x) platform \<Rightarrow> u32 \<Rightarrow> handle \<Rightarrow> spi \<Rightarrow> ('h, 'x) env \<Rightarrow> spi \<times> ('h, 'x) env" where
  "SpiTransferAwaiter_await_suspend P self h s e =
     (let e1 = store_u32 (self + 20) h e;
          base = load_u32 self e1;
          (ok, s1, e2) = queue_transfer_request P base h (load_span (self + 4) e1)
                           (load_span (self + 12) e1) s e1
      in try_start_next_transfer P (load_u32 self e2) s1 e2)"

subsection \<open>Steps, runs and invariant\<close>

datatype spi_event = Submit TransferRequest | Start u32 | Tc_interrupt u32

text \<open>A step also reports which requests it accepted and which it completed.\<close>

fun spi_step ::
    "('h, 'x) platform \<Rightarrow> spi_event \<Rightarrow> spi \<times> ('h, 'x) env \<Rightarrow>
     TransferRequest list \<times> TransferRequest list \<times> spi \<times> ('h, 'x) env" where
  "spi_step P (Submit r) (s, e) =
     (let (ok, s1, e1) = queue_transfer_request P (tr_spi_base r) (tr_handle r) (tr_tx_data r)
                           (tr_rx_data r) s e
      in (if ok then [r] else [], [], s1, e1))"
| "spi_step P (Start base) (s, e) = ([], [], try_start_next_transfer P base s e)"
| "spi_step P (Tc_interrupt base) (s, e) =
     ([], if busy_for base s then [active_request_for base s] else [],
      complete_transfer_from_isr P base s e)"

fun spi_run ::
    "('h, 'x) platform \<Rightarrow> spi_event list \<Rightarrow> spi \<times> ('h, 'x) env \<Rightarrow>
     TransferRequest list \<times> TransferRequest list \<times> spi \<times> ('h, 'x) env" where
  "spi_run P [] se = ([], [], se)"
| "spi_run P (ev # evs) se =
     (let (acc, fin, se1) = spi_step P ev se; (accs, fins, se2) = spi_run P evs se1
      in (acc @ accs, fin @ fins, se2))"

definition same_bus :: "u32 \<Rightarrow> u32 \<Rightarrow> bool" where
  "same_bus b c \<longleftrightarrow> (b = SPI0_BASE \<longleftrightarrow> c = SPI0_BASE)"

definition bus_inv :: "u32 \<Rightarrow> spi \<Rightarrow> bool" where
  "bus_inv b s \<longleftrightarrow>
     dq_inv (queue_for b s) \<and>
     (\<not> busy_for b s \<longrightarrow> active_request_for b s = TransferRequest_default) \<and>
     (busy_for b s \<longrightarrow> same_bus b (tr_spi_base (active_request_for b s))) \<and>
     (\<forall>r \<in> set (q_list (queue_for b s)). same_bus b (tr_spi_base r))"

definition spi_inv :: "spi \<Rightarrow> bool" where
  "spi_inv s \<longleftrightarrow> bus_inv SPI0_BASE s \<and> bus_inv SPI1_BASE s"

text \<open>The requests of a bus that are accepted and not completed, in order.\<close>

definition spi_jobs :: "u32 \<Rightarrow> spi \<Rightarrow> TransferRequest list" where
  "spi_jobs b s = (if busy_for b s then [active_request_for b s] else []) @ q_list (queue_for b s)"

definition bus_requests :: "u32 \<Rightarrow> TransferRequest list \<Rightarrow> TransferRequest list" where
  "bus_requests b rs = filter (\<lambda>r. same_bus b (tr_spi_base r)) rs"

text \<open>The same steps seen from bus \<open>b\<close>: an event of the driver, or (\<open>None\<close>) anything else.\<close>

inductive spi_bus_step ::
    "('h, 'x) platform \<Rightarrow> ('x \<Rightarrow> handle list) \<Rightarrow> u32 \<Rightarrow> spi \<times> ('h, 'x) env \<Rightarrow> spi_event option \<Rightarrow>
     TransferRequest list \<Rightarrow> TransferRequest list \<Rightarrow> spi \<times> ('h, 'x) env \<Rightarrow> bool"
  for P :: "('h, 'x) platform" and log :: "'x \<Rightarrow> handle list" and b :: u32 where
  driver: "spi_step P ev (s, e) = (acc, fin, s', e') \<Longrightarrow>
    spi_bus_step P log b (s, e) (Some ev) (bus_requests b acc) (bus_requests b fin) (s', e')"
| elsewhere: "log x = log (ax e) @ ps \<Longrightarrow>
    spi_bus_step P log b (s, e) None [] [] (s, \<lparr>hw = h, ax = x, ram = r\<rparr>)"

definition completes_on :: "u32 \<Rightarrow> spi_event option \<Rightarrow> bool" where
  "completes_on b ev = (case ev of Some (Tc_interrupt c) \<Rightarrow> same_bus b c | _ \<Rightarrow> False)"

definition starts_on :: "u32 \<Rightarrow> spi_event option \<Rightarrow> bool" where
  "starts_on b ev = (case ev of Some (Start c) \<Rightarrow> same_bus b c | _ \<Rightarrow> False)"

definition submits_on :: "u32 \<Rightarrow> spi_event option \<Rightarrow> bool" where
  "submits_on b ev = (case ev of Some (Submit r) \<Rightarrow> same_bus b (tr_spi_base r) | _ \<Rightarrow> False)"

text \<open>Every submission is followed by its attempt to start, as in \<^verbatim>\<open>await_suspend\<close>.\<close>

fun submissions_started :: "u32 \<Rightarrow> spi_event option list \<Rightarrow> bool" where
  "submissions_started b [] = True"
| "submissions_started b (ev # evs) =
     ((submits_on b ev \<longrightarrow> list_ex (starts_on b) evs) \<and> submissions_started b evs)"

text \<open>The coroutine a finished request resumes.\<close>

definition spi_handles :: "TransferRequest \<Rightarrow> handle list" where
  "spi_handles r = (if tr_handle r \<noteq> 0 then [tr_handle r] else [])"

definition bus_settled :: "u32 \<Rightarrow> spi \<Rightarrow> bool" where
  "bus_settled b s \<longleftrightarrow> busy_for b s \<or> q_list (queue_for b s) = []"

subsection \<open>Lemmas\<close>

lemma SPI_bases_differ [simp]: "SPI1_BASE \<noteq> SPI0_BASE"
  by (simp add: memory_map)

lemma bus_accessors [simp]:
  "queue_for b (set_queue_for c q s) = (if same_bus b c then q else queue_for b s)"
  "queue_for b (set_active_request_for c r s) = queue_for b s"
  "queue_for b (set_busy_for c v s) = queue_for b s"
  "active_request_for b (set_active_request_for c r s) =
    (if same_bus b c then r else active_request_for b s)"
  "active_request_for b (set_queue_for c q s) = active_request_for b s"
  "active_request_for b (set_busy_for c v s) = active_request_for b s"
  "busy_for b (set_busy_for c v s) = (if same_bus b c then v else busy_for b s)"
  "busy_for b (set_queue_for c q s) = busy_for b s"
  "busy_for b (set_active_request_for c r s) = busy_for b s"
  by (auto simp: queue_for_def set_queue_for_def active_request_for_def set_active_request_for_def
      busy_for_def set_busy_for_def same_bus_def)

lemma same_bus_accessors:
  assumes "same_bus b c"
  shows "queue_for b s = queue_for c s" and "active_request_for b s = active_request_for c s"
    and "busy_for b s = busy_for c s"
  using assms by (auto simp: same_bus_def queue_for_def active_request_for_def busy_for_def)

lemma same_bus_trans: "same_bus b c \<Longrightarrow> same_bus b d = same_bus c d"
  by (auto simp: same_bus_def)

lemma same_bus_refl [simp]: "same_bus b b"
  by (simp add: same_bus_def)

lemma same_bus_sym: "same_bus b c = same_bus c b"
  by (auto simp: same_bus_def)

lemma same_bus_inv:
  assumes "same_bus b c"
  shows "bus_inv b s = bus_inv c s"
  unfolding bus_inv_def same_bus_accessors [OF assms] same_bus_trans [OF assms] ..

lemma spi_inv_bus: "spi_inv s \<longleftrightarrow> (\<forall>b. bus_inv b s)"
proof -
  have "same_bus b SPI0_BASE \<or> same_bus b SPI1_BASE" for b
    by (simp add: same_bus_def)
  then show ?thesis unfolding spi_inv_def using same_bus_inv by metis
qed

lemma spi_inv_static: "spi_inv spi_static"
  by (simp add: spi_inv_def bus_inv_def spi_static_def queue_for_def busy_for_def
      active_request_for_def)

lemma ax_start_transfer [simp]: "ax (spi_start_transfer P base tx n e) = ax e"
proof -
  have "ax (fold (\<lambda>b. mmio_write P a (ucast b)) (bs :: u8 list) e) = ax e" for a bs e
    by (induction bs arbitrary: e) simp_all
  then show ?thesis by (simp add: spi_start_transfer_def Let_def)
qed

lemma ax_read_rxd [simp]: "ax (read_rxd P base dest n e) = ax e"
  by (induction n arbitrary: dest e) (simp_all add: case_prod_beta Let_def)

lemma pop_transfer_cases:
  assumes "bus_inv b s"
  obtains q where "pop_transfer_request b d s = (False, d, set_queue_for b q s)" "dq_inv q"
      "q_list (queue_for b s) = []" "q_list q = []"
    | r q where "pop_transfer_request b d s = (True, r, set_queue_for b q s)" "dq_inv q"
      "q_list (queue_for b s) = r # q_list q"
proof (cases "q_list (queue_for b s)")
  case Nil
  then obtain q where "pop_from_isr d (queue_for b s) = (False, d, q)" "dq_inv q" "q_list q = []"
    using dq.deq_empty [of "queue_for b s" d] assms by (auto simp: bus_inv_def)
  with Nil show ?thesis by (intro that(1) [of q]) (simp_all add: pop_transfer_request_def)
next
  case (Cons r rs)
  then obtain q where "pop_from_isr d (queue_for b s) = (True, r, q)" "dq_inv q" "q_list q = rs"
    using dq.deq_Cons [of "queue_for b s" r rs d] assms by (auto simp: bus_inv_def)
  with Cons show ?thesis by (intro that(2) [of r q]) (simp_all add: pop_transfer_request_def)
qed

lemma bus_requests_append: "bus_requests b (xs @ ys) = bus_requests b xs @ bus_requests b ys"
  by (simp add: bus_requests_def)

text \<open>What a step does to the state of one bus; the environment is looked at separately.\<close>

lemma submit_bus:
  assumes "spi_inv s" and "queue_transfer_request P c h tx rx s e = (ok, s', e')"
  shows "spi_inv s'" and "ok \<longleftrightarrow> length (q_list (queue_for c s)) < 8"
    and "spi_jobs b s' = spi_jobs b s @
      (if ok \<and> same_bus b c then [\<lparr>tr_spi_base = c, tr_handle = h, tr_tx_data = tx, tr_rx_data = rx\<rparr>]
       else [])"
proof -
  let ?r = "\<lparr>tr_spi_base = c, tr_handle = h, tr_tx_data = tx, tr_rx_data = rx\<rparr>"
  define q where "q = snd (push_from_isr ?r (queue_for c s))"
  have c: "bus_inv c s" using assms(1) by (simp add: spi_inv_bus)
  then have inv: "dq_inv (queue_for c s)" by (simp add: bus_inv_def)
  have s': "s' = set_queue_for c q s" and ok: "ok = fst (push_from_isr ?r (queue_for c s))"
    using assms(2) by (auto simp: queue_transfer_request_def Let_def case_prod_beta q_def)
  show ok8: "ok \<longleftrightarrow> length (q_list (queue_for c s)) < 8" using ok inv by (simp add: dq_simps)
  have q: "dq_inv q" "q_list q = q_list (queue_for c s) @ (if ok then [?r] else [])"
    using inv ok8 by (simp_all add: q_def dq_simps)
  have "bus_inv b s'" for b
    using assms(1) c q same_bus_accessors [of b c s] same_bus_trans [of b c]
    by (cases "same_bus b c") (auto simp: spi_inv_bus bus_inv_def s')
  then show "spi_inv s'" by (simp add: spi_inv_bus)
  show "spi_jobs b s' = spi_jobs b s @ (if ok \<and> same_bus b c then [?r] else [])"
    using q same_bus_accessors [of b c s] by (auto simp: spi_jobs_def s')
qed

lemma start_bus:
  assumes "spi_inv s" and "try_start_next_transfer P c s e = (s', e')"
  shows "spi_inv s'" and "spi_jobs b s' = spi_jobs b s"
    and "busy_for c s' \<or> q_list (queue_for c s') = []"
proof -
  have c: "bus_inv c s" using assms(1) by (simp add: spi_inv_bus)
  have keep: "spi_inv s' \<and> spi_jobs b s' = spi_jobs b s \<and>
      (busy_for c s' \<or> q_list (queue_for c s') = [])"
  proof (cases "busy_for c s")
    case True
    then have "s' = s" using assms(2) by (simp add: try_start_next_transfer_def case_prod_beta)
    with True assms(1) show ?thesis by simp
  next
    case False
    show ?thesis
    proof (cases rule: pop_transfer_cases [OF c, of TransferRequest_default])
      case (1 q)
      then have s': "s' = set_queue_for c q s"
        using assms(2) False by (simp add: try_start_next_transfer_def case_prod_beta)
      have "bus_inv b s'" for b
        using assms(1) c 1 same_bus_accessors [of b c s] same_bus_trans [of b c]
        by (cases "same_bus b c") (auto simp: spi_inv_bus bus_inv_def s')
      with 1 False show ?thesis
        using same_bus_accessors [of b c s] by (auto simp: spi_inv_bus spi_jobs_def s')
    next
      case (2 r q)
      then have s': "s' = set_active_request_for c r (set_busy_for c True (set_queue_for c q s))"
        using assms(2) False by (simp add: try_start_next_transfer_def case_prod_beta)
      have "bus_inv b s'" for b
        using assms(1) c 2 same_bus_accessors [of b c s] same_bus_trans [of b c]
        by (cases "same_bus b c") (auto simp: spi_inv_bus bus_inv_def s')
      with 2 False show ?thesis
        using same_bus_accessors [of b c s] by (auto simp: spi_inv_bus spi_jobs_def s')
    qed
  qed
  then show "spi_inv s'" "spi_jobs b s' = spi_jobs b s"
    "busy_for c s' \<or> q_list (queue_for c s') = []" by auto
qed

lemma complete_bus:
  assumes "spi_inv s" and "complete_transfer_from_isr P c s e = (s', e')"
  shows "spi_inv s'"
    and "spi_jobs b s = (if busy_for c s \<and> same_bus b c then [active_request_for c s] else []) @
      spi_jobs b s'"
proof -
  have c: "bus_inv c s" using assms(1) by (simp add: spi_inv_bus)
  have "spi_inv s' \<and> spi_jobs b s =
      (if busy_for c s \<and> same_bus b c then [active_request_for c s] else []) @ spi_jobs b s'"
  proof (cases rule: pop_transfer_cases [OF c, of TransferRequest_default])
    case (1 q)
    then have s': "s' = set_active_request_for c TransferRequest_default
        (set_busy_for c False (set_queue_for c q s))"
      using assms(2) by (simp add: complete_transfer_from_isr_def Let_def)
    have "bus_inv b s'" for b
      using assms(1) c 1 same_bus_accessors [of b c s] same_bus_trans [of b c]
      by (cases "same_bus b c") (auto simp: spi_inv_bus bus_inv_def s')
    with 1 show ?thesis
      using same_bus_accessors [of b c s] by (auto simp: spi_inv_bus spi_jobs_def s')
  next
    case (2 r q)
    then have s': "s' = set_active_request_for c r (set_busy_for c True (set_queue_for c q s))"
      using assms(2) by (simp add: complete_transfer_from_isr_def Let_def)
    have "bus_inv b s'" for b
      using assms(1) c 2 same_bus_accessors [of b c s] same_bus_trans [of b c]
      by (cases "same_bus b c") (auto simp: spi_inv_bus bus_inv_def s')
    with 2 show ?thesis
      using same_bus_accessors [of b c s] by (auto simp: spi_inv_bus spi_jobs_def s')
  qed
  then show "spi_inv s'" and "spi_jobs b s =
      (if busy_for c s \<and> same_bus b c then [active_request_for c s] else []) @ spi_jobs b s'" by auto
qed

lemma spi_step_order:
  assumes "spi_inv s" and "spi_step P ev (s, e) = (acc, fin, s', e')"
  shows "spi_inv s'" and "spi_jobs b s @ bus_requests b acc = bus_requests b fin @ spi_jobs b s'"
proof -
  have "spi_inv s' \<and> spi_jobs b s @ bus_requests b acc = bus_requests b fin @ spi_jobs b s'"
  proof (cases ev)
    case (Submit r)
    obtain ok where q: "queue_transfer_request P (tr_spi_base r) (tr_handle r) (tr_tx_data r)
        (tr_rx_data r) s e = (ok, s', e')" and r: "acc = (if ok then [r] else [])" "fin = []"
      using assms(2) Submit by (auto split: prod.splits)
    show ?thesis using submit_bus [OF assms(1) q] r by (simp add: bus_requests_def)
  next
    case (Start c)
    then show ?thesis using assms(2) start_bus [OF assms(1), of P c e s' e'] by (auto simp: bus_requests_def)
  next
    case (Tc_interrupt c)
    then have q: "complete_transfer_from_isr P c s e = (s', e')"
      and r: "acc = []" "fin = (if busy_for c s then [active_request_for c s] else [])"
      using assms(2) by auto
    have "busy_for c s \<Longrightarrow> same_bus c (tr_spi_base (active_request_for c s))"
      using assms(1) by (simp add: spi_inv_bus bus_inv_def)
    then have "busy_for c s \<Longrightarrow> same_bus b (tr_spi_base (active_request_for c s)) = same_bus b c"
      by (auto simp: same_bus_def)
    then show ?thesis using complete_bus [OF assms(1) q] r by (auto simp: bus_requests_def)
  qed
  then show "spi_inv s'" "spi_jobs b s @ bus_requests b acc = bus_requests b fin @ spi_jobs b s'" by auto
qed

text \<open>A busy bus stays busy while requests are left, and a start attempt or an interrupt never leaves a request behind on an
  idle bus.\<close>

lemma complete_settles:
  assumes "spi_inv s" and "complete_transfer_from_isr P c s e = (s', e')"
  shows "bus_settled c s'"
proof -
  have c: "bus_inv c s" using assms(1) by (simp add: spi_inv_bus)
  show ?thesis
    using assms(2)
    by (cases rule: pop_transfer_cases [OF c, of TransferRequest_default])
      (auto simp: complete_transfer_from_isr_def Let_def bus_settled_def)
qed

lemma other_bus_kept:
  assumes "\<not> same_bus b c"
  shows "queue_transfer_request P c h tx rx s e = (ok, s', e') \<Longrightarrow> bus_settled b s' = bus_settled b s \<and> busy_for b s' = busy_for b s"
    and "try_start_next_transfer P c s e = (s', e') \<Longrightarrow> bus_settled b s' = bus_settled b s \<and> busy_for b s' = busy_for b s"
    and "complete_transfer_from_isr P c s e = (s', e') \<Longrightarrow> bus_settled b s' = bus_settled b s \<and> busy_for b s' = busy_for b s"
  using assms
  by (auto simp: queue_transfer_request_def try_start_next_transfer_def complete_transfer_from_isr_def
      pop_transfer_request_def bus_settled_def case_prod_beta Let_def split: if_splits)

lemma same_bus_settled: "same_bus b c \<Longrightarrow> bus_settled b s = bus_settled c s"
  unfolding bus_settled_def using same_bus_accessors by metis

lemma spi_step_settles:
  assumes "spi_inv s" and "spi_step P ev (s, e) = (acc, fin, s', e')"
    and "busy_for b s \<or> bus_settled b s \<and> \<not> submits_on b (Some ev) \<or> starts_on b (Some ev)"
  shows "bus_settled b s'"
proof (cases ev)
  case (Submit r)
  then obtain ok where q: "queue_transfer_request P (tr_spi_base r) (tr_handle r) (tr_tx_data r)
      (tr_rx_data r) s e = (ok, s', e')"
    using assms(2) by (auto split: prod.splits)
  have "busy_for b s' = busy_for b s" using q by (auto simp: queue_transfer_request_def case_prod_beta Let_def)
  then show ?thesis
    using assms(3) Submit other_bus_kept(1) [OF _ q, of b]
    by (cases "same_bus b (tr_spi_base r)") (auto simp: submits_on_def starts_on_def bus_settled_def)
next
  case (Start c)
  then have q: "try_start_next_transfer P c s e = (s', e')" using assms(2) by simp
  show ?thesis
  proof (cases "same_bus b c")
    case True
    then show ?thesis using start_bus(3) [OF assms(1) q] same_bus_settled by (auto simp: bus_settled_def)
  next
    case False
    then show ?thesis
      using other_bus_kept(2) [OF False q] assms(3) Start by (auto simp: starts_on_def bus_settled_def)
  qed
next
  case (Tc_interrupt c)
  then have q: "complete_transfer_from_isr P c s e = (s', e')" using assms(2) by simp
  show ?thesis
  proof (cases "same_bus b c")
    case True
    then show ?thesis using complete_settles [OF assms(1) q] same_bus_settled by blast
  next
    case False
    then show ?thesis
      using other_bus_kept(3) [OF False q] assms(3) Tc_interrupt by (auto simp: starts_on_def bus_settled_def)
  qed
qed

lemma submit_accepted:
  assumes "spi_inv s" and "length (spi_jobs (tr_spi_base r) s) < 8"
  shows "\<exists>s' e'. spi_step P (Submit r) (s, e) = ([r], [], s', e')"
proof -
  obtain ok s' e' where q: "queue_transfer_request P (tr_spi_base r) (tr_handle r) (tr_tx_data r)
      (tr_rx_data r) s e = (ok, s', e')"
    by (metis prod.exhaust)
  have "length (q_list (queue_for (tr_spi_base r) s)) < 8" using assms(2) by (simp add: spi_jobs_def)
  then show ?thesis using submit_bus(2) [OF assms(1) q] q by simp
qed

lemma concat_spi_handles: "concat (map spi_handles rs) = map tr_handle (filter (\<lambda>r. tr_handle r \<noteq> 0) rs)"
  by (induction rs) (auto simp: spi_handles_def)

lemma spi_step_finishes:
  assumes "spi_inv s" and "spi_step P ev (s, e) = (acc, fin, s', e')" and "busy_for b s"
    and "completes_on b (Some ev)"
  shows "bus_requests b fin \<noteq> []"
proof -
  obtain c where c: "ev = Tc_interrupt c" "same_bus b c" using assms(4) by (cases ev) (auto simp: completes_on_def)
  then have "busy_for c s" "active_request_for b s = active_request_for c s"
    using assms(3) same_bus_accessors by auto
  moreover have "same_bus b (tr_spi_base (active_request_for b s))"
    using assms(1,3) by (simp add: spi_inv_bus bus_inv_def)
  ultimately show ?thesis using assms(2) c(1) by (auto simp: bus_requests_def)
qed

context dispatcher
begin

lemma log_submit:
  "queue_transfer_request P c h tx rx s e = (ok, s', e') \<Longrightarrow> log (ax e') = log (ax e)"
  by (auto simp: queue_transfer_request_def case_prod_beta Let_def)

lemma log_start: "try_start_next_transfer P c s e = (s', e') \<Longrightarrow> log (ax e') = log (ax e)"
  using log_of_irq(1) [of e]
  by (auto simp: try_start_next_transfer_def case_prod_beta Let_def split: if_splits)

lemma log_complete:
  "complete_transfer_from_isr P c s e = (s', e') \<Longrightarrow> log (ax e') =
    log (ax e) @ (if tr_handle (active_request_for c s) \<noteq> 0 then [tr_handle (active_request_for c s)] else [])"
  by (auto simp: complete_transfer_from_isr_def case_prod_beta Let_def split: if_splits)

lemma spi_step_log:
  assumes "spi_inv s" and "spi_step P ev (s, e) = (acc, fin, s', e')"
  shows "log (ax e') = log (ax e) @ map tr_handle (filter (\<lambda>r. tr_handle r \<noteq> 0) fin)"
proof (cases ev)
  case (Submit r)
  then show ?thesis using assms(2) log_submit by (auto split: prod.splits)
next
  case (Start c)
  then show ?thesis using assms(2) log_start by auto
next
  case (Tc_interrupt c)
  then have q: "complete_transfer_from_isr P c s e = (s', e')"
    and r: "fin = (if busy_for c s then [active_request_for c s] else [])"
    using assms(2) by auto
  have "\<not> busy_for c s \<Longrightarrow> tr_handle (active_request_for c s) = 0"
    using assms(1) by (simp add: spi_inv_bus bus_inv_def TransferRequest_default_def)
  then show ?thesis using log_complete [OF q] r by auto
qed

lemma spi_run_order:
  assumes "spi_inv s" and "spi_run P evs (s, e) = (acc, fin, s', e')"
  shows "spi_inv s' \<and> spi_jobs b s @ bus_requests b acc = bus_requests b fin @ spi_jobs b s' \<and>
    log (ax e') = log (ax e) @ map tr_handle (filter (\<lambda>r. tr_handle r \<noteq> 0) fin)"
  using assms
proof (induction evs arbitrary: s e acc fin)
  case Nil
  then show ?case by (simp add: bus_requests_def)
next
  case (Cons ev evs)
  obtain a f s1 e1 where one: "spi_step P ev (s, e) = (a, f, s1, e1)" by (metis prod.exhaust)
  obtain as fs where rest: "spi_run P evs (s1, e1) = (as, fs, s', e')" "acc = a @ as" "fin = f @ fs"
    using Cons.prems(2) one by (auto split: prod.splits)
  note first = spi_step_order [OF Cons.prems(1) one] spi_step_log [OF Cons.prems(1) one]
  have "spi_jobs b s @ bus_requests b acc =
      (spi_jobs b s @ bus_requests b a) @ bus_requests b as"
    using rest(2) by (simp add: bus_requests_append)
  also have "\<dots> = bus_requests b f @ (spi_jobs b s1 @ bus_requests b as)"
    using first by simp
  finally show ?case
    using first Cons.IH [OF _ rest(1)] rest by (simp add: bus_requests_append)
qed

end

text \<open>Each bus is a server that works while it is busy.\<close>

sublocale dispatcher \<subseteq> spi_server: working_server "spi_bus_step P log b" "spi_inv \<circ> fst" "spi_jobs b \<circ> fst"
  "\<lambda>s. log (ax (snd s))" spi_handles "\<lambda>s. busy_for b (fst s)" "completes_on b" for b
proof
  fix s s' :: "spi \<times> ('h, 'x) env" and ev a f
  assume step: "spi_bus_step P log b s ev a f s'" and inv: "(spi_inv \<circ> fst) s"
  show "(spi_inv \<circ> fst) s'" using step inv by cases (auto intro: spi_step_order(1))
  show "(spi_jobs b \<circ> fst) s @ a = f @ (spi_jobs b \<circ> fst) s'"
    using step inv by cases (auto intro: spi_step_order(2))
  show "\<exists>ps. log (ax (snd s')) = log (ax (snd s)) @ ps \<and>
      subseq (concat (map spi_handles f)) ps"
    using step
  proof cases
    case (driver ev s1 e acc fin s2 e')
    have "subseq (map tr_handle (filter (\<lambda>r. tr_handle r \<noteq> 0) f)) (map tr_handle (filter (\<lambda>r. tr_handle r \<noteq> 0) fin))"
      unfolding driver(4) bus_requests_def by (intro subseq_map subseq_filter subseq_filter_left)
    with driver spi_step_log [OF _ driver(6)] inv show ?thesis by (auto simp: concat_spi_handles)
  qed auto
  show "f \<noteq> []" if "busy_for b (fst s)" "completes_on b ev"
    using step that inv
    by cases (use spi_step_finishes in \<open>fastforce simp: completes_on_def split: option.splits\<close>)+
  show "busy_for b (fst s')" if "busy_for b (fst s)" "(spi_jobs b \<circ> fst) s' \<noteq> []"
    using step
  proof cases
    case (driver ev s1 e acc fin s2 e')
    then have "bus_settled b s2" using spi_step_settles [OF _ driver(6)] inv that(1) by simp
    with that(2) driver show ?thesis by (auto simp: bus_settled_def spi_jobs_def split: if_splits)
  qed (use that in auto)
qed

context dispatcher
begin

lemma spi_run_settles:
  "served_run (spi_bus_step P log b) x evs acc fin y \<Longrightarrow> (spi_inv \<circ> fst) x \<Longrightarrow> submissions_started b evs \<Longrightarrow>
    bus_settled b (fst x) \<or> list_ex (starts_on b) evs \<Longrightarrow> bus_settled b (fst y)"
proof (induction rule: served_run.induct)
  case (more x ev a f x1 evs as fs y)
  have inv: "(spi_inv \<circ> fst) x1" by (rule spi_server.step_inv [OF more.hyps(1) more.prems(1)])
  have "bus_settled b (fst x1) \<or> list_ex (starts_on b) evs"
    using more.hyps(1)
  proof cases
    case (driver ev s1 e acc fin s2 e')
    then show ?thesis
      using spi_step_settles [OF _ driver(6), of b] more.prems by auto
  next
    case (elsewhere l e ps s h r)
    moreover have "\<not> starts_on b None" by (simp add: starts_on_def)
    ultimately show ?thesis using more.prems(3) by auto
  qed
  then show ?case using more.IH [OF inv] more.prems(2) by simp
qed simp

lemma spi_served:
  assumes "served_run (spi_bus_step P log b) (spi_static, e0) evs acc fin (s, e)" and "submissions_started b evs"
    and "served_run (spi_bus_step P log b) (s, e) evs' acc' fin' (s', e')"
    and "i < length (spi_jobs b s)" and "i < length (filter (completes_on b) evs')"
  shows "acc = fin @ spi_jobs b s" and "take (Suc i) fin' = take (Suc i) (spi_jobs b s)"
    and "\<exists>ps. log (ax e') = log (ax e) @ ps \<and> subseq (concat (map spi_handles (take (Suc i) (spi_jobs b s)))) ps"
proof -
  have inv: "(spi_inv \<circ> fst) (spi_static, e0)" by (simp add: spi_inv_static)
  have idle: "spi_jobs b spi_static = []" "bus_settled b spi_static"
    by (simp_all add: spi_jobs_def bus_settled_def spi_static_def busy_for_def queue_for_def)
  have "bus_settled b s" using spi_run_settles [OF assms(1) inv assms(2)] idle(2) by simp
  then have w: "busy_for b (fst (s, e))" and i: "i < length ((spi_jobs b \<circ> fst) (s, e))"
    using assms(4) by (auto simp: bus_settled_def spi_jobs_def split: if_splits)
  note later = spi_server.run_inv [OF assms(1) inv]
  show "acc = fin @ spi_jobs b s" using spi_server.run_order [OF assms(1) inv] idle(1) by simp
  show "take (Suc i) fin' = take (Suc i) (spi_jobs b s)"
    using spi_server.request_finished [OF assms(3) later w i assms(5)] by simp
  show "\<exists>ps. log (ax e') = log (ax e) @ ps \<and> subseq (concat (map spi_handles (take (Suc i) (spi_jobs b s)))) ps"
    using spi_server.request_resumed [OF assms(3) later w i assms(5)] by simp
qed

end

lemma spi_run_served:
  "spi_run P evs (s, e) = (acc, fin, s', e') \<Longrightarrow>
    served_run (spi_bus_step P log b) (s, e) (map Some evs) (bus_requests b acc) (bus_requests b fin) (s', e')"
proof (induction evs arbitrary: s e acc fin)
  case Nil
  then show ?case by (simp add: bus_requests_def served_run.stop)
next
  case (Cons ev evs)
  obtain a f s1 e1 where one: "spi_step P ev (s, e) = (a, f, s1, e1)" by (metis prod.exhaust)
  obtain as fs where rest: "spi_run P evs (s1, e1) = (as, fs, s', e')" "acc = a @ as" "fin = f @ fs"
    using Cons.prems one by (auto split: prod.splits)
  show ?case
    using served_run.more [of "spi_bus_step P log b", OF spi_bus_step.driver [OF one] Cons.IH [OF rest(1)]] rest(2,3)
    by (simp add: bus_requests_append)
qed

declare cdr1_loop.simps [simp del]

lemma cdr1_loop_props:
  assumes "unat c \<le> 15"
  shows "unat c \<le> unat (cdr1_loop t cur c) \<and> unat (cdr1_loop t cur c) \<le> 15 \<and>
    (unat cur div 2 ^ (unat (cdr1_loop t cur c) - unat c) \<le> unat t \<or> unat (cdr1_loop t cur c) = 15) \<and>
    (\<forall>j < unat (cdr1_loop t cur c) - unat c. unat t < unat cur div 2 ^ j)"
  using assms
proof (induction t cur c rule: cdr1_loop.induct)
  case (1 t cur c)
  show ?case
  proof (cases "cur > t \<and> c < 15")
    case False
    then show ?thesis
      using "1.prems" by (auto simp: cdr1_loop.simps [of t cur c] word_less_nat_alt not_less)
  next
    case True
    let ?r = "cdr1_loop t (drop_bit 1 cur) (c + 1)"
    have c: "unat (c + 1) = Suc (unat c)" using unat_Suc_no_wrap [of c 15] True by simp
    have d: "unat (drop_bit 1 cur) div 2 ^ j = unat cur div 2 ^ Suc j" for j
      unfolding unat_drop_bit_eq by (simp add: drop_bit_eq_div div_mult2_eq)
    have lt: "unat c < 15" "unat t < unat cur" using True by (simp_all add: word_less_nat_alt)
    have IH: "Suc (unat c) \<le> unat ?r" "unat ?r \<le> 15"
      "unat cur div 2 ^ Suc (unat ?r - Suc (unat c)) \<le> unat t \<or> unat ?r = 15"
      "\<forall>j < unat ?r - Suc (unat c). unat t < unat cur div 2 ^ Suc j"
      using "1.IH" [OF True] c lt d by simp_all
    have e: "Suc (unat ?r - Suc (unat c)) = unat ?r - unat c" using IH(1) by simp
    have "unat t < unat cur div 2 ^ j" if "j < unat ?r - unat c" for j
      using that IH(4) lt(2) IH(1) by (cases j) auto
    moreover have "cdr1_loop t cur c = ?r" by (simp add: cdr1_loop.simps [of t cur c] True)
    ultimately show ?thesis using IH(1,2,3) unfolding e by auto
  qed
qed

lemma quotient_exact_iff_dvd:
  fixes t p :: nat
  shows "t * (2 * (p div (2 * t))) \<le> p \<and> (t * (2 * (p div (2 * t))) = p \<longleftrightarrow> 2 * t dvd p)"
proof -
  have "t * (2 * (p div (2 * t))) = 2 * t * (p div (2 * t))" by simp
  then show ?thesis
    using times_div_less_eq_dividend [of "2 * t" p] dvd_mult_div_cancel [of "2 * t" p] by (metis dvd_triv_left)
qed

lemma spi_fields:
  assumes "unat k \<le> 15"
  shows "bit (push_bit 12 1 OR push_bit 8 (k AND 0x0F) :: u32) 12"
    and "drop_bit 8 (push_bit 12 1 OR push_bit 8 (k AND 0x0F) :: u32) AND 0x0F = k"
proof -
  have m: "(0x0F :: u32) = mask 4" by (simp add: mask_eq_exp_minus_1)
  have "unat (take_bit 4 k) = unat k mod 16"
    unfolding unsigned_take_bit_eq by (simp add: take_bit_eq_mod)
  then have "k = take_bit 4 k" using assms unfolding word_unat_eq_iff by simp
  then have k: "bit k n \<Longrightarrow> n < 4" for n by (metis bit_take_bit_iff)
  show "bit (push_bit 12 1 OR push_bit 8 (k AND 0x0F) :: u32) 12"
    unfolding bit_or_iff bit_push_bit_1 by simp
  show "drop_bit 8 (push_bit 12 1 OR push_bit 8 (k AND 0x0F) :: u32) AND 0x0F = k"
  proof (rule bit_word_eqI)
    fix n
    assume "n < LENGTH(32)"
    then show "bit (drop_bit 8 (push_bit 12 1 OR push_bit 8 (k AND 0x0F) :: u32) AND 0x0F) n = bit k n"
      using k [of n]
      unfolding m bit_and_iff bit_drop_bit_eq bit_or_iff bit_push_bit_iff bit_mask_iff comp_def
        bit_1_iff by auto
  qed
qed

text \<open>The receive FIFO as the completion handler sees it: each load of \<^verbatim>\<open>RXD\<close> takes the next byte.\<close>

locale spi_rx_fifo =
  fixes P :: "('h, 'x) platform"
    and base :: u32
    and stream :: "'h \<Rightarrow> u8 list"
  assumes rd_rxd: "stream h \<noteq> [] \<Longrightarrow> bus_rd P (base + SPI_RXD) h = (v, h') \<Longrightarrow>
      stream h = ucast v # stream h'"
    and wr_isr: "stream (bus_wr P (base + SPI_ISR) v h) = stream h"
begin

lemma read_rxd_stores:
  "n \<le> length (stream (hw e)) \<Longrightarrow>
    ram (read_rxd P base dest n e) = store_bytes dest (take n (stream (hw e))) (ram e) \<and>
    stream (hw (read_rxd P base dest n e)) = drop n (stream (hw e))"
proof (induction n arbitrary: dest e)
  case 0
  then show ?case by simp
next
  case (Suc n)
  obtain v h1 where r: "bus_rd P (base + SPI_RXD) (hw e) = (v, h1)" by fastforce
  then have s: "stream (hw e) = ucast v # stream h1" using rd_rxd [OF _ r] Suc.prems by fastforce
  let ?e1 = "store_u8 dest (ucast v) (e\<lparr>hw := h1\<rparr>)"
  have "read_rxd P base dest (Suc n) e = read_rxd P base (dest + 1) n ?e1"
    by (simp add: mmio_read_def r)
  then show ?case using Suc.IH [of ?e1 "dest + 1"] Suc.prems s by (simp add: store_u8_def fun_upd_def)
qed

end

lemma ram_start_transfer [simp]: "ram (spi_start_transfer P base tx n e) = ram e"
proof -
  have "ram (fold (\<lambda>b. mmio_write P a (ucast b)) (bs :: u8 list) e) = ram e" for a bs e
    by (induction bs arbitrary: e) simp_all
  then show ?thesis by (simp add: spi_start_transfer_def Let_def)
qed

text \<open>An SPI controller with a receive FIFO, for concrete runs.\<close>

definition spi_platform :: "(u8 list, sim_ax) platform" where
  "spi_platform =
     \<lparr>bus_rd = (\<lambda>a h. if a = SPI0_BASE + SPI_RXD
        then (case h of [] \<Rightarrow> (0, []) | b # bs \<Rightarrow> (ucast b, bs)) else (0, h)),
      bus_wr = (\<lambda>a v h. h), bus_wr8 = (\<lambda>a v h. h), csr_rd = (\<lambda>c h. (0, h)), csr_set = (\<lambda>c m h. h),
      disable_interrupts_save_flags = disable_interrupts_save_flags sim_platform,
      restore_interrupts_flags = restore_interrupts_flags sim_platform,
      taccess = taccess sim_platform, isr_post = isr_post sim_platform,
      timer_service_init = timer_service_init sim_platform,
      timer_service_tick = timer_service_tick sim_platform,
      timer_service_sleep_ms = timer_service_sleep_ms sim_platform\<rparr>"

definition spi_env :: "u8 list \<Rightarrow> (u8 list, sim_ax) env" where
  "spi_env rx = \<lparr>hw = rx, ax = ax sim_env, ram = ram sim_env\<rparr>"

interpretation spi_sim: spi_rx_fifo spi_platform SPI0_BASE id
  by unfold_locales (auto simp: spi_platform_def split: list.splits)

interpretation spi_log: dispatcher spi_platform posted
  by unfold_locales (simp_all add: spi_platform_def sim_access_def)

subsection \<open>Properties\<close>

text \<open>Transfers complete in the order they were accepted, on each bus and whatever the
  interleaving of submissions, start attempts and transfer-complete interrupts, spurious ones
  included: starting idle, the accepted requests of a bus are exactly the completed ones followed
  by the active and the waiting ones, and the coroutines resumed are exactly those of the
  completed requests, each once and in order.\<close>

theorem spi_transfers_complete_in_order:
  assumes "dispatcher P log" and "spi_run P evs (spi_static, e) = (accepted, completed, s', e')"
  shows "spi_inv s' \<and> bus_requests b accepted = bus_requests b completed @ spi_jobs b s' \<and>
    log (ax e') = log (ax e) @ map tr_handle (filter (\<lambda>r. tr_handle r \<noteq> 0) completed)"
proof -
  have "spi_jobs b spi_static = []"
    by (simp add: spi_jobs_def spi_static_def busy_for_def queue_for_def)
  then show ?thesis
    using dispatcher.spi_run_order [OF assms(1) spi_inv_static assms(2), of b] by simp
qed

definition example_transfer :: "handle \<Rightarrow> TransferRequest" where
  "example_transfer h = \<lparr>tr_spi_base = SPI0_BASE, tr_handle = h, tr_tx_data = empty_span,
     tr_rx_data = \<lparr>sp_data = 0x81000, sp_size = 1\<rparr>\<rparr>"

theorem spi_transfers_complete_in_order_witness:
  "\<exists>accepted completed s' e'.
     spi_run spi_platform [Submit (example_transfer 1), Tc_interrupt SPI0_BASE,
       Submit (example_transfer 2), Start SPI0_BASE, Tc_interrupt SPI0_BASE] (spi_static, spi_env [7, 8]) =
       (accepted, completed, s', e') \<and>
     posted (ax e') = map tr_handle (filter (\<lambda>r. tr_handle r \<noteq> 0) completed)"
proof -
  obtain acc fin s' e' where r: "spi_run spi_platform [Submit (example_transfer 1),
      Tc_interrupt SPI0_BASE, Submit (example_transfer 2), Start SPI0_BASE, Tc_interrupt SPI0_BASE]
      (spi_static, spi_env [7, 8]) = (acc, fin, s', e')"
    by (metis prod.exhaust)
  moreover have "posted (ax (spi_env [7, 8])) = []" by (simp add: spi_env_def sim_env_def)
  ultimately show ?thesis
    using spi_transfers_complete_in_order [OF spi_log.dispatcher_axioms r] by simp
qed

text \<open>C13. Every transfer is completed: over any run of the driver from its static state in which each submission on a
  bus is followed by its start attempt, the accepted requests are the finished ones followed by the active and the
  waiting ones, and a request with \<open>i\<close> others before it is finished, and its coroutine resumed, by the transfer-complete
  interrupt number \<open>i + 1\<close> of its bus from then on, after those before it, whatever submissions, spurious interrupts
  and other activity come in between.\<close>

theorem spi_requests_complete:
  assumes "dispatcher P log"
    and "served_run (spi_bus_step P log b) (spi_static, e0) evs acc fin (s, e)" and "submissions_started b evs"
    and "served_run (spi_bus_step P log b) (s, e) evs' acc' fin' (s', e')"
    and "i < length (spi_jobs b s)" and "i < length (filter (completes_on b) evs')"
  shows "acc = fin @ spi_jobs b s \<and> take (Suc i) fin' = take (Suc i) (spi_jobs b s) \<and>
    (\<exists>ps. log (ax e') = log (ax e) @ ps \<and> subseq (concat (map spi_handles (take (Suc i) (spi_jobs b s)))) ps)"
  using dispatcher.spi_served [OF assms] by blast

theorem spi_requests_complete_witness:
  "\<exists>s e s' e' ps acc' fin'.
     served_run (spi_bus_step spi_platform posted SPI0_BASE) (spi_static, spi_env [7, 8])
       [Some (Submit (example_transfer 1)), Some (Start SPI0_BASE), Some (Submit (example_transfer 2)), Some (Start SPI0_BASE)]
       [example_transfer 1, example_transfer 2] [] (s, e) \<and>
     served_run (spi_bus_step spi_platform posted SPI0_BASE) (s, e)
       [Some (Tc_interrupt SPI0_BASE), Some (Tc_interrupt SPI0_BASE)] acc' fin' (s', e') \<and>
     take 2 fin' = [example_transfer 1, example_transfer 2] \<and> posted (ax e') = posted (ax e) @ ps \<and> subseq [1, 2] ps"
proof -
  let ?r = example_transfer and ?step = "spi_bus_step spi_platform posted SPI0_BASE"
  let ?evs = "[Submit (?r 1), Start SPI0_BASE, Submit (?r 2), Start SPI0_BASE]"
  let ?tcs = "[Tc_interrupt SPI0_BASE, Tc_interrupt SPI0_BASE]"
  have bus: "bus_requests SPI0_BASE [?r 1, ?r 2] = [?r 1, ?r 2]" by (simp add: bus_requests_def example_transfer_def)
  have base: "tr_spi_base (?r n) = SPI0_BASE" for n by (simp add: example_transfer_def)
  have idle: "spi_jobs SPI0_BASE spi_static = []"
    by (simp add: spi_jobs_def spi_static_def busy_for_def queue_for_def)
  then have "length (spi_jobs (tr_spi_base (?r 1)) spi_static) < 8" by (simp add: base)
  from submit_accepted [OF spi_inv_static this, of spi_platform "spi_env [7, 8]"]
  obtain s1 e1 where s1: "spi_step spi_platform (Submit (?r 1)) (spi_static, spi_env [7, 8]) = ([?r 1], [], s1, e1)"
    by blast
  obtain s2 e2 where s2: "try_start_next_transfer spi_platform SPI0_BASE s1 e1 = (s2, e2)" by fastforce
  note inv1 = spi_step_order(1) [OF spi_inv_static s1] and jobs1 = spi_step_order(2) [OF spi_inv_static s1, of SPI0_BASE, symmetric]
  have "length (spi_jobs (tr_spi_base (?r 2)) s2) < 8"
    using start_bus(2) [OF inv1 s2] jobs1 idle by (simp add: bus_requests_def base)
  from submit_accepted [OF start_bus(1) [OF inv1 s2] this, of spi_platform e2]
  obtain s3 e3 where s3: "spi_step spi_platform (Submit (?r 2)) (s2, e2) = ([?r 2], [], s3, e3)" by blast
  obtain s e where s4: "try_start_next_transfer spi_platform SPI0_BASE s3 e3 = (s, e)" by fastforce
  have run: "spi_run spi_platform ?evs (spi_static, spi_env [7, 8]) = ([?r 1, ?r 2], [], s, e)"
    using s1 s2 s3 s4 by (simp del: spi_step.simps(1))
  obtain acc' fin' s' e' where run': "spi_run spi_platform ?tcs (s, e) = (acc', fin', s', e')" by (metis prod.exhaust)
  have started: "submissions_started SPI0_BASE (map Some ?evs)"
    by (simp add: submits_on_def starts_on_def)
  have ticks: "1 < length (filter (completes_on SPI0_BASE) (map Some ?tcs))" by (simp add: completes_on_def)
  note first = spi_run_served [OF run, of posted SPI0_BASE, unfolded bus]
    and second = spi_run_served [OF run', of posted SPI0_BASE]
  have jobs: "spi_jobs SPI0_BASE s = [?r 1, ?r 2]"
    using spi_log.spi_run_order [OF spi_inv_static run, of SPI0_BASE] idle bus by (simp add: bus_requests_def)
  have "1 < length (spi_jobs SPI0_BASE s)" by (simp add: jobs)
  note complete = spi_requests_complete [OF spi_log.dispatcher_axioms first started second this ticks]
  have h: "concat (map spi_handles [?r 1, ?r 2]) = [1, 2]" by (simp add: spi_handles_def example_transfer_def)
  obtain ps where "take 2 (bus_requests SPI0_BASE fin') = [?r 1, ?r 2]" "posted (ax e') = posted (ax e) @ ps" "subseq [1, 2] ps"
    using complete unfolding jobs by (auto simp: numeral_2_eq_2 h simp del: concat.simps list.map)
  with first second show ?thesis
    by (intro exI [of _ s] exI [of _ e] exI [of _ s'] exI [of _ e'] exI [of _ ps]) (auto simp: bus_requests_def)
qed

text \<open>A transfer-complete interrupt fills the receive buffer of the active request with exactly
  the next bytes of the receive FIFO, as many as the buffer has room for, writes nothing else, and
  then hands the bus to the next waiting request or leaves it idle.\<close>

theorem spi_interrupt_stores_received_bytes:
  assumes "spi_rx_fifo P base stream" and "spi_inv s"
    and "unat (sp_size (tr_rx_data (active_request_for base s))) \<le> length (stream (hw e))"
    and "complete_transfer_from_isr P base s e = (s', e')"
  shows "ram e' = store_bytes (sp_data (tr_rx_data (active_request_for base s)))
      (take (unat (sp_size (tr_rx_data (active_request_for base s)))) (stream (hw e))) (ram e) \<and>
    (case q_list (queue_for base s) of
       [] \<Rightarrow> \<not> busy_for base s' \<and> spi_jobs base s' = []
     | r # rs \<Rightarrow> busy_for base s' \<and> active_request_for base s' = r \<and> q_list (queue_for base s') = rs)"
proof -
  let ?req = "active_request_for base s"
  let ?e1 = "mmio_write P (base + SPI_ISR) (push_bit 12 1) e"
  have h1: "stream (hw ?e1) = stream (hw e)"
    unfolding mmio_write_def by (simp add: spi_rx_fifo.wr_isr [OF assms(1)])
  have ram2: "ram (read_rxd P base (sp_data (tr_rx_data ?req)) (unat (sp_size (tr_rx_data ?req))) ?e1) =
      store_bytes (sp_data (tr_rx_data ?req)) (take (unat (sp_size (tr_rx_data ?req))) (stream (hw e)))
        (ram e)"
    using spi_rx_fifo.read_rxd_stores [OF assms(1), of "unat (sp_size (tr_rx_data ?req))" ?e1] assms(3)
    unfolding h1 by simp
  have c: "bus_inv base s" using assms(2) by (simp add: spi_inv_bus)
  show ?thesis
  proof (cases rule: pop_transfer_cases [OF c, of TransferRequest_default])
    case (1 q)
    then show ?thesis
      using assms(4) ram2
      by (auto simp: complete_transfer_from_isr_def Let_def spi_jobs_def split: if_splits)
  next
    case (2 r q)
    then show ?thesis
      using assms(4) ram2
      by (auto simp: complete_transfer_from_isr_def Let_def split: if_splits)
  qed
qed

theorem spi_interrupt_stores_received_bytes_witness:
  "ram (snd (complete_transfer_from_isr spi_platform SPI0_BASE
      (set_active_request_for SPI0_BASE (example_transfer 5) (set_busy_for SPI0_BASE True spi_static))
      (spi_env [7, 8]))) 0x81000 = 7"
proof -
  let ?s = "set_active_request_for SPI0_BASE (example_transfer 5)
    (set_busy_for SPI0_BASE True spi_static)"
  have a: "active_request_for SPI0_BASE ?s = example_transfer 5" by simp
  have i: "spi_inv ?s"
    using spi_inv_static by (simp add: spi_inv_def bus_inv_def example_transfer_def same_bus_def)
  have n: "unat (sp_size (tr_rx_data (active_request_for SPI0_BASE ?s))) \<le>
      length (id (hw (spi_env [7, 8])))"
    unfolding a by (simp add: example_transfer_def spi_env_def)
  obtain s' e' where r: "complete_transfer_from_isr spi_platform SPI0_BASE ?s (spi_env [7, 8]) = (s', e')"
    by fastforce
  show ?thesis
    using spi_interrupt_stores_received_bytes [OF spi_sim.spi_rx_fifo_axioms i n r]
    unfolding a by (simp add: r) (simp add: example_transfer_def spi_env_def)
qed

text \<open>The clock divider: for a rate below half of \<open>2 ^ 32\<close>, either the linear divider is used and
  the resulting clock \<open>parent / (2 * (CDR2 + 1))\<close> is at least the requested rate, equal to it
  exactly when it divides the parent clock, or the power-of-two divider is used with the smallest
  exponent that does not exceed the requested rate, at most 15.\<close>

theorem spi_clock_divider:
  assumes "target \<noteq> 0" and "unat target < 2 ^ 31"
  shows "\<exists>ccr. spi_ccr target parent = Inr ccr \<and>
    (let D = unat parent div (2 * unat target)
     in if 1 \<le> D \<and> D \<le> 256
        then unat ccr < 256 \<and> unat target * (2 * (unat ccr + 1)) \<le> unat parent \<and>
          (unat target * (2 * (unat ccr + 1)) = unat parent \<longleftrightarrow> 2 * unat target dvd unat parent)
        else (let k = unat (drop_bit 8 ccr AND 0x0F) in bit ccr 12 \<and> k \<le> 15 \<and>
          (unat parent div 2 ^ k \<le> unat target \<or> k = 15) \<and>
          (\<forall>j < k. unat target < unat parent div 2 ^ j)))"
proof -
  have t: "unat (2 * target) = 2 * unat target" using assms(2) by (simp add: unat_word_ariths)
  have t0: "0 < unat target" using assms(1) by (simp add: unat_gt_0)
  then have nz: "2 * target \<noteq> 0" using t by (metis mult_eq_0_iff unat_0 less_irrefl zero_neq_numeral)
  let ?d = "parent div (2 * target)"
  have d: "unat ?d = unat parent div (2 * unat target)" using t by (simp add: unat_div_distrib)
  have r: "1 \<le> ?d \<and> ?d \<le> 256 \<longleftrightarrow> 1 \<le> unat ?d \<and> unat ?d \<le> 256" by (simp add: word_le_nat_alt)
  show ?thesis
  proof (cases "1 \<le> unat ?d \<and> unat ?d \<le> 256")
    case True
    define D where "D = unat parent div (2 * unat target)"
    have D: "unat ?d = D" "1 \<le> D" "D \<le> 256" using True d by (simp_all add: D_def)
    have c: "unat (?d - 1) + 1 = D" using True D(1) by (subst unat_minus_one) auto
    have "unat target * (2 * D) \<le> unat parent \<and> (unat target * (2 * D) = unat parent \<longleftrightarrow> 2 * unat target dvd unat parent)"
      unfolding D_def by (rule quotient_exact_iff_dvd)
    moreover have "spi_ccr target parent = Inr (?d - 1)"
      using True nz r by (simp add: spi_ccr_def Let_def)
    moreover have "unat (?d - 1) < 256" using c D(3) by linarith
    ultimately show ?thesis
      using D(2,3) unfolding Let_def D_def [symmetric]
      by (intro exI [of _ "?d - 1"]) (simp only: c, simp)
  next
    case False
    let ?k = "cdr1_loop target parent 0"
    have k: "unat ?k \<le> 15" "unat parent div 2 ^ unat ?k \<le> unat target \<or> unat ?k = 15"
      "\<forall>j < unat ?k. unat target < unat parent div 2 ^ j"
      using cdr1_loop_props [of 0 target parent] by auto
    have "spi_ccr target parent = Inr (push_bit 12 1 OR push_bit 8 (?k AND 0x0F))"
      using False nz r unfolding spi_ccr_def Let_def by auto
    then show ?thesis
      using False d k spi_fields [OF k(1)] unfolding Let_def by (metis (no_types, lifting))
  qed
qed

theorem spi_clock_divider_witness:
  "\<exists>ccr. spi_ccr 30000000 200000000 = Inr ccr \<and> 30000000 * (2 * (unat ccr + 1)) \<le> 200000000 \<and>
     30000000 * (2 * (unat ccr + 1)) \<noteq> 200000000"
proof -
  have "\<not> 60000000 dvd (200000000 :: nat)" by (simp add: dvd_eq_mod_eq_0)
  then show ?thesis using spi_clock_divider [of 30000000 200000000] by (auto simp: Let_def)
qed

text \<open>A transfer awaited while eight requests wait is lost: the request is not queued, no state of
  the bus changes, and so, although the coroutine is suspended, its handle is nowhere in the
  driver.\<close>

theorem spi_full_queue_loses_request:
  assumes "spi_inv s" and "busy_for b s" and "length (q_list (queue_for b s)) = 8"
    and "b = load_u32 self (store_u32 (self + 20) h e)"
    and "SpiTransferAwaiter_await_suspend P self h s e = (s', e')"
  shows "spi_jobs b s' = spi_jobs b s \<and> hw e' = hw e"
proof -
  let ?e1 = "store_u32 (self + 20) h e"
  obtain ok s1 e2 where q: "queue_transfer_request P b h (load_span (self + 4) ?e1)
      (load_span (self + 12) ?e1) s ?e1 = (ok, s1, e2)" by (metis prod.exhaust)
  have j: "spi_inv s1" "\<not> ok" "spi_jobs b s1 = spi_jobs b s"
    using submit_bus [OF assms(1) q] assms(3) by simp_all
  have e2: "ram e2 = ram ?e1" "hw e2 = hw e" "busy_for b s1"
    using q assms(2) by (auto simp: queue_transfer_request_def case_prod_beta Let_def)
  have "load_u32 self e2 = b" using e2(1) assms(4) by (simp add: load_u32_def)
  then have t: "try_start_next_transfer P b s1 e2 = (s', e')"
    using assms(5) q unfolding SpiTransferAwaiter_await_suspend_def assms(4) [symmetric] Let_def
    by simp
  then show ?thesis
    using start_bus(2) [OF j(1) t, of b] j(3) e2
    by (auto simp: try_start_next_transfer_def case_prod_beta Let_def)
qed

definition full_bus :: spi where
  "full_bus = set_active_request_for SPI0_BASE (example_transfer 9) (set_busy_for SPI0_BASE True
     (set_queue_for SPI0_BASE (fold (\<lambda>h q. snd (push_from_isr (example_transfer h) q))
        [1, 2, 3, 4, 5, 6, 7, 8] (queue_for SPI0_BASE spi_static)) spi_static))"

theorem spi_full_queue_loses_request_witness:
  "spi_jobs SPI0_BASE (fst (SpiTransferAwaiter_await_suspend spi_platform 0x80100 10 full_bus
      (async_transfer 0x80100 SPI0_BASE empty_span empty_span (spi_env [])))) =
   spi_jobs SPI0_BASE full_bus"
proof -
  let ?e = "async_transfer 0x80100 SPI0_BASE empty_span empty_span (spi_env [])"
  let ?q = "fold (\<lambda>h q. snd (push_from_isr (example_transfer h) q)) [1, 2, 3, 4, 5, 6, 7, 8]
    (queue_for SPI0_BASE spi_static)"
  have q: "dq_inv ?q" "q_list ?q = map example_transfer [1, 2, 3, 4, 5, 6, 7, 8]"
    by (simp_all add: queue_for_def spi_static_def dq_simps)
  have i: "spi_inv full_bus"
    using spi_inv_static q
    by (auto simp: spi_inv_def bus_inv_def full_bus_def example_transfer_def same_bus_def)
  have b: "busy_for SPI0_BASE full_bus" "length (q_list (queue_for SPI0_BASE full_bus)) = 8"
    using q(2) by (simp_all add: full_bus_def)
  have l: "SPI0_BASE = load_u32 0x80100 (store_u32 (0x80100 + 20) 10 ?e)"
    by (simp add: load_u32_def async_transfer_def store_u32_def bytes_of_u32_def u32_of_bytes_def
        memory_map)
  obtain s' e' where r: "SpiTransferAwaiter_await_suspend spi_platform 0x80100 10 full_bus ?e = (s', e')"
    by fastforce
  show ?thesis using spi_full_queue_loses_request [OF i b l r] by (simp add: r)
qed

end
