(* ===== verification/Twi.thy ===== *)
theory Twi
  imports Memory_Map Spsc_Queue
begin

text \<open>
  \<^verbatim>\<open>hal/include/hal_twi.hpp\<close>: the TWI (I2C) master driver, a state machine advanced by one byte per
  interrupt.  Requests wait in a queue per controller; the interrupt that finishes a request
  resumes its coroutine and begins the next one.

  The controller the driver talks to is in \<open>Twi_Bus\<close>.
\<close>

subsection \<open>Data\<close>

datatype TwiResult = Pending | Ok | Nack | BusError

fun TwiResult_code :: "TwiResult \<Rightarrow> u8" where
  "TwiResult_code Pending = 0"
| "TwiResult_code Ok = 1"
| "TwiResult_code Nack = 2"
| "TwiResult_code BusError = 3"

record TwiRequest =
  tw_handle :: handle
  tw_buffer :: u32
  tw_length :: u16
  tw_address :: u8
  tw_reg_addr :: u8
  tw_is_read :: bool
  tw_result :: u32

definition TwiRequest_default :: TwiRequest where
  "TwiRequest_default =
     \<lparr>tw_handle = 0, tw_buffer = 0, tw_length = 0, tw_address = 0, tw_reg_addr = 0,
      tw_is_read = False, tw_result = 0\<rparr>"

record TwiTransferState =
  ts_request :: TwiRequest
  ts_index :: u16
  ts_address :: u8
  ts_reg_addr :: u8
  ts_sent_reg_addr :: bool
  ts_phase_is_read :: bool
  ts_active :: bool

definition TwiTransferState_default :: TwiTransferState where
  "TwiTransferState_default =
     \<lparr>ts_request = TwiRequest_default, ts_index = 0, ts_address = 0, ts_reg_addr = 0,
      ts_sent_reg_addr = False, ts_phase_is_read = False, ts_active = False\<rparr>"

definition TWI_DATA :: u32 where [regs]: "TWI_DATA = 0x08"
definition TWI_CNTR :: u32 where [regs]: "TWI_CNTR = 0x0C"
definition TWI_STAT :: u32 where [regs]: "TWI_STAT = 0x10"
definition TWI_CCR :: u32 where [regs]: "TWI_CCR = 0x14"
definition TWI_SRST :: u32 where [regs]: "TWI_SRST = 0x18"
definition TWI_EFR :: u32 where [regs]: "TWI_EFR = 0x1C"
definition TWI_LCR :: u32 where [regs]: "TWI_LCR = 0x20"

definition CNTR_ACK :: u32 where [regs]: "CNTR_ACK = push_bit 2 1"
definition CNTR_INT_FLAG :: u32 where [regs]: "CNTR_INT_FLAG = push_bit 3 1"
definition CNTR_M_STP :: u32 where [regs]: "CNTR_M_STP = push_bit 4 1"
definition CNTR_M_STA :: u32 where [regs]: "CNTR_M_STA = push_bit 5 1"
definition CNTR_BUS_EN :: u32 where [regs]: "CNTR_BUS_EN = push_bit 6 1"
definition CNTR_INT_EN :: u32 where [regs]: "CNTR_INT_EN = push_bit 7 1"

definition STAT_BUS_ERROR :: u32 where [regs]: "STAT_BUS_ERROR = 0x00"
definition STAT_START :: u32 where [regs]: "STAT_START = 0x08"
definition STAT_REPEAT_START :: u32 where [regs]: "STAT_REPEAT_START = 0x10"
definition STAT_ADDR_W_ACK :: u32 where [regs]: "STAT_ADDR_W_ACK = 0x18"
definition STAT_ADDR_R_ACK :: u32 where [regs]: "STAT_ADDR_R_ACK = 0x40"
definition STAT_DATA_TX_ACK :: u32 where [regs]: "STAT_DATA_TX_ACK = 0x28"
definition STAT_DATA_RX_ACK :: u32 where [regs]: "STAT_DATA_RX_ACK = 0x50"
definition STAT_DATA_RX_NACK :: u32 where [regs]: "STAT_DATA_RX_NACK = 0x58"
definition STAT_IDLE :: u32 where [regs]: "STAT_IDLE = 0xF8"

subsection \<open>Clock and initialisation\<close>

definition scl_diff :: "u32 \<Rightarrow> u32 \<Rightarrow> nat \<Rightarrow> nat \<Rightarrow> u32" where
  "scl_diff target_scl_hz parent_clock_hz n m =
     (let divisor = 10 * push_bit n 1 * (of_nat m + 1);
          actual_scl = parent_clock_hz div divisor
      in if actual_scl > target_scl_hz then actual_scl - target_scl_hz else target_scl_hz - actual_scl)"

definition ccr_code :: "nat \<Rightarrow> nat \<Rightarrow> u32" where
  "ccr_code n m = push_bit 3 (of_nat n AND 0x07) OR (of_nat m AND 0x07)"

definition compute_ccr :: "u32 \<Rightarrow> u32 \<Rightarrow> u32" where
  "compute_ccr target_scl_hz parent_clock_hz =
     (if target_scl_hz = 0 \<or> parent_clock_hz = 0 then 0x11
      else
        snd (fold (\<lambda>n best. fold (\<lambda>m (best_diff, best_ccr).
                     let diff = scl_diff target_scl_hz parent_clock_hz n m
                     in if diff < best_diff then (diff, ccr_code n m) else (best_diff, best_ccr))
                   [0..<8] best)
             [0..<8] (0xFFFFFFFF, 0x11)))"

partial_function (option) wait_reset_done ::
    "('h, 'x) platform \<Rightarrow> u32 \<Rightarrow> ('h, 'x) env \<Rightarrow> ('h, 'x) env option" where
  "wait_reset_done P base e =
     (let (v, e1) = mmio_read P (base + TWI_SRST) e
      in if v AND 1 \<noteq> 0 then wait_reset_done P base e1 else Some e1)"

definition TwiDriver_init ::
    "('h, 'x) platform \<Rightarrow> u32 \<Rightarrow> u32 \<Rightarrow> u32 \<Rightarrow> ('h, 'x) env \<Rightarrow> ('h, 'x) env option" where
  "TwiDriver_init P base target_scl_hz parent_clock_hz e =
     do {
       e1 \<leftarrow> wait_reset_done P base (mmio_write P (base + TWI_SRST) 1 e);
       let e2 = mmio_write P (base + TWI_CCR) (compute_ccr target_scl_hz parent_clock_hz) e1;
       let e3 = mmio_write P (base + TWI_EFR) 0 e2;
       let e4 = mmio_write P (base + TWI_LCR) 0 e3;
       Some (mmio_write P (base + TWI_CNTR) (CNTR_BUS_EN OR CNTR_INT_EN) e4)
     }"

subsection \<open>Driver state\<close>

record twi =
  twi0_queue :: "TwiRequest queue_spsc_isr"
  twi1_queue :: "TwiRequest queue_spsc_isr"
  twi2_queue :: "TwiRequest queue_spsc_isr"
  twi0_state :: TwiTransferState
  twi1_state :: TwiTransferState
  twi2_state :: TwiTransferState

definition twi_static :: twi where
  "twi_static =
     \<lparr>twi0_queue = DriverRequestQueue 8 TwiRequest_default,
      twi1_queue = DriverRequestQueue 8 TwiRequest_default,
      twi2_queue = DriverRequestQueue 8 TwiRequest_default,
      twi0_state = TwiTransferState_default, twi1_state = TwiTransferState_default,
      twi2_state = TwiTransferState_default\<rparr>"

definition twi_queue_for :: "u32 \<Rightarrow> twi \<Rightarrow> TwiRequest queue_spsc_isr" where
  "twi_queue_for base s =
     (if base = S_TWI0_BASE then twi0_queue s else if base = S_TWI1_BASE then twi1_queue s
      else twi2_queue s)"

definition set_twi_queue_for :: "u32 \<Rightarrow> TwiRequest queue_spsc_isr \<Rightarrow> twi \<Rightarrow> twi" where
  "set_twi_queue_for base q s =
     (if base = S_TWI0_BASE then s\<lparr>twi0_queue := q\<rparr>
      else if base = S_TWI1_BASE then s\<lparr>twi1_queue := q\<rparr> else s\<lparr>twi2_queue := q\<rparr>)"

definition state_for :: "u32 \<Rightarrow> twi \<Rightarrow> TwiTransferState" where
  "state_for base s =
     (if base = S_TWI0_BASE then twi0_state s else if base = S_TWI1_BASE then twi1_state s
      else twi2_state s)"

definition set_state_for :: "u32 \<Rightarrow> TwiTransferState \<Rightarrow> twi \<Rightarrow> twi" where
  "set_state_for base st s =
     (if base = S_TWI0_BASE then s\<lparr>twi0_state := st\<rparr>
      else if base = S_TWI1_BASE then s\<lparr>twi1_state := st\<rparr> else s\<lparr>twi2_state := st\<rparr>)"

subsection \<open>Transfers\<close>

definition twi_begin ::
    "('h, 'x) platform \<Rightarrow> u32 \<Rightarrow> TwiRequest \<Rightarrow> twi \<Rightarrow> ('h, 'x) env \<Rightarrow> twi \<times> ('h, 'x) env" where
  "twi_begin P base req s e =
     (set_state_for base
        \<lparr>ts_request = req, ts_index = 0, ts_address = tw_address req, ts_reg_addr = tw_reg_addr req,
         ts_sent_reg_addr = False, ts_phase_is_read = False, ts_active = True\<rparr> s,
      mmio_modify P (base + TWI_CNTR) (\<lambda>c. c OR CNTR_M_STA) e)"

definition twi_start_transfer ::
    "('h, 'x) platform \<Rightarrow> u32 \<Rightarrow> twi \<Rightarrow> ('h, 'x) env \<Rightarrow> twi \<times> ('h, 'x) env" where
  "twi_start_transfer P base s e =
     (if ts_active (state_for base s) then (s, e)
      else
        (let ((ok, req, q), e1) = with_ax (pop (taccess P) TwiRequest_default (twi_queue_for base s)) e;
             s1 = set_twi_queue_for base q s
         in if \<not> ok then (s1, e1) else twi_begin P base req s1 e1))"

definition twi_finish ::
    "('h, 'x) platform \<Rightarrow> u32 \<Rightarrow> TwiResult \<Rightarrow> twi \<Rightarrow> ('h, 'x) env \<Rightarrow> twi \<times> ('h, 'x) env" where
  "twi_finish P base result s e =
     (let e1 = mmio_modify P (base + TWI_CNTR) (\<lambda>c. c OR CNTR_M_STP) e;
          e2 = mmio_modify P (base + TWI_CNTR) (\<lambda>c. c OR CNTR_INT_FLAG) e1;
          st = state_for base s;
          e3 = (if tw_result (ts_request st) \<noteq> 0
                then store_u8 (tw_result (ts_request st)) (TwiResult_code result) e2 else e2);
          h = tw_handle (ts_request st);
          s1 = set_state_for base (st\<lparr>ts_active := False\<rparr>) s;
          e4 = (if h \<noteq> 0 then post P h e3 else e3);
          (ok, next_req, q) = pop_from_isr TwiRequest_default (twi_queue_for base s1);
          s2 = set_twi_queue_for base q s1
      in if ok then twi_begin P base next_req s2 e4 else (s2, e4))"

definition write_next_byte ::
    "('h, 'x) platform \<Rightarrow> u32 \<Rightarrow> twi \<Rightarrow> ('h, 'x) env \<Rightarrow> twi \<times> ('h, 'x) env" where
  "write_next_byte P base s e =
     (let st = state_for base s
      in if ts_index st \<ge> tw_length (ts_request st) then twi_finish P base Ok s e
         else (set_state_for base (st\<lparr>ts_index := ts_index st + 1\<rparr>) s,
               mmio_write P (base + TWI_DATA)
                 (ucast (ram e (tw_buffer (ts_request st) + ucast (ts_index st)))) e))"

definition read_next_byte ::
    "('h, 'x) platform \<Rightarrow> u32 \<Rightarrow> twi \<Rightarrow> ('h, 'x) env \<Rightarrow> twi \<times> ('h, 'x) env" where
  "read_next_byte P base s e =
     (let st = state_for base s;
          (st1, e1) =
            (if ts_index st < tw_length (ts_request st)
             then
               (let (v, e') = mmio_read P (base + TWI_DATA) e
                in (st\<lparr>ts_index := ts_index st + 1\<rparr>,
                    store_u8 (tw_buffer (ts_request st) + ucast (ts_index st)) (ucast v) e'))
             else (st, e));
          e2 = (if (ucast (ts_index st1) + 1 :: u32) \<ge> ucast (tw_length (ts_request st1))
                then mmio_modify P (base + TWI_CNTR) (\<lambda>c. c AND NOT CNTR_ACK) e1 else e1)
      in (set_state_for base st1 s, e2))"

text \<open>The cases of the status; the flag says whether the function returned early.\<close>

definition twi_dispatch ::
    "('h, 'x) platform \<Rightarrow> u32 \<Rightarrow> u32 \<Rightarrow> twi \<Rightarrow> ('h, 'x) env \<Rightarrow> bool \<times> twi \<times> ('h, 'x) env" where
  "twi_dispatch P base status s e =
     (let st = state_for base s in
      if status = STAT_START \<or> status = STAT_REPEAT_START then
        (False, s, mmio_write P (base + TWI_DATA)
           (push_bit 1 (ucast (ts_address st)) OR (if ts_phase_is_read st then 1 else 0)) e)
      else if status = STAT_ADDR_W_ACK then
        (if ts_sent_reg_addr st then (False, write_next_byte P base s e)
         else (False, set_state_for base (st\<lparr>ts_sent_reg_addr := True\<rparr>) s,
               mmio_write P (base + TWI_DATA) (ucast (ts_reg_addr st)) e))
      else if status = STAT_DATA_TX_ACK then
        (if tw_is_read (ts_request st) \<and> ts_sent_reg_addr st \<and> ts_index st = 0
         then (False, set_state_for base (st\<lparr>ts_phase_is_read := True\<rparr>) s,
               mmio_modify P (base + TWI_CNTR) (\<lambda>c. c OR CNTR_M_STA) e)
         else (False, write_next_byte P base s e))
      else if status = STAT_ADDR_R_ACK then
        (False, s, mmio_modify P (base + TWI_CNTR) (\<lambda>c. c OR CNTR_ACK) e)
      else if status = STAT_DATA_RX_ACK then (False, read_next_byte P base s e)
      else if status = STAT_DATA_RX_NACK then
        (let (s1, e1) = read_next_byte P base s e in (True, twi_finish P base Ok s1 e1))
      else if status = STAT_BUS_ERROR then (True, twi_finish P base BusError s e)
      else (True, twi_finish P base Nack s e))"

definition TwiDriver_handle_isr ::
    "('h, 'x) platform \<Rightarrow> u32 \<Rightarrow> twi \<Rightarrow> ('h, 'x) env \<Rightarrow> twi \<times> ('h, 'x) env" where
  "TwiDriver_handle_isr P base s e =
     (let (cntr, e1) = mmio_read P (base + TWI_CNTR) e
      in if cntr AND CNTR_INT_FLAG = 0 then (s, e1)
         else
           (let (status, e2) = mmio_read P (base + TWI_STAT) e1;
                (returned, s1, e3) = twi_dispatch P base status s e2
            in if returned then (s1, e3)
               else (s1, mmio_modify P (base + TWI_CNTR) (\<lambda>c. c OR CNTR_INT_FLAG) e3)))"

subsection \<open>Awaiters\<close>

definition twi_queue_request ::
    "('h, 'x) platform \<Rightarrow> u32 \<Rightarrow> TwiRequest \<Rightarrow> twi \<Rightarrow> ('h, 'x) env \<Rightarrow> bool \<times> twi \<times> ('h, 'x) env" where
  "twi_queue_request P base req s e =
     (let ((ok, q), e1) = with_ax (push (taccess P) req (twi_queue_for base s)) e
      in (ok, set_twi_queue_for base q s, e1))"

definition twi_pop_request :: "u32 \<Rightarrow> TwiRequest \<Rightarrow> twi \<Rightarrow> bool \<times> TwiRequest \<times> twi" where
  "twi_pop_request base req s =
     (let (ok, r, q) = pop_from_isr req (twi_queue_for base s) in (ok, r, set_twi_queue_for base q s))"

text \<open>The awaiter's members \<^verbatim>\<open>base\<close> and \<^verbatim>\<open>request\<close>; its member \<^verbatim>\<open>result\<close> is the byte at address \<open>self\<close>.\<close>

record TwiAwaiter =
  aw_base :: u32
  aw_request :: TwiRequest

definition twi_async_read :: "u32 \<Rightarrow> u8 \<Rightarrow> u8 \<Rightarrow> span \<Rightarrow> TwiAwaiter" where
  "twi_async_read base address reg_addr dest =
     \<lparr>aw_base = base, aw_request = TwiRequest_default\<lparr>tw_address := address, tw_reg_addr := reg_addr,
        tw_buffer := sp_data dest, tw_length := ucast (sp_size dest), tw_is_read := True\<rparr>\<rparr>"

definition twi_async_write :: "u32 \<Rightarrow> u8 \<Rightarrow> u8 \<Rightarrow> span \<Rightarrow> TwiAwaiter" where
  "twi_async_write base address reg_addr src =
     \<lparr>aw_base = base, aw_request = TwiRequest_default\<lparr>tw_address := address, tw_reg_addr := reg_addr,
        tw_buffer := sp_data src, tw_length := ucast (sp_size src), tw_is_read := False\<rparr>\<rparr>"

definition TwiAwaiter_await_suspend ::
    "('h, 'x) platform \<Rightarrow> u32 \<Rightarrow> TwiAwaiter \<Rightarrow> handle \<Rightarrow> twi \<Rightarrow> ('h, 'x) env \<Rightarrow> twi \<times> ('h, 'x) env" where
  "TwiAwaiter_await_suspend P self aw h s e =
     (let request = (aw_request aw)\<lparr>tw_handle := h, tw_result := self\<rparr>;
          (ok, s1, e1) = twi_queue_request P (aw_base aw) request s e
      in twi_start_transfer P (aw_base aw) s1 e1)"

definition TwiAwaiter_await_resume :: "u32 \<Rightarrow> ('h, 'x) env \<Rightarrow> u8" where
  "TwiAwaiter_await_resume self e = ram e self"

subsection \<open>Outcomes\<close>

definition twi_inv :: "u32 \<Rightarrow> twi \<Rightarrow> bool" where
  "twi_inv base s \<longleftrightarrow> dq_inv (twi_queue_for base s)"

text \<open>The state in which \<^verbatim>\<open>begin\<close> leaves the controller for a request.\<close>

definition begun :: "TwiRequest \<Rightarrow> TwiTransferState" where
  "begun req =
     \<lparr>ts_request = req, ts_index = 0, ts_address = tw_address req, ts_reg_addr = tw_reg_addr req,
      ts_sent_reg_addr = False, ts_phase_is_read = False, ts_active = True\<rparr>"

text \<open>What is left when a request has been finished: the next one begun, or an idle controller, whose
  state still holds the finished request.\<close>

definition after_finish :: "u32 \<Rightarrow> TwiRequest \<Rightarrow> TwiRequest list \<Rightarrow> twi \<Rightarrow> bool" where
  "after_finish base req waiting s \<longleftrightarrow> twi_inv base s \<and>
     (case waiting of
        [] \<Rightarrow> \<not> ts_active (state_for base s) \<and> ts_request (state_for base s) = req \<and>
          q_list (twi_queue_for base s) = []
      | r # rs \<Rightarrow> state_for base s = begun r \<and> q_list (twi_queue_for base s) = rs)"

definition stored_result :: "TwiRequest \<Rightarrow> TwiResult \<Rightarrow> (u32 \<Rightarrow> u8) \<Rightarrow> (u32 \<Rightarrow> u8)" where
  "stored_result req result m =
     (if tw_result req \<noteq> 0 then m(tw_result req := TwiResult_code result) else m)"

definition resumed :: "TwiRequest \<Rightarrow> handle list" where
  "resumed req = (if tw_handle req \<noteq> 0 then [tw_handle req] else [])"

text \<open>The bus clock a setting of the divider gives.\<close>

definition scl_rate :: "u32 \<Rightarrow> nat \<Rightarrow> int" where
  "scl_rate parent k = int (unat parent div (10 * 2 ^ (k div 8) * (k mod 8 + 1)))"

subsection \<open>Lemmas\<close>

lemma twi_accessors [simp]:
  "state_for base (set_state_for base st s) = st"
  "state_for base (set_twi_queue_for base q s) = state_for base s"
  "twi_queue_for base (set_twi_queue_for base q s) = q"
  "twi_queue_for base (set_state_for base st s) = twi_queue_for base s"
  by (simp_all add: state_for_def set_state_for_def twi_queue_for_def set_twi_queue_for_def)

lemma twi_inv_set_state [simp]: "twi_inv base (set_state_for base st s) = twi_inv base s"
  by (simp add: twi_inv_def)

lemma status_distinct [simp]:
  "STAT_ADDR_W_ACK \<noteq> STAT_START" "STAT_ADDR_W_ACK \<noteq> STAT_REPEAT_START"
  "STAT_DATA_TX_ACK \<noteq> STAT_START" "STAT_DATA_TX_ACK \<noteq> STAT_REPEAT_START"
  "STAT_DATA_TX_ACK \<noteq> STAT_ADDR_W_ACK"
  "STAT_ADDR_R_ACK \<noteq> STAT_START" "STAT_ADDR_R_ACK \<noteq> STAT_REPEAT_START"
  "STAT_ADDR_R_ACK \<noteq> STAT_ADDR_W_ACK" "STAT_ADDR_R_ACK \<noteq> STAT_DATA_TX_ACK"
  "STAT_DATA_RX_ACK \<noteq> STAT_START" "STAT_DATA_RX_ACK \<noteq> STAT_REPEAT_START"
  "STAT_DATA_RX_ACK \<noteq> STAT_ADDR_W_ACK" "STAT_DATA_RX_ACK \<noteq> STAT_DATA_TX_ACK"
  "STAT_DATA_RX_ACK \<noteq> STAT_ADDR_R_ACK"
  "STAT_DATA_RX_NACK \<noteq> STAT_START" "STAT_DATA_RX_NACK \<noteq> STAT_REPEAT_START"
  "STAT_DATA_RX_NACK \<noteq> STAT_ADDR_W_ACK" "STAT_DATA_RX_NACK \<noteq> STAT_DATA_TX_ACK"
  "STAT_DATA_RX_NACK \<noteq> STAT_ADDR_R_ACK" "STAT_DATA_RX_NACK \<noteq> STAT_DATA_RX_ACK"
  by (simp_all add: regs)

lemma ucast_index_Suc:
  fixes i n :: u16
  assumes "i < n"
  shows "(ucast (i + 1) :: u32) = ucast i + 1" and "unat (i + 1) = Suc (unat i)"
proof -
  show s: "unat (i + 1) = Suc (unat i)" by (rule unat_Suc_no_wrap [OF assms])
  have "unat i < 65536" using unsigned_less [of i] by simp
  then have "unat (ucast i + 1 :: u32) = Suc (unat i)"
    by (subst unat_add_no_wrap) (simp_all add: unat_ucast_mod)
  moreover have "unat (i + 1) < 65536" using unsigned_less [of "i + 1"] by simp
  ultimately show "(ucast (i + 1) :: u32) = ucast i + 1"
    unfolding word_unat_eq_iff using s by (simp add: unat_ucast_mod)
qed

text \<open>The search loop keeps the first candidate with the least difference.\<close>

lemma fold_least:
  fixes f :: "'a \<Rightarrow> 'b::linorder" and c :: "'a \<Rightarrow> 'c"
  assumes "fold (\<lambda>x (d, k). if f x < d then (f x, c x) else (d, k)) xs (d0, k0) = (d', k')"
  shows "d' \<le> d0 \<and> (\<forall>x \<in> set xs. d' \<le> f x) \<and>
    ((d', k') = (d0, k0) \<or> (\<exists>x \<in> set xs. d' = f x \<and> k' = c x))"
  using assms
proof (induction xs arbitrary: d0 k0)
  case Nil
  then show ?case by simp
next
  case (Cons x xs)
  show ?case
  proof (cases "f x < d0")
    case True
    with Cons.IH [of "f x" "c x"] Cons.prems show ?thesis by auto
  next
    case False
    with Cons.IH [of d0 k0] Cons.prems show ?thesis by auto
  qed
qed

lemma ccr_code_value: "n < 8 \<Longrightarrow> m < 8 \<Longrightarrow> unat (ccr_code n m) = 8 * n + m"
proof -
  assume "n < 8" "m < 8"
  moreover have "list_all (\<lambda>(n, m). unat (ccr_code n m) = 8 * n + m) (List.product [0..<8] [0..<8])"
    by code_simp
  ultimately show ?thesis by (auto simp: list_all_iff)
qed

lemma scl_diff_value:
  assumes "n < 8" and "m < 8"
  shows "uint (scl_diff target parent n m) = \<bar>scl_rate parent (8 * n + m) - uint target\<bar>"
proof -
  have "list_all (\<lambda>(n, m). unat (10 * push_bit n 1 * (of_nat m + 1) :: u32) = 10 * 2 ^ n * (m + 1))
      (List.product [0..<8] [0..<8])"
    by code_simp
  then have "unat (10 * push_bit n 1 * (of_nat m + 1) :: u32) = 10 * 2 ^ n * (m + 1)"
    using assms by (auto simp: list_all_iff simp del: push_bit_of_1)
  then have a: "int (unat (parent div (10 * push_bit n 1 * (of_nat m + 1)))) = scl_rate parent (8 * n + m)"
    using assms by (simp add: unat_div_distrib scl_rate_def del: push_bit_of_1)
  let ?a = "parent div (10 * push_bit n 1 * (of_nat m + 1))"
  have d: "scl_diff target parent n m = (if ?a > target then ?a - target else target - ?a)"
    by (simp add: scl_diff_def Let_def)
  show ?thesis
  proof (cases "?a > target")
    case True
    then have "uint target < uint ?a" "uint (?a - target) = uint ?a - uint target"
      by (simp_all add: word_less_def uint_sub_if')
    then show ?thesis using True a unfolding d by simp
  next
    case False
    then have "uint ?a \<le> uint target" "uint (target - ?a) = uint target - uint ?a"
      by (simp_all add: not_less word_le_def uint_sub_if')
    then show ?thesis using False a unfolding d by simp
  qed
qed

lemma fold_nested:
  "fold (\<lambda>n acc. fold (g n) ys acc) xs acc = fold (\<lambda>(n, m). g n m) (List.product xs ys) acc"
proof (induction xs arbitrary: acc)
  case Nil
  then show ?case by simp
next
  case (Cons x xs)
  have "fold (\<lambda>(n, m). g n m) (map (Pair x) ys) acc = fold (g x) ys acc" for acc
    by (induction ys arbitrary: acc) simp_all
  then show ?case using Cons by simp
qed

subsection \<open>Properties\<close>

text \<open>C37. The clock search is optimal: among the 64 settings of the two divider fields, the one it returns
  gives a bus clock nearest to the requested one.  Setting \<open>k = 8 n + m\<close>, with the fields where the code
  packs them, divides the parent clock by \<open>10 * 2 ^ n * (m + 1)\<close>; clocks are in whole hertz, rounded down.\<close>

theorem compute_ccr_optimal:
  assumes "target \<noteq> 0" and "parent \<noteq> 0" and "k < 64"
  shows "unat (compute_ccr target parent) < 64 \<and>
    \<bar>scl_rate parent (unat (compute_ccr target parent)) - uint target\<bar> \<le>
    \<bar>scl_rate parent k - uint target\<bar>"
proof -
  let ?f = "\<lambda>(n, m). scl_diff target parent n m" and ?c = "\<lambda>(n, m). ccr_code n m"
  let ?xs = "List.product [0..<8] [0..<8]"
  obtain d c where r: "fold (\<lambda>x (d, c). if ?f x < d then (?f x, ?c x) else (d, c)) ?xs
      (0xFFFFFFFF, 0x11) = (d, c)" by fastforce
  have step: "(\<lambda>(n, m). (\<lambda>(d, c). if scl_diff target parent n m < d then
      (scl_diff target parent n m, ccr_code n m) else (d, c))) =
      (\<lambda>x (d, c). if ?f x < d then (?f x, ?c x) else (d, c))"
    by (intro ext) (auto split: prod.splits)
  have ccr: "compute_ccr target parent = c"
    using assms(1,2) r by (simp add: compute_ccr_def fold_nested Let_def step)
  note least = fold_least [OF r]
  have nearest: "uint d \<le> \<bar>scl_rate parent (8 * n + m) - uint target\<bar>" if "n < 8" "m < 8" for n m
  proof -
    have "d \<le> scl_diff target parent n m" using least that by auto
    then show ?thesis using scl_diff_value [OF that, of target parent] by (simp add: word_le_def)
  qed
  have k: "uint d \<le> \<bar>scl_rate parent k - uint target\<bar>"
    using nearest [of "k div 8" "k mod 8"] assms(3) by simp
  from least consider "d = 0xFFFFFFFF" "c = 0x11" | a b where "a < 8" "b < 8" "d = ?f (a, b)" "c = ?c (a, b)"
    by auto
  then show ?thesis
  proof cases
    case 1
    have "uint (scl_diff target parent 2 1) \<le> 0xFFFFFFFF" using uint_lt2p [of "scl_diff target parent 2 1"] by simp
    then show ?thesis using 1 k scl_diff_value [of 2 1 target parent] by (simp add: ccr)
  next
    case (2 a b)
    then show ?thesis using k ccr_code_value [of a b] scl_diff_value [of a b target parent] by (simp add: ccr)
  qed
qed

theorem compute_ccr_optimal_witness:
  "scl_rate 24000000 5 = 400000 \<and>
   \<bar>scl_rate 24000000 (unat (compute_ccr 400000 24000000)) - 400000\<bar> \<le> 0"
proof -
  have "scl_rate 24000000 5 = 400000" by (simp add: scl_rate_def)
  then show ?thesis using compute_ccr_optimal [of 400000 24000000 5] by simp
qed

end
