(* ===== verification/Uart_Dma.thy ===== *)
theory Uart_Dma
  imports Memory_Map Spsc_Queue Fifo_Server
begin

text \<open>
  \<^verbatim>\<open>hal/include/hal_uart_dma.hpp\<close>: the UART driver.  Its register file is that of a 16550: two
  registers share an address with the divisor latches, selected by the bit DLAB of \<open>LCR\<close>.  The
  loops that poll the line status may not end, so they are \<open>option\<close> valued.

  The locale \<open>uart_latch\<close> states what programming the divisor relies on, the locale
  \<open>uart_device\<close> what receiving and transmitting rely on.  \<open>uart_rx_step\<close> is the receiving side over time.
\<close>

subsection \<open>Registers and state\<close>

definition UART_RX_BUFFER_SIZE :: nat where
  "UART_RX_BUFFER_SIZE = 1024"

definition UART_TX_BUFFER_SIZE :: nat where
  "UART_TX_BUFFER_SIZE = 1024"

definition uart_regs :: u32 where
  "uart_regs = UART2_BASE"

definition RBR_THR_DLL :: u32 where
  "RBR_THR_DLL = uart_regs"

definition DLH_IER :: u32 where
  "DLH_IER = uart_regs + 0x04"

definition IIR_FCR :: u32 where
  "IIR_FCR = uart_regs + 0x08"

definition LCR :: u32 where
  "LCR = uart_regs + 0x0C"

definition LSR :: u32 where
  "LSR = uart_regs + 0x14"

record ReadRequest =
  rr_handle :: handle
  rr_buffer :: span
  rr_bytes_received :: u32

definition ReadRequest_default :: ReadRequest where
  "ReadRequest_default = \<lparr>rr_handle = 0, rr_buffer = empty_span, rr_bytes_received = 0\<rparr>"

record WriteRequest =
  wr_handle :: handle
  wr_data :: span

definition WriteRequest_default :: WriteRequest where
  "WriteRequest_default = \<lparr>wr_handle = 0, wr_data = empty_span\<rparr>"

record uart =
  pending_read_requests :: "ReadRequest queue_spsc_isr"
  pending_write_requests :: "WriteRequest queue_spsc_isr"

definition uart_static :: uart where
  "uart_static =
     \<lparr>pending_read_requests = DriverRequestQueue 8 ReadRequest_default,
      pending_write_requests = DriverRequestQueue 8 WriteRequest_default\<rparr>"

subsection \<open>Initialisation\<close>

text \<open>The divisor; \<^verbatim>\<open>16U * baudrate\<close> wraps, and a division by zero is undefined behaviour.\<close>

definition uart_divisor :: "u32 \<Rightarrow> u32 \<Rightarrow> arith_error + u32" where
  "uart_divisor baudrate parent_clock_hz =
     (let parent_clock_hz = (if parent_clock_hz = 0 then 24000000 else parent_clock_hz);
          baudrate = (if baudrate = 0 then 115200 else baudrate)
      in if 16 * baudrate = 0 then Inl Division_by_zero
         else
           (let divisor = parent_clock_hz div (16 * baudrate)
            in Inr (if divisor = 0 then 1 else divisor)))"

definition UartDmaDriver_init ::
    "('h, 'x) platform \<Rightarrow> u32 \<Rightarrow> u32 \<Rightarrow> ('h, 'x) env \<Rightarrow> arith_error + ('h, 'x) env" where
  "UartDmaDriver_init P baudrate parent_clock_hz e =
     (case uart_divisor baudrate parent_clock_hz of
        Inl err \<Rightarrow> Inl err
      | Inr divisor \<Rightarrow>
          (let e1 = mmio_write P LCR 0x80 e;
               e2 = mmio_write P RBR_THR_DLL (divisor AND 0xFF) e1;
               e3 = mmio_write P DLH_IER (drop_bit 8 divisor AND 0xFF) e2;
               e4 = mmio_write P LCR 0x03 e3;
               e5 = mmio_write P IIR_FCR 0x07 e4
           in Inr (mmio_write P DLH_IER 0x01 e5)))"

subsection \<open>Requests and awaiters\<close>

definition queue_read_request ::
    "('h, 'x) platform \<Rightarrow> handle \<Rightarrow> span \<Rightarrow> u32 \<Rightarrow> uart \<Rightarrow> ('h, 'x) env \<Rightarrow> bool \<times> uart \<times> ('h, 'x) env" where
  "queue_read_request P h buffer bytes_received u e =
     (let ((ok, q), e1) = with_ax (push (taccess P)
            \<lparr>rr_handle = h, rr_buffer = buffer, rr_bytes_received = bytes_received\<rparr>
            (pending_read_requests u)) e
      in (ok, u\<lparr>pending_read_requests := q\<rparr>, e1))"

definition pop_read_request :: "ReadRequest \<Rightarrow> uart \<Rightarrow> bool \<times> ReadRequest \<times> uart" where
  "pop_read_request req u =
     (let (ok, r, q) = pop_from_isr req (pending_read_requests u)
      in (ok, r, u\<lparr>pending_read_requests := q\<rparr>))"

text \<open>The read awaiter at \<open>self\<close>: \<^verbatim>\<open>dest_buffer\<close> at offsets 0 and 4, \<^verbatim>\<open>bytes_transferred\<close> at 8,
  \<^verbatim>\<open>handle\<close> at 12.\<close>

definition uart_async_read :: "u32 \<Rightarrow> span \<Rightarrow> ('h, 'x) env \<Rightarrow> ('h, 'x) env" where
  "uart_async_read self buf e =
     store_u32 (self + 12) 0 (store_u32 (self + 8) 0
       (store_u32 (self + 4) (sp_size buf) (store_u32 self (sp_data buf) e)))"

definition AsyncReadAwaiter_await_suspend ::
    "('h, 'x) platform \<Rightarrow> u32 \<Rightarrow> handle \<Rightarrow> uart \<Rightarrow> ('h, 'x) env \<Rightarrow> uart \<times> ('h, 'x) env" where
  "AsyncReadAwaiter_await_suspend P self h u e =
     (let e1 = store_u32 (self + 12) h e;
          (ok, u1, e2) = queue_read_request P h (load_span self e1) (self + 8) u e1
      in (u1, e2))"

definition AsyncReadAwaiter_await_resume :: "u32 \<Rightarrow> ('h, 'x) env \<Rightarrow> u32" where
  "AsyncReadAwaiter_await_resume self e = load_u32 (self + 8) e"

definition queue_write_request ::
    "('h, 'x) platform \<Rightarrow> handle \<Rightarrow> span \<Rightarrow> uart \<Rightarrow> ('h, 'x) env \<Rightarrow> bool \<times> uart \<times> ('h, 'x) env" where
  "queue_write_request P h data u e =
     (let ((ok, q), e1) = with_ax (push (taccess P) \<lparr>wr_handle = h, wr_data = data\<rparr>
            (pending_write_requests u)) e
      in (ok, u\<lparr>pending_write_requests := q\<rparr>, e1))"

definition pop_write_request :: "WriteRequest \<Rightarrow> uart \<Rightarrow> bool \<times> WriteRequest \<times> uart" where
  "pop_write_request req u =
     (let (ok, r, q) = pop_from_isr req (pending_write_requests u)
      in (ok, r, u\<lparr>pending_write_requests := q\<rparr>))"

subsection \<open>Interrupt handlers and transmission\<close>

text \<open>The loop that empties the receive FIFO when nobody waits.\<close>

partial_function (option) flush_rx ::
    "('h, 'x) platform \<Rightarrow> ('h, 'x) env \<Rightarrow> ('h, 'x) env option" where
  "flush_rx P e =
     (let (lsr, e1) = mmio_read P LSR e
      in if lsr AND 0x01 \<noteq> 0 then flush_rx P (snd (mmio_read P RBR_THR_DLL e1)) else Some e1)"

text \<open>The loop that fills the buffer of the waiting request, from index \<open>count\<close> on.\<close>

partial_function (option) fill_rx ::
    "('h, 'x) platform \<Rightarrow> span \<Rightarrow> u32 \<Rightarrow> ('h, 'x) env \<Rightarrow> (u32 \<times> ('h, 'x) env) option" where
  "fill_rx P buffer count e =
     (let (lsr, e1) = mmio_read P LSR e
      in if lsr AND 0x01 \<noteq> 0 \<and> count < sp_size buffer
         then
           (let (v, e2) = mmio_read P RBR_THR_DLL e1
            in fill_rx P buffer (count + 1) (store_u8 (sp_data buffer + count) (ucast v) e2))
         else Some (count, e1))"

definition UartDmaDriver_handle_isr ::
    "('h, 'x) platform \<Rightarrow> uart \<Rightarrow> ('h, 'x) env \<Rightarrow> (uart \<times> ('h, 'x) env) option" where
  "UartDmaDriver_handle_isr P u e =
     (let (v, e1) = mmio_read P IIR_FCR e; iir = v AND 0x0F
      in if iir = 0x04 \<or> iir = 0x0C
         then
           (let (ok, req, u1) = pop_read_request ReadRequest_default u
            in if \<not> ok then do { e2 \<leftarrow> flush_rx P e1; Some (u1, e2) }
               else do {
                 (count, e2) \<leftarrow> fill_rx P (rr_buffer req) 0 e1;
                 let e3 = (if rr_bytes_received req \<noteq> 0
                           then store_u32 (rr_bytes_received req) count e2 else e2);
                 Some (u1, post P (rr_handle req) e3)
               })
         else Some (u, e1))"

definition handle_tx_dma_isr ::
    "('h, 'x) platform \<Rightarrow> uart \<Rightarrow> ('h, 'x) env \<Rightarrow> uart \<times> ('h, 'x) env" where
  "handle_tx_dma_isr P u e =
     (let (ok, req, u1) = pop_write_request WriteRequest_default u
      in if ok then (u1, post P (wr_handle req) e) else (u1, e))"

partial_function (option) wait_tx_ready ::
    "('h, 'x) platform \<Rightarrow> ('h, 'x) env \<Rightarrow> ('h, 'x) env option" where
  "wait_tx_ready P e =
     (let (lsr, e1) = mmio_read P LSR e
      in if lsr AND 0x20 = 0 then wait_tx_ready P e1 else Some e1)"

fun send_bytes :: "('h, 'x) platform \<Rightarrow> u8 list \<Rightarrow> ('h, 'x) env \<Rightarrow> ('h, 'x) env option" where
  "send_bytes P [] e = Some e"
| "send_bytes P (b # bs) e =
     do { e1 \<leftarrow> wait_tx_ready P e; send_bytes P bs (mmio_write P RBR_THR_DLL (ucast b) e1) }"

definition start_tx_dma ::
    "('h, 'x) platform \<Rightarrow> span \<Rightarrow> uart \<Rightarrow> ('h, 'x) env \<Rightarrow> (uart \<times> ('h, 'x) env) option" where
  "start_tx_dma P data u e =
     do { e1 \<leftarrow> send_bytes P (span_bytes data e) e; Some (handle_tx_dma_isr P u e1) }"

text \<open>The write awaiter at \<open>self\<close>: \<^verbatim>\<open>src_data\<close> at offsets 0 and 4, \<^verbatim>\<open>handle\<close> at 8.\<close>

definition uart_async_write :: "u32 \<Rightarrow> span \<Rightarrow> ('h, 'x) env \<Rightarrow> ('h, 'x) env" where
  "uart_async_write self data e =
     store_u32 (self + 8) 0 (store_u32 (self + 4) (sp_size data) (store_u32 self (sp_data data) e))"

definition AsyncWriteAwaiter_await_ready :: "u32 \<Rightarrow> ('h, 'x) env \<Rightarrow> bool" where
  "AsyncWriteAwaiter_await_ready self e = (sp_size (load_span self e) = 0)"

definition AsyncWriteAwaiter_await_suspend ::
    "('h, 'x) platform \<Rightarrow> u32 \<Rightarrow> handle \<Rightarrow> uart \<Rightarrow> ('h, 'x) env \<Rightarrow> (uart \<times> ('h, 'x) env) option" where
  "AsyncWriteAwaiter_await_suspend P self h u e =
     (let e1 = store_u32 (self + 8) h e;
          (ok, u1, e2) = queue_write_request P h (load_span self e1) u e1
      in start_tx_dma P (load_span self e2) u1 e2)"

subsection \<open>Invariant and interfaces\<close>

definition uart_inv :: "uart \<Rightarrow> bool" where
  "uart_inv u \<longleftrightarrow> dq_inv (pending_read_requests u) \<and> dq_inv (pending_write_requests u)"

definition readers :: "uart \<Rightarrow> ReadRequest list" where
  "readers u = q_list (pending_read_requests u)"

definition writers :: "uart \<Rightarrow> WriteRequest list" where
  "writers u = q_list (pending_write_requests u)"

text \<open>The latches of a 16550: with DLAB (bit 7 of \<open>lcr\<close>) set, the first two registers are the
  divisor latches, otherwise the second one is the interrupt enable register.\<close>

locale uart_latch =
  fixes P :: "('h, 'x) platform"
    and lcr dll dlh ier :: "'h \<Rightarrow> u32"
  assumes wr_lcr: "lcr (bus_wr P LCR v h) = v" "dll (bus_wr P LCR v h) = dll h"
      "dlh (bus_wr P LCR v h) = dlh h"
    and wr_dll: "bit (lcr h) 7 \<Longrightarrow> dll (bus_wr P RBR_THR_DLL v h) = v"
      "lcr (bus_wr P RBR_THR_DLL v h) = lcr h" "dlh (bus_wr P RBR_THR_DLL v h) = dlh h"
    and wr_dlh: "dlh (bus_wr P DLH_IER v h) = (if bit (lcr h) 7 then v else dlh h)"
      "\<not> bit (lcr h) 7 \<Longrightarrow> ier (bus_wr P DLH_IER v h) = v"
      "lcr (bus_wr P DLH_IER v h) = lcr h" "dll (bus_wr P DLH_IER v h) = dll h"
    and wr_fcr: "lcr (bus_wr P IIR_FCR v h) = lcr h" "dll (bus_wr P IIR_FCR v h) = dll h"
      "dlh (bus_wr P IIR_FCR v h) = dlh h"

text \<open>
  A UART in normal operation (DLAB clear): \<open>stream\<close> is what has been received and not yet read
  together with what will still arrive, \<open>level\<close> how much of it is in the FIFO, \<open>sent\<close> what was
  transmitted, \<open>ready\<close> whether the transmit holding register is empty, \<open>wait\<close> a bound on the number of
  polls until it is.  A byte written to the register is sent when the register was empty; nothing is known
  of a byte written to a full one.  Bytes may arrive during any access.
\<close>

locale uart_device =
  fixes P :: "('h, 'x) platform"
    and normal :: "'h \<Rightarrow> bool"
    and stream :: "'h \<Rightarrow> u8 list"
    and level :: "'h \<Rightarrow> nat"
    and sent :: "'h \<Rightarrow> u8 list"
    and ready :: "'h \<Rightarrow> bool"
    and wait :: "'h \<Rightarrow> nat"
  assumes level_le: "normal h \<Longrightarrow> level h \<le> length (stream h)"
    and rd_iir: "normal h \<Longrightarrow> bus_rd P IIR_FCR h = (v, h') \<Longrightarrow>
      normal h' \<and> stream h' = stream h \<and> level h \<le> level h' \<and> sent h' = sent h"
    and rd_lsr: "normal h \<Longrightarrow> bus_rd P LSR h = (v, h') \<Longrightarrow>
      normal h' \<and> stream h' = stream h \<and> level h \<le> level h' \<and> sent h' = sent h \<and>
      (v AND 0x01 \<noteq> 0 \<longleftrightarrow> level h' \<noteq> 0) \<and> (v AND 0x20 \<noteq> 0 \<longleftrightarrow> ready h') \<and> (\<not> ready h' \<longrightarrow> wait h' < wait h)"
    and rd_rbr: "normal h \<Longrightarrow> level h \<noteq> 0 \<Longrightarrow> bus_rd P RBR_THR_DLL h = (v, h') \<Longrightarrow>
      normal h' \<and> stream h = ucast v # stream h' \<and> level h - 1 \<le> level h' \<and> sent h' = sent h"
    and wr_thr: "normal h \<Longrightarrow> ready h \<Longrightarrow>
      normal (bus_wr P RBR_THR_DLL v h) \<and> sent (bus_wr P RBR_THR_DLL v h) = sent h @ [ucast v]"

text \<open>A 16550 with a receive FIFO and a transmitter that loses a byte written while it is busy, for concrete
  runs: it is busy for three polls after each byte.\<close>

record uart_hw =
  u_lcr :: u32
  u_dll :: u32
  u_dlh :: u32
  u_ier :: u32
  u_rx :: "u8 list"
  u_tx :: "u8 list"
  u_busy :: nat

definition uart_platform :: "(uart_hw, sim_ax) platform" where
  "uart_platform =
     \<lparr>bus_rd = (\<lambda>a h.
        if a = LSR then
          ((if u_rx h = [] then 0 else 0x01) OR (if u_busy h \<le> 1 then 0x20 else 0), h\<lparr>u_busy := u_busy h - 1\<rparr>)
        else if a = IIR_FCR then (if u_rx h = [] then 1 else 4, h)
        else if a = RBR_THR_DLL then
          (if bit (u_lcr h) 7 then (u_dll h, h)
           else case u_rx h of [] \<Rightarrow> (0, h) | b # bs \<Rightarrow> (ucast b, h\<lparr>u_rx := bs\<rparr>))
        else (0, h)),
      bus_wr = (\<lambda>a v h.
        if a = LCR then h\<lparr>u_lcr := v\<rparr>
        else if a = RBR_THR_DLL then
          (if bit (u_lcr h) 7 then h\<lparr>u_dll := v\<rparr>
           else if u_busy h = 0 then h\<lparr>u_tx := u_tx h @ [ucast v], u_busy := 3\<rparr> else h)
        else if a = DLH_IER then
          (if bit (u_lcr h) 7 then h\<lparr>u_dlh := v\<rparr> else h\<lparr>u_ier := v\<rparr>)
        else h),
      bus_wr8 = (\<lambda>a v h. h), csr_rd = (\<lambda>c h. (0, h)), csr_set = (\<lambda>c m h. h),
      disable_interrupts_save_flags = disable_interrupts_save_flags sim_platform,
      restore_interrupts_flags = restore_interrupts_flags sim_platform,
      taccess = taccess sim_platform, isr_post = isr_post sim_platform,
      timer_service_init = timer_service_init sim_platform,
      timer_service_tick = timer_service_tick sim_platform,
      timer_service_sleep_ms = timer_service_sleep_ms sim_platform\<rparr>"

definition uart_env :: "u8 list \<Rightarrow> (uart_hw, sim_ax) env" where
  "uart_env rx = \<lparr>hw = \<lparr>u_lcr = 3, u_dll = 0, u_dlh = 0, u_ier = 0, u_rx = rx, u_tx = [],
      u_busy = 0\<rparr>,
     ax = ax sim_env, ram = ram sim_env\<rparr>"

subsection \<open>Lemmas\<close>

lemma uart_addr_distinct [simp]:
  "RBR_THR_DLL \<noteq> DLH_IER" "RBR_THR_DLL \<noteq> IIR_FCR" "RBR_THR_DLL \<noteq> LCR" "RBR_THR_DLL \<noteq> LSR"
  "DLH_IER \<noteq> RBR_THR_DLL" "DLH_IER \<noteq> IIR_FCR" "DLH_IER \<noteq> LCR" "DLH_IER \<noteq> LSR"
  "IIR_FCR \<noteq> RBR_THR_DLL" "IIR_FCR \<noteq> DLH_IER" "IIR_FCR \<noteq> LCR" "IIR_FCR \<noteq> LSR"
  "LCR \<noteq> RBR_THR_DLL" "LCR \<noteq> DLH_IER" "LCR \<noteq> IIR_FCR" "LCR \<noteq> LSR"
  by (simp_all add: RBR_THR_DLL_def DLH_IER_def IIR_FCR_def LCR_def LSR_def)

interpretation uart16550: uart_latch uart_platform u_lcr u_dll u_dlh u_ier
  by unfold_locales (simp_all add: uart_platform_def)

interpretation uart_sim: uart_device uart_platform "\<lambda>h. \<not> bit (u_lcr h) 7" u_rx
  "\<lambda>h. length (u_rx h)" u_tx "\<lambda>h. u_busy h = 0" u_busy
proof unfold_locales
  fix h h' :: uart_hw and v :: u32
  assume n: "\<not> bit (u_lcr h) 7"
  show "length (u_rx h) \<le> length (u_rx h)" by simp
  show "\<not> bit (u_lcr (bus_wr uart_platform RBR_THR_DLL v h)) 7 \<and>
      u_tx (bus_wr uart_platform RBR_THR_DLL v h) = u_tx h @ [ucast v]" if "u_busy h = 0"
    using n that by (simp add: uart_platform_def)
  show "\<not> bit (u_lcr h') 7 \<and> u_rx h' = u_rx h \<and> length (u_rx h) \<le> length (u_rx h') \<and> u_tx h' = u_tx h"
    if "bus_rd uart_platform IIR_FCR h = (v, h')"
    using n that by (auto simp: uart_platform_def split: if_splits)
  show "\<not> bit (u_lcr h') 7 \<and> u_rx h' = u_rx h \<and> length (u_rx h) \<le> length (u_rx h') \<and>
      u_tx h' = u_tx h \<and> (v AND 0x01 \<noteq> 0 \<longleftrightarrow> length (u_rx h') \<noteq> 0) \<and>
      (v AND 0x20 \<noteq> 0 \<longleftrightarrow> u_busy h' = 0) \<and> (u_busy h' \<noteq> 0 \<longrightarrow> u_busy h' < u_busy h)"
    if "bus_rd uart_platform LSR h = (v, h')"
    using n that by (auto simp: uart_platform_def split: if_splits)
  show "\<not> bit (u_lcr h') 7 \<and> u_rx h = ucast v # u_rx h' \<and> length (u_rx h) - 1 \<le> length (u_rx h') \<and>
      u_tx h' = u_tx h"
    if "bus_rd uart_platform RBR_THR_DLL h = (v, h')" "length (u_rx h) \<noteq> 0"
    using n that by (auto simp: uart_platform_def split: list.splits)
qed

interpretation uart_log: dispatcher uart_platform posted
  by unfold_locales (simp_all add: uart_platform_def)

context uart_device
begin

text \<open>Filling the buffer consumes a prefix of the stream, in order, and stops only when the buffer
  is full or the FIFO is empty.\<close>

lemma fill_rx_returns:
  assumes "normal (hw e)" and "count \<le> sp_size buffer"
  shows "\<exists>k e'. fill_rx P buffer count e = Some (count + of_nat k, e') \<and>
    k \<le> unat (sp_size buffer) - unat count \<and>
    min (unat (sp_size buffer) - unat count) (level (hw e)) \<le> k \<and>
    stream (hw e) = take k (stream (hw e)) @ stream (hw e') \<and> length (take k (stream (hw e))) = k \<and>
    ram e' = store_bytes (sp_data buffer + count) (take k (stream (hw e))) (ram e) \<and>
    ax e' = ax e \<and> normal (hw e') \<and> sent (hw e') = sent (hw e)"
  using assms
proof (induction "length (stream (hw e))" arbitrary: e count rule: less_induct)
  case less
  obtain v h1 where r1: "bus_rd P LSR (hw e) = (v, h1)" by fastforce
  note l = rd_lsr [OF less.prems(1) r1]
  show ?case
  proof (cases "v AND 0x01 \<noteq> 0 \<and> count < sp_size buffer")
    case False
    then have "fill_rx P buffer count e = Some (count, e\<lparr>hw := h1\<rparr>)"
      by (subst fill_rx.simps) (auto simp: mmio_read_def r1)
    moreover have "min (unat (sp_size buffer) - unat count) (level (hw e)) = 0"
      using False l less.prems(2) by (auto simp: word_less_nat_alt)
    ultimately show ?thesis
      using l by (intro exI [of _ 0]) simp
  next
    case True
    obtain w h2 where r2: "bus_rd P RBR_THR_DLL h1 = (w, h2)" by fastforce
    have "level h1 \<noteq> 0" using True l by simp
    note b = rd_rbr [OF _ this r2]
    let ?e2 = "store_u8 (sp_data buffer + count) (ucast w) (e\<lparr>hw := h2\<rparr>)"
    have step: "fill_rx P buffer count e = fill_rx P buffer (count + 1) ?e2"
      using True by (subst fill_rx.simps) (simp add: mmio_read_def r1 r2)
    have s: "stream (hw e) = ucast w # stream h2" "normal h2" "level (hw e) - 1 \<le> level h2"
      "sent h2 = sent (hw e)"
      using l b by auto
    have c: "unat (count + 1) = Suc (unat count)" using True unat_Suc_no_wrap by blast
    have "count + 1 \<le> sp_size buffer" using True c by (simp add: word_le_nat_alt word_less_nat_alt)
    then obtain k e' where k: "fill_rx P buffer (count + 1) ?e2 = Some (count + 1 + of_nat k, e')"
      "k \<le> unat (sp_size buffer) - Suc (unat count)"
      "min (unat (sp_size buffer) - Suc (unat count)) (level h2) \<le> k"
      "stream h2 = take k (stream h2) @ stream (hw e')" "length (take k (stream h2)) = k"
      "ram e' = store_bytes (sp_data buffer + (count + 1)) (take k (stream h2)) (ram ?e2)"
      "ax e' = ax e" "normal (hw e')" "sent (hw e') = sent h2"
      using less.hyps [of ?e2 "count + 1"] s c by auto
    have lt: "unat count < unat (sp_size buffer)" using True by (simp add: word_less_nat_alt)
    show ?thesis
    proof (intro exI conjI)
      show "fill_rx P buffer count e = Some (count + of_nat (Suc k), e')"
        using step k(1) by (simp add: algebra_simps)
      show "Suc k \<le> unat (sp_size buffer) - unat count" using k(2) lt by linarith
      show "min (unat (sp_size buffer) - unat count) (level (hw e)) \<le> Suc k"
        using k(3) s(3) by linarith
      show "stream (hw e) = take (Suc k) (stream (hw e)) @ stream (hw e')" using s(1) k(4) by simp
      show "length (take (Suc k) (stream (hw e))) = Suc k" using s(1) k(5) by simp
      show "ram e' = store_bytes (sp_data buffer + count) (take (Suc k) (stream (hw e))) (ram e)"
        using s(1) k(6) by (simp add: store_u8_def add.assoc)
    qed (use k s in auto)
  qed
qed

lemma flush_rx_returns:
  assumes "normal (hw e)"
  shows "\<exists>bs e'. flush_rx P e = Some e' \<and> level (hw e') = 0 \<and> ram e' = ram e \<and> ax e' = ax e \<and>
    normal (hw e') \<and> sent (hw e') = sent (hw e) \<and> stream (hw e) = bs @ stream (hw e')"
  using assms
proof (induction "length (stream (hw e))" arbitrary: e rule: less_induct)
  case less
  obtain v h1 where r1: "bus_rd P LSR (hw e) = (v, h1)" by fastforce
  note l = rd_lsr [OF less.prems r1]
  show ?case
  proof (cases "v AND 0x01 \<noteq> 0")
    case False
    then show ?thesis using l by (subst flush_rx.simps) (simp add: mmio_read_def r1)
  next
    case True
    obtain w h2 where r2: "bus_rd P RBR_THR_DLL h1 = (w, h2)" by fastforce
    have "level h1 \<noteq> 0" using True l by simp
    note b = rd_rbr [OF _ this r2]
    have "flush_rx P e = flush_rx P (e\<lparr>hw := h2\<rparr>)"
      using True by (subst flush_rx.simps) (simp add: mmio_read_def r1 r2)
    moreover have s: "stream (hw e) = ucast w # stream h2" "normal h2" "sent h2 = sent (hw e)"
      using l b by auto
    moreover obtain bs e' where "flush_rx P (e\<lparr>hw := h2\<rparr>) = Some e'" "level (hw e') = 0" "ram e' = ram e" "ax e' = ax e"
      "normal (hw e')" "sent (hw e') = sent h2" "stream h2 = bs @ stream (hw e')"
      using less.hyps [of "e\<lparr>hw := h2\<rparr>"] s by auto
    ultimately show ?thesis by (intro exI [of _ "ucast w # bs"] exI [of _ e']) simp
  qed
qed

lemma wait_tx_ready_returns:
  assumes "normal (hw e)"
  shows "\<exists>e'. wait_tx_ready P e = Some e' \<and> ram e' = ram e \<and> ax e' = ax e \<and> normal (hw e') \<and>
    ready (hw e') \<and> sent (hw e') = sent (hw e)"
  using assms
proof (induction "wait (hw e)" arbitrary: e rule: less_induct)
  case less
  obtain v h1 where r1: "bus_rd P LSR (hw e) = (v, h1)" by fastforce
  note l = rd_lsr [OF less.prems r1]
  show ?case
  proof (cases "v AND 0x20 = 0")
    case False
    then show ?thesis using l by (subst wait_tx_ready.simps) (simp add: mmio_read_def r1)
  next
    case True
    then have "wait_tx_ready P e = wait_tx_ready P (e\<lparr>hw := h1\<rparr>)"
      by (subst wait_tx_ready.simps) (simp add: mmio_read_def r1)
    then show ?thesis using True l less.hyps [of "e\<lparr>hw := h1\<rparr>"] by simp
  qed
qed

lemma send_bytes_returns:
  assumes "normal (hw e)"
  shows "\<exists>e'. send_bytes P bs e = Some e' \<and> ram e' = ram e \<and> ax e' = ax e \<and> normal (hw e') \<and>
    sent (hw e') = sent (hw e) @ bs"
  using assms
proof (induction bs arbitrary: e)
  case Nil
  then show ?case by simp
next
  case (Cons b bs)
  obtain e1 where w: "wait_tx_ready P e = Some e1" "ram e1 = ram e" "ax e1 = ax e" "normal (hw e1)"
    "sent (hw e1) = sent (hw e)" "ready (hw e1)"
    using wait_tx_ready_returns [OF Cons.prems] by blast
  let ?e2 = "mmio_write P RBR_THR_DLL (ucast b) e1"
  have h2: "hw ?e2 = bus_wr P RBR_THR_DLL (ucast b) (hw e1)" by (simp add: mmio_write_def)
  have "normal (hw ?e2)" "sent (hw ?e2) = sent (hw e) @ [b]"
    using wr_thr [OF w(4,6), of "ucast b"] w(5) h2 by simp_all
  then show ?case using Cons.IH [of ?e2] w by auto
qed

end

lemma uart_inv_static: "uart_inv uart_static"
  by (simp add: uart_inv_def uart_static_def)

lemma pop_read_request_Cons:
  assumes "uart_inv u" and "readers u = r # rs"
  shows "\<exists>u'. pop_read_request d u = (True, r, u') \<and> uart_inv u' \<and> readers u' = rs \<and> writers u' = writers u"
  using dq.deq_Cons [of "pending_read_requests u" r rs d] assms
  by (auto simp: pop_read_request_def uart_inv_def readers_def writers_def)

lemma pop_read_request_Nil:
  assumes "uart_inv u" and "readers u = []"
  shows "\<exists>u'. pop_read_request d u = (False, d, u') \<and> uart_inv u' \<and> readers u' = [] \<and> writers u' = writers u"
  using dq.deq_empty [of "pending_read_requests u" d] assms
  by (auto simp: pop_read_request_def uart_inv_def readers_def writers_def)

subsection \<open>The receiver over time\<close>

text \<open>The polling loops do not touch the dispatcher.\<close>

lemma flush_rx_ax:
  assumes "flush_rx P e = Some r"
  shows "ax r = ax e"
proof -
  have "ax r = ax (snd (P, e))"
  proof (rule flush_rx.raw_induct [where Pa = "\<lambda>x r. ax r = ax (snd x)", OF _ assms])
    fix f and P :: "('h, 'x) platform" and e r
    assume IH: "\<And>P e r. f P e = Some r \<Longrightarrow> ax r = ax (snd (P, e))"
      and body: "(let (lsr, e1) = mmio_read P LSR e
        in if lsr AND 0x01 \<noteq> 0 then f P (snd (mmio_read P RBR_THR_DLL e1)) else Some e1) = Some r"
    from body show "ax r = ax (snd (P, e))"
      by (auto simp: case_prod_beta Let_def dest!: IH split: if_splits)
  qed
  then show ?thesis by simp
qed

lemma fill_rx_ax:
  assumes "fill_rx P b c e = Some r"
  shows "ax (snd r) = ax e"
proof -
  have "ax (snd r) = ax (snd (((P, b), c), e))"
  proof (rule fill_rx.raw_induct [where Pa = "\<lambda>x r. ax (snd r) = ax (snd x)", OF _ assms])
    fix f and P :: "('h, 'x) platform" and b c e r
    assume IH: "\<And>P b c e r. f P b c e = Some r \<Longrightarrow> ax (snd r) = ax (snd (((P, b), c), e))"
      and body: "(let (lsr, e1) = mmio_read P LSR e
        in if lsr AND 0x01 \<noteq> 0 \<and> c < sp_size b
           then let (v, e2) = mmio_read P RBR_THR_DLL e1
                in f P b (c + 1) (store_u8 (sp_data b + c) (ucast v) e2)
           else Some (c, e1)) = Some r"
    from body show "ax (snd r) = ax (snd (((P, b), c), e))"
      by (auto simp: case_prod_beta Let_def dest!: IH split: if_splits)
  qed
  then show ?thesis by simp
qed

lemma wait_tx_ready_ax:
  assumes "wait_tx_ready P e = Some r"
  shows "ax r = ax e"
proof -
  have "ax r = ax (snd (P, e))"
  proof (rule wait_tx_ready.raw_induct [where Pa = "\<lambda>x r. ax r = ax (snd x)", OF _ assms])
    fix f and P :: "('h, 'x) platform" and e r
    assume IH: "\<And>P e r. f P e = Some r \<Longrightarrow> ax r = ax (snd (P, e))"
      and body: "(let (lsr, e1) = mmio_read P LSR e in if lsr AND 0x20 = 0 then f P e1 else Some e1) = Some r"
    from body show "ax r = ax (snd (P, e))"
      by (auto simp: case_prod_beta Let_def dest!: IH split: if_splits)
  qed
  then show ?thesis by simp
qed

lemma send_bytes_ax: "send_bytes P bs e = Some e' \<Longrightarrow> ax e' = ax e"
  by (induction bs arbitrary: e) (auto simp: bind_eq_Some_conv dest!: wait_tx_ready_ax)

datatype uart_event = Read_begins | Rx_interrupt | Other_interrupt | Uart_elsewhere

text \<open>Whether an interrupt taken now is one for received data.\<close>

definition rx_pending :: "('h, 'x) platform \<Rightarrow> ('h, 'x) env \<Rightarrow> bool" where
  "rx_pending P e \<longleftrightarrow> (let iir = fst (mmio_read P IIR_FCR e) AND 0x0F in iir = 0x04 \<or> iir = 0x0C)"

text \<open>The request an awaiter at \<open>self\<close> leaves.\<close>

definition read_request :: "u32 \<Rightarrow> handle \<Rightarrow> ('h, 'x) env \<Rightarrow> ReadRequest" where
  "read_request self h e =
     \<lparr>rr_handle = h, rr_buffer = load_span self (store_u32 (self + 12) h e), rr_bytes_received = self + 8\<rparr>"

inductive uart_rx_step ::
    "('h, 'x) platform \<Rightarrow> ('x \<Rightarrow> handle list) \<Rightarrow> uart \<times> ('h, 'x) env \<Rightarrow> uart_event \<Rightarrow>
     ReadRequest list \<Rightarrow> ReadRequest list \<Rightarrow> uart \<times> ('h, 'x) env \<Rightarrow> bool"
  for P :: "('h, 'x) platform" and log :: "'x \<Rightarrow> handle list" where
  read_begins: "AsyncReadAwaiter_await_suspend P self h u e = (u', e') \<Longrightarrow>
    uart_rx_step P log (u, e) Read_begins (if length (readers u) < 8 then [read_request self h e] else []) [] (u', e')"
| received: "rx_pending P e \<Longrightarrow> UartDmaDriver_handle_isr P u e = Some (u', e') \<Longrightarrow>
    uart_rx_step P log (u, e) Rx_interrupt [] (take 1 (readers u)) (u', e')"
| other_cause: "\<not> rx_pending P e \<Longrightarrow> UartDmaDriver_handle_isr P u e = Some (u', e') \<Longrightarrow>
    uart_rx_step P log (u, e) Other_interrupt [] [] (u', e')"
| uart_elsewhere: "log x = log (ax e) @ ps \<Longrightarrow> uart_inv u' \<Longrightarrow> pending_read_requests u' = pending_read_requests u \<Longrightarrow>
    uart_rx_step P log (u, e) Uart_elsewhere [] [] (u', \<lparr>hw = h, ax = x, ram = r\<rparr>)"

lemma await_read_readers:
  assumes "uart_inv u" and "AsyncReadAwaiter_await_suspend P self h u e = (u', e')"
  shows "uart_inv u'" and "writers u' = writers u"
    and "readers u' = readers u @ (if length (readers u) < 8 then [read_request self h e] else [])"
proof -
  have "u' = u\<lparr>pending_read_requests := snd (push_from_isr (read_request self h e) (pending_read_requests u))\<rparr>"
    using assms(2)
    by (auto simp: AsyncReadAwaiter_await_suspend_def queue_read_request_def read_request_def case_prod_beta Let_def)
  then show "uart_inv u'" "writers u' = writers u"
    "readers u' = readers u @ (if length (readers u) < 8 then [read_request self h e] else [])"
    using assms(1) by (simp_all add: uart_inv_def readers_def writers_def dq_simps)
qed

text \<open>What the receive interrupt does to the waiting readers.\<close>

lemma uart_isr_readers:
  assumes "uart_inv u" and "UartDmaDriver_handle_isr P u e = Some (u', e')"
  shows "uart_inv u'" and "readers u = (if rx_pending P e then take 1 (readers u) else []) @ readers u'"
    and "writers u' = writers u"
proof -
  obtain v e1 where r: "mmio_read P IIR_FCR e = (v, e1)" by fastforce
  obtain ok q u1 where p: "pop_read_request ReadRequest_default u = (ok, q, u1)" by (metis prod.exhaust)
  have "u' = (if rx_pending P e then u1 else u)"
    using assms(2) r p
    by (auto simp: UartDmaDriver_handle_isr_def rx_pending_def bind_eq_Some_conv Let_def split: if_splits)
  moreover have "uart_inv u1 \<and> readers u = take 1 (readers u) @ readers u1 \<and> writers u1 = writers u"
    using p pop_read_request_Nil [OF assms(1), of ReadRequest_default]
      pop_read_request_Cons [OF assms(1), of _ _ ReadRequest_default]
    by (cases "readers u") force+
  ultimately show "uart_inv u'" "readers u = (if rx_pending P e then take 1 (readers u) else []) @ readers u'"
    "writers u' = writers u"
    using assms(1) by auto
qed

context dispatcher
begin

lemma log_await_read:
  "AsyncReadAwaiter_await_suspend P self h u e = (u', e') \<Longrightarrow> log (ax e') = log (ax e)"
  by (auto simp: AsyncReadAwaiter_await_suspend_def queue_read_request_def case_prod_beta Let_def)

lemma log_uart_isr:
  assumes "uart_inv u" and "UartDmaDriver_handle_isr P u e = Some (u', e')"
  shows "log (ax e') = log (ax e) @ (if rx_pending P e then map rr_handle (take 1 (readers u)) else [])"
proof -
  obtain v e1 where r: "mmio_read P IIR_FCR e = (v, e1)" by fastforce
  have ax: "ax e1 = ax e" using ax_mmio(1) [of P IIR_FCR e] r by simp
  show ?thesis
  proof (cases "readers u")
    case Nil
    then show ?thesis
      using assms(2) r ax pop_read_request_Nil [OF assms(1) Nil, of ReadRequest_default]
      by (auto simp: UartDmaDriver_handle_isr_def rx_pending_def bind_eq_Some_conv Let_def
          dest!: flush_rx_ax split: if_splits)
  next
    case (Cons q qs)
    then show ?thesis
      using assms(2) r ax pop_read_request_Cons [OF assms(1) Cons, of ReadRequest_default]
      by (auto simp: UartDmaDriver_handle_isr_def rx_pending_def bind_eq_Some_conv Let_def
          dest!: fill_rx_ax split: if_splits)
  qed
qed

end

text \<open>The receiver is a server: every interrupt for received data finishes a read.\<close>

sublocale dispatcher \<subseteq> receive_server: working_server "uart_rx_step P log" "uart_inv \<circ> fst" "readers \<circ> fst"
  "\<lambda>s. log (ax (snd s))" "\<lambda>r. [rr_handle r]" "\<lambda>s. readers (fst s) \<noteq> []" "\<lambda>ev. ev = Rx_interrupt"
proof
  fix s s' :: "uart \<times> ('h, 'x) env" and ev a f
  assume step: "uart_rx_step P log s ev a f s'" and inv: "(uart_inv \<circ> fst) s"
  show "(uart_inv \<circ> fst) s'"
    using step inv by cases (auto intro: await_read_readers(1) uart_isr_readers(1))
  show "(readers \<circ> fst) s @ a = f @ (readers \<circ> fst) s'"
    using step
  proof cases
    case (read_begins self h u e u' e')
    then show ?thesis using await_read_readers(3) [of u P self h e u' e'] inv by simp
  next
    case (received e u u' e')
    then show ?thesis using uart_isr_readers(2) [of u P e u' e'] inv by simp
  next
    case (other_cause e u u' e')
    then show ?thesis using uart_isr_readers(2) [of u P e u' e'] inv by simp
  qed (simp add: readers_def)
  show "\<exists>ps. log (ax (snd s')) = log (ax (snd s)) @ ps \<and> subseq (concat (map (\<lambda>r. [rr_handle r]) f)) ps"
    using step inv by cases (auto simp: log_await_read log_uart_isr)
  show "f \<noteq> []" if "readers (fst s) \<noteq> []" "ev = Rx_interrupt"
    using step that by cases auto
  show "readers (fst s') \<noteq> []" if "(readers \<circ> fst) s' \<noteq> []" using that by simp
qed

context dispatcher
begin

lemma uart_rx_run:
  assumes "served_run (uart_rx_step P log) (uart_static, e0) evs acc fin (u, e)"
    and "served_run (uart_rx_step P log) (u, e) evs' acc' fin' (u', e')"
    and "i < length (readers u)" and "i < length (filter (\<lambda>ev. ev = Rx_interrupt) evs')"
  shows "acc = fin @ readers u" and "take (Suc i) fin' = take (Suc i) (readers u)"
    and "\<exists>ps. log (ax e') = log (ax e) @ ps \<and> subseq (map rr_handle (take (Suc i) (readers u))) ps"
proof -
  have inv: "(uart_inv \<circ> fst) (uart_static, e0)" by (simp add: uart_inv_static)
  have w: "readers (fst (u, e)) \<noteq> []" and i: "i < length ((readers \<circ> fst) (u, e))" using assms(3) by auto
  note later = receive_server.run_inv [OF assms(1) inv]
  show "acc = fin @ readers u"
    using receive_server.run_order [OF assms(1) inv] by (simp add: uart_static_def readers_def)
  show "take (Suc i) fin' = take (Suc i) (readers u)"
    using receive_server.request_finished [OF assms(2) later w i assms(4)] by simp
  show "\<exists>ps. log (ax e') = log (ax e) @ ps \<and> subseq (map rr_handle (take (Suc i) (readers u))) ps"
    using receive_server.request_resumed [OF assms(2) later w i assms(4)] by (simp add: concat_map_singleton)
qed

end

subsection \<open>Properties\<close>

text \<open>Initialisation programs the divisor of the requested rate: unless \<open>16 * baudrate\<close> wraps to
  zero, afterwards the divisor latches hold the low 16 bits of the divisor, which is the clock
  divided by sixteen times the baud rate and never zero, the latch access bit is off again and the
  receive interrupt is enabled.\<close>

theorem uart_init_programs_divisor:
  assumes "uart_latch P lcr dll dlh ier" and "baud \<noteq> 0" and "clock \<noteq> 0" and "unat baud < 2 ^ 28"
  shows "\<exists>(divisor :: u32) e'. UartDmaDriver_init P baud clock e = Inr e' \<and>
    unat divisor = max 1 (unat clock div (16 * unat baud)) \<and>
    unat (dll (hw e')) + 256 * unat (dlh (hw e')) = unat divisor mod 65536 \<and>
    lcr (hw e') = 3 \<and> \<not> bit (lcr (hw e')) 7 \<and> ier (hw e') = 1"
proof -
  have b: "unat (16 * baud) = 16 * unat baud" using assms(4) by (simp add: unat_word_ariths)
  have nz: "16 * baud \<noteq> 0"
  proof
    assume "16 * baud = 0"
    then have "unat baud = 0" using b by simp
    then show False using assms(2) by (simp add: unat_eq_zero)
  qed
  define d where "d = (if clock div (16 * baud) = 0 then 1 else clock div (16 * baud))"
  have q: "unat (clock div (16 * baud)) = unat clock div (16 * unat baud)"
    using b by (simp add: unat_div_distrib)
  have d: "uart_divisor baud clock = Inr d" "unat d = max 1 (unat clock div (16 * unat baud))"
    using assms(2,3) nz q by (auto simp: uart_divisor_def d_def Let_def word_unat_eq_iff max_def)
  have m: "(0xFF :: u32) = mask 8" by (simp add: mask_eq_exp_minus_1)
  have lo: "unat (d AND 0xFF) = unat d mod 256"
    unfolding m take_bit_eq_mask [symmetric] unsigned_take_bit_eq by (simp add: take_bit_eq_mod)
  have hi: "unat (drop_bit 8 d AND 0xFF) = unat d div 256 mod 256"
    unfolding m take_bit_eq_mask [symmetric] unsigned_take_bit_eq unat_drop_bit_eq
    by (simp add: take_bit_eq_mod drop_bit_eq_div)
  have split: "unat d mod 256 + 256 * (unat d div 256 mod 256) = unat d mod 65536"
    using mod_mult2_eq [of "unat d" 256 256] by simp
  have dlab: "bit (0x80 :: u32) 7" "\<not> bit (0x03 :: u32) 7" by code_simp+
  show ?thesis
    using assms(1) d split dlab
    by (intro exI [of _ d]) (simp add: UartDmaDriver_init_def Let_def mmio_write_def uart_latch_def lo hi)
qed

theorem uart_init_programs_divisor_witness:
  "\<exists>e'. UartDmaDriver_init uart_platform 115200 24000000 (uart_env []) = Inr e' \<and>
     unat (u_dll (hw e')) + 256 * unat (u_dlh (hw e')) = 13"
  using uart_init_programs_divisor [OF uart16550.uart_latch_axioms, of 115200 24000000 "uart_env []"]
  by auto

text \<open>C17. A receive interrupt delivers to the longest waiting reader: its buffer gets a prefix of the
  byte stream, in order and without loss, as long as the FIFO has bytes and the buffer has room, at
  least what the FIFO held when the interrupt began; the count is stored in its frame, its handle
  is posted once, and the rest of the stream stays for later reads.  Without a reader the interrupt empties
  the FIFO, so that it does not come again at once, and changes no memory and resumes nobody.\<close>

theorem uart_isr_delivers_in_order:
  assumes "uart_device P normal stream level sent ready wait" and "normal (hw e)" and "uart_inv u"
    and "fst (bus_rd P IIR_FCR (hw e)) AND 0x0F = 0x04 \<or> fst (bus_rd P IIR_FCR (hw e)) AND 0x0F = 0x0C"
  shows "\<exists>u' e'. UartDmaDriver_handle_isr P u e = Some (u', e') \<and> uart_inv u' \<and> writers u' = writers u \<and>
    readers u' = tl (readers u) \<and>
    (case readers u of
       [] \<Rightarrow> level (hw e') = 0 \<and> suffix (stream (hw e')) (stream (hw e)) \<and> ram e' = ram e \<and> ax e' = ax e
     | r # rs \<Rightarrow> \<exists>k. k \<le> unat (sp_size (rr_buffer r)) \<and> min (unat (sp_size (rr_buffer r))) (level (hw e)) \<le> k \<and>
         stream (hw e) = take k (stream (hw e)) @ stream (hw e') \<and>
         ax e' = isr_post P (rr_handle r) (ax e) \<and>
         ram e' = (let m = store_bytes (sp_data (rr_buffer r)) (take k (stream (hw e))) (ram e)
                   in if rr_bytes_received r \<noteq> 0
                      then store_bytes (rr_bytes_received r) (bytes_of_u32 (of_nat k)) m else m))"
proof (cases "readers u")
  case Nil
  obtain v h1 where r1: "bus_rd P IIR_FCR (hw e) = (v, h1)" by fastforce
  note i = uart_device.rd_iir [OF assms(1,2) r1]
  obtain u1 where "pop_read_request ReadRequest_default u = (False, ReadRequest_default, u1)" "uart_inv u1"
    "readers u1 = []" "writers u1 = writers u"
    using pop_read_request_Nil [OF assms(3) Nil] by blast
  moreover obtain bs e2 where "flush_rx P (e\<lparr>hw := h1\<rparr>) = Some e2" "level (hw e2) = 0" "ram e2 = ram e" "ax e2 = ax e"
    "stream (hw e) = bs @ stream (hw e2)"
    using uart_device.flush_rx_returns [OF assms(1), of "e\<lparr>hw := h1\<rparr>"] i by auto
  ultimately show ?thesis
    using r1 assms(4) Nil
    by (intro exI [of _ u1] exI [of _ e2])
      (auto simp: UartDmaDriver_handle_isr_def mmio_read_def Let_def suffix_def)
next
  case (Cons r rs)
  obtain v h1 where r1: "bus_rd P IIR_FCR (hw e) = (v, h1)" by fastforce
  note i = uart_device.rd_iir [OF assms(1,2) r1]
  obtain u1 where u1: "pop_read_request ReadRequest_default u = (True, r, u1)" "uart_inv u1"
    "readers u1 = rs" "writers u1 = writers u"
    using pop_read_request_Cons [OF assms(3) Cons] by blast
  obtain k e2 where k: "fill_rx P (rr_buffer r) 0 (e\<lparr>hw := h1\<rparr>) = Some (of_nat k, e2)"
      "k \<le> unat (sp_size (rr_buffer r))" "min (unat (sp_size (rr_buffer r))) (level h1) \<le> k"
      "stream h1 = take k (stream h1) @ stream (hw e2)" "ax e2 = ax e"
      "ram e2 = store_bytes (sp_data (rr_buffer r)) (take k (stream h1)) (ram e)"
    using uart_device.fill_rx_returns [OF assms(1), of "e\<lparr>hw := h1\<rparr>" 0 "rr_buffer r"] i by auto
  show ?thesis
    unfolding Cons list.case
    using r1 u1 i k assms(4)
    by (intro exI [of _ u1] exI [of _ "post P (rr_handle r) (if rr_bytes_received r \<noteq> 0
          then store_u32 (rr_bytes_received r) (of_nat k) e2 else e2)"] conjI exI [of _ k])
      (auto simp: UartDmaDriver_handle_isr_def mmio_read_def Let_def post_def store_u32_def)
qed

theorem uart_isr_delivers_in_order_witness:
  "\<exists>u' e' k. UartDmaDriver_handle_isr uart_platform
       (fst (AsyncReadAwaiter_await_suspend uart_platform 0x80100 0x80200 uart_static
         (uart_async_read 0x80100 \<lparr>sp_data = 0x81000, sp_size = 2\<rparr> (uart_env [7, 8, 9]))))
       (uart_env [7, 8, 9]) = Some (u', e') \<and> k = 2 \<and> u_rx (hw e') = drop k [7, 8, 9]"
proof -
  let ?u = "fst (AsyncReadAwaiter_await_suspend uart_platform 0x80100 0x80200 uart_static
    (uart_async_read 0x80100 \<lparr>sp_data = 0x81000, sp_size = 2\<rparr> (uart_env [7, 8, 9])))"
  let ?e = "uart_env [7, 8, 9]"
  have s: "load_span 0x80100 (store_u32 0x8010C 0x80200 (uart_async_read 0x80100
      \<lparr>sp_data = 0x81000, sp_size = 2\<rparr> ?e)) = \<lparr>sp_data = 0x81000, sp_size = 2\<rparr>"
    by (simp add: load_span_def uart_async_read_def store_u32_def load_u32_def bytes_of_u32_def
        u32_of_bytes_def)
  have i: "uart_inv ?u" and r: "readers ?u = [\<lparr>rr_handle = 0x80200,
      rr_buffer = \<lparr>sp_data = 0x81000, sp_size = 2\<rparr>, rr_bytes_received = 0x80108\<rparr>]"
    using uart_inv_static
    by (simp_all add: AsyncReadAwaiter_await_suspend_def queue_read_request_def Let_def s
        case_prod_beta uart_inv_def readers_def dq_simps uart_static_def)
  have "\<not> bit (3 :: u32) 7" by code_simp
  then have n: "\<not> bit (u_lcr (hw ?e)) 7" by (simp add: uart_env_def)
  have v: "fst (bus_rd uart_platform IIR_FCR (hw ?e)) AND 0x0F = 0x04"
    by (simp add: uart_platform_def uart_env_def)
  have rx: "u_rx (hw ?e) = [7, 8, 9]" by (simp add: uart_env_def)
  from uart_isr_delivers_in_order [OF uart_sim.uart_device_axioms n i disjI1, OF v, unfolded r list.case]
  obtain u' e' k where "UartDmaDriver_handle_isr uart_platform ?u ?e = Some (u', e')"
    "k \<le> unat (sp_size \<lparr>sp_data = 0x81000, sp_size = 2\<rparr>)"
    "min (unat (sp_size \<lparr>sp_data = 0x81000, sp_size = 2\<rparr>)) (length (u_rx (hw ?e))) \<le> k"
    "u_rx (hw ?e) = take k (u_rx (hw ?e)) @ u_rx (hw e')"
    by (simp only: ReadRequest.simps) blast
  moreover from this have "k = 2" by (simp add: rx)
  ultimately show ?thesis unfolding rx by (intro exI [of _ u'] exI [of _ e'] exI [of _ 2]) simp
qed

text \<open>C23. Every read ends: over any run of the receiver from its static state, the reads that were accepted are those that have
  ended followed by those still queued, in order, and a coroutine with \<open>i\<close> others before it is resumed by the
  receive interrupt number \<open>i + 1\<close> from then on, after those before it, whatever reads, writes, other interrupts and
  other activity come in between.\<close>

theorem uart_readers_resumed:
  assumes "dispatcher P log"
    and "served_run (uart_rx_step P log) (uart_static, e0) evs acc fin (u, e)"
    and "served_run (uart_rx_step P log) (u, e) evs' acc' fin' (u', e')"
    and "i < length (readers u)" and "i < length (filter (\<lambda>ev. ev = Rx_interrupt) evs')"
  shows "acc = fin @ readers u \<and> take (Suc i) fin' = take (Suc i) (readers u) \<and>
    (\<exists>ps. log (ax e') = log (ax e) @ ps \<and> subseq (map rr_handle (take (Suc i) (readers u))) ps)"
  using dispatcher.uart_rx_run [OF assms] by blast

theorem uart_readers_resumed_witness:
  "\<exists>u' e' ps r. served_run (uart_rx_step uart_platform posted) (uart_static, uart_env [65]) [Read_begins, Rx_interrupt]
      [r] [r] (u', e') \<and> posted (ax e') = posted (ax (uart_env [65])) @ ps \<and> subseq [0x80200] ps"
proof -
  let ?step = "uart_rx_step uart_platform posted" and ?e0 = "uart_env [65]"
  let ?r = "read_request 0x80100 0x80200 ?e0"
  obtain u e where s: "AsyncReadAwaiter_await_suspend uart_platform 0x80100 0x80200 uart_static ?e0 = (u, e)"
    by fastforce
  have "readers uart_static = []" by (simp add: readers_def uart_static_def)
  with await_read_readers [OF uart_inv_static s] have w: "uart_inv u" "readers u = [?r]" by simp_all
  have one: "served_run ?step (uart_static, ?e0) [Read_begins] [?r] [] (u, e)"
    using served_one [of ?step, OF uart_rx_step.read_begins [OF s]] \<open>readers uart_static = []\<close> by simp
  have h: "hw e = hw ?e0"
    using s by (auto simp: AsyncReadAwaiter_await_suspend_def queue_read_request_def case_prod_beta Let_def)
  then have p: "rx_pending uart_platform e"
    by (simp add: rx_pending_def mmio_read_def uart_platform_def uart_env_def)
  obtain v e1 where r: "mmio_read uart_platform IIR_FCR e = (v, e1)" by fastforce
  have "\<not> bit (3 :: u32) 7" by code_simp
  then have "\<not> bit (u_lcr (hw e1)) 7"
    using r h by (auto simp: mmio_read_def uart_platform_def uart_env_def)
  from uart_sim.fill_rx_returns [OF this, of 0 "rr_buffer ?r"]
  obtain k e2 where "fill_rx uart_platform (rr_buffer ?r) 0 e1 = Some (k, e2)" by auto
  then obtain u' e' where t: "UartDmaDriver_handle_isr uart_platform u e = Some (u', e')"
    using r p pop_read_request_Cons [OF w(1,2), of ReadRequest_default]
    by (auto simp: UartDmaDriver_handle_isr_def rx_pending_def Let_def)
  have two: "served_run ?step (u, e) [Rx_interrupt] [] [?r] (u', e')"
    using served_one [of ?step, OF uart_rx_step.received [OF p t]] w(2) by simp
  have "\<exists>ps. posted (ax e') = posted (ax e) @ ps \<and> subseq (map rr_handle (take (Suc 0) (readers u))) ps"
    using uart_readers_resumed [OF uart_log.dispatcher_axioms one two, of 0] w(2) by simp
  moreover have "posted (ax e) = posted (ax ?e0)" using uart_log.log_await_read [OF s] .
  ultimately show ?thesis
    using served_append [OF one two] w(2) by (auto simp: read_request_def)
qed

text \<open>C31. An asynchronous write sends every byte of its buffer, in order, and completes: with no
  other write pending, the transmit loop waits before each byte until the holding register is empty, so
  that none is lost, and ends; the bytes on the line are exactly the buffer, the coroutine is posted
  exactly once and no write request is left behind.\<close>

theorem uart_write_sends_all_and_posts_once:
  assumes "uart_device P normal stream level sent ready wait" and "dispatcher P log" and "normal (hw e)"
    and "uart_inv u" and "writers u = []"
  shows "\<exists>u' e'. AsyncWriteAwaiter_await_suspend P self h u e = Some (u', e') \<and> uart_inv u' \<and>
    writers u' = [] \<and> readers u' = readers u \<and>
    sent (hw e') = sent (hw e) @ span_bytes (load_span self (store_u32 (self + 8) h e))
      (store_u32 (self + 8) h e) \<and>
    log (ax e') = log (ax e) @ [h]"
proof -
  let ?e1 = "store_u32 (self + 8) h e"
  let ?s = "load_span self ?e1"
  obtain q e2 where p: "with_ax (push (taccess P) \<lparr>wr_handle = h, wr_data = ?s\<rparr>
      (pending_write_requests u)) ?e1 = ((True, q), e2)"
    and q: "dq_inv q" "q_list q = [\<lparr>wr_handle = h, wr_data = ?s\<rparr>]"
    and e2: "hw e2 = hw e" "ram e2 = ram ?e1" "log (ax e2) = log (ax e)"
  proof -
    let ?w = "with_ax (push (taccess P) \<lparr>wr_handle = h, wr_data = ?s\<rparr> (pending_write_requests u)) ?e1"
    obtain q where "push_from_isr \<lparr>wr_handle = h, wr_data = ?s\<rparr> (pending_write_requests u) = (True, q)"
      "dq_inv q" "q_list q = [\<lparr>wr_handle = h, wr_data = ?s\<rparr>]"
      using dq.enq_room [of "pending_write_requests u"] assms(4,5)
      by (auto simp: uart_inv_def writers_def)
    moreover have "log (ax (snd ?w)) = log (ax e)"
      by (simp add: with_ax_def push_def Let_def dispatcher.log_lock [OF assms(2)]
          dispatcher.log_unlock [OF assms(2)])
    ultimately show ?thesis
      using that [of q "snd ?w"] with_ax_push [of "taccess P" "\<lparr>wr_handle = h, wr_data = ?s\<rparr>"
          "pending_write_requests u" ?e1]
      by (simp add: prod_eq_iff)
  qed
  have s2: "load_span self e2 = ?s" "span_bytes ?s e2 = span_bytes ?s ?e1"
    using e2(2) by (simp_all add: load_span_def load_u32_def span_bytes_def)
  obtain e3 where e3: "send_bytes P (span_bytes ?s ?e1) e2 = Some e3" "ax e3 = ax e2"
    "sent (hw e3) = sent (hw e) @ span_bytes ?s ?e1"
    using uart_device.send_bytes_returns [OF assms(1), of e2] assms(3) e2(1) by metis
  obtain q' where "pop_from_isr WriteRequest_default q = (True, \<lparr>wr_handle = h, wr_data = ?s\<rparr>, q')"
    "dq_inv q'" "q_list q' = []"
    using dq.deq_Cons [OF q] by blast
  then show ?thesis
    using assms(4) e2 e3 s2 p dispatcher.log_of_post [OF assms(2), of h e3]
    by (simp add: AsyncWriteAwaiter_await_suspend_def queue_write_request_def Let_def start_tx_dma_def
        handle_tx_dma_isr_def pop_write_request_def uart_inv_def writers_def readers_def)
qed

theorem uart_write_sends_all_and_posts_once_witness:
  "\<exists>u' e'. AsyncWriteAwaiter_await_suspend uart_platform 0x80100 0x80200 uart_static
      (uart_async_write 0x80100 \<lparr>sp_data = 0x81000, sp_size = 2\<rparr> (uart_env [])) = Some (u', e') \<and>
     u_tx (hw e') = [0, 0] \<and> posted (ax e') = [0x80200]"
proof -
  let ?e = "uart_async_write 0x80100 \<lparr>sp_data = 0x81000, sp_size = 2\<rparr> (uart_env [])"
  have "\<not> bit (3 :: u32) 7" by code_simp
  then have "\<not> bit (u_lcr (hw ?e)) 7" by (simp add: uart_env_def uart_async_write_def)
  moreover have "writers uart_static = []" by (simp add: writers_def uart_static_def)
  moreover have "load_span 0x80100 (store_u32 0x80108 0x80200 ?e) = \<lparr>sp_data = 0x81000, sp_size = 2\<rparr>"
    by (simp add: load_span_def uart_async_write_def store_u32_def load_u32_def bytes_of_u32_def
        u32_of_bytes_def)
  moreover have "load_bytes 0x81000 (Suc (Suc 0)) (ram (store_u32 0x80108 0x80200 ?e)) = [0, 0]"
    by (simp add: uart_async_write_def store_u32_def bytes_of_u32_def uart_env_def sim_env_def)
  then have "load_bytes 0x81000 2 (ram (store_u32 0x80108 0x80200 ?e)) = [0, 0]"
    by (simp only: numeral_2_eq_2)
  moreover have "u_tx (hw ?e) = []" "posted (ax ?e) = []"
    by (simp_all add: uart_async_write_def uart_env_def sim_env_def)
  ultimately show ?thesis
    using uart_write_sends_all_and_posts_once [OF uart_sim.uart_device_axioms
        uart_log.dispatcher_axioms _ uart_inv_static, of ?e "0x80100" "0x80200"]
    by (auto simp: span_bytes_def)
qed

text \<open>Some baud rates divide by zero: for every nonzero multiple of \<open>2 ^ 28\<close> the product
  \<open>16 * baudrate\<close> wraps to zero, the guard against a zero baud rate does not catch it, and the
  initialisation has no defined result.\<close>

theorem uart_init_division_by_zero:
  assumes "0 < k" and "k < 16"
  shows "UartDmaDriver_init P (of_nat (k * 2 ^ 28)) clock e = Inl Division_by_zero \<and>
    (of_nat (k * 2 ^ 28) :: u32) \<noteq> 0"
proof -
  have "unat (of_nat (k * 2 ^ 28) :: u32) = k * 2 ^ 28"
    unfolding unat_of_nat by (rule mod_less) (use assms in simp)
  then have "(of_nat (k * 2 ^ 28) :: u32) \<noteq> 0" using assms(1) by (auto simp: word_unat_eq_iff)
  moreover have "16 * (of_nat (k * 2 ^ 28) :: u32) = of_nat (2 ^ 32 * k)" by simp
  moreover have "(of_nat (2 ^ 32 * k) :: u32) = 0"
    unfolding word_unat_eq_iff unat_of_nat by simp
  ultimately show ?thesis by (simp add: UartDmaDriver_init_def uart_divisor_def Let_def)
qed

theorem uart_init_division_by_zero_witness:
  "UartDmaDriver_init uart_platform 0x10000000 24000000 (uart_env []) = Inl Division_by_zero"
  using uart_init_division_by_zero [of 1 uart_platform 24000000 "uart_env []"] by simp

end
