(* ===== verification/Trace_Log.thy ===== *)
theory Trace_Log
  imports Memory_Map
begin

text \<open>
  \<^verbatim>\<open>hal/include/hal_trace.hpp\<close>: the text log in the buffer the resource table advertises.  Characters are
  stored through 8-bit volatile stores.  A C string is the list of its characters before the
  terminator; \<open>None\<close> is the null pointer.
\<close>

subsection \<open>State and operations\<close>

definition TRACE_BUFFER_ADDR :: u32 where
  "TRACE_BUFFER_ADDR = IPC_TRACE_BUFFER_ADDR"

definition TRACE_BUFFER_SIZE :: u32 where
  "TRACE_BUFFER_SIZE = IPC_TRACE_BUFFER_SIZE"

record trace =
  tr_offset :: u32
  tr_wrapped :: bool

definition trace_static :: trace where
  "trace_static = \<lparr>tr_offset = 0, tr_wrapped = False\<rparr>"

definition trace_buffer :: u32 where
  "trace_buffer = TRACE_BUFFER_ADDR"

type_synonym ('h, 'x) tracing = "trace \<times> ('h, 'x) env"

definition put_char_unlocked :: "('h, 'x) platform \<Rightarrow> char \<Rightarrow> ('h, 'x) tracing \<Rightarrow> ('h, 'x) tracing" where
  "put_char_unlocked P c te =
     (let (t, e) = te;
          t1 = (if tr_offset t \<ge> TRACE_BUFFER_SIZE - 1 then t\<lparr>tr_offset := 0, tr_wrapped := True\<rparr> else t)
      in (t1\<lparr>tr_offset := tr_offset t1 + 1\<rparr>,
          mmio_write8 P (trace_buffer + tr_offset t1) (of_char c) e))"

definition terminate_unlocked :: "('h, 'x) platform \<Rightarrow> ('h, 'x) tracing \<Rightarrow> ('h, 'x) tracing" where
  "terminate_unlocked P te =
     (let (t, e) = te in (t, mmio_write8 P (trace_buffer + tr_offset t) 0 e))"

text \<open>The loop over the characters of a string.\<close>

definition put_string_unlocked :: "('h, 'x) platform \<Rightarrow> string \<Rightarrow> ('h, 'x) tracing \<Rightarrow> ('h, 'x) tracing" where
  "put_string_unlocked P text te = fold (put_char_unlocked P) text te"

definition Trace_puts :: "('h, 'x) platform \<Rightarrow> string option \<Rightarrow> ('h, 'x) tracing \<Rightarrow> ('h, 'x) tracing" where
  "Trace_puts P text te =
     (case text of
        None \<Rightarrow> te
      | Some s \<Rightarrow>
          (let (t, e) = te;
               (flags, e1) = irq_save P e;
               (t2, e2) = terminate_unlocked P (put_string_unlocked P s (t, e1))
           in (t2, irq_restore P flags e2)))"

definition Trace_init :: "('h, 'x) platform \<Rightarrow> ('h, 'x) tracing \<Rightarrow> ('h, 'x) tracing" where
  "Trace_init P te =
     (let (t, e) = te;
          e1 = fold (\<lambda>i. mmio_write8 P (trace_buffer + of_nat i) 0) [0 ..< unat TRACE_BUFFER_SIZE] e
      in Trace_puts P (Some (''[riscv] trace init'' @ [CHR 0x0A]))
           (t\<lparr>tr_offset := 0, tr_wrapped := False\<rparr>, e1))"

definition hex_digits :: string where
  "hex_digits = ''0123456789abcdef''"

definition hex_text :: "u32 \<Rightarrow> string" where
  "hex_text value =
     map (\<lambda>shift. hex_digits ! unat (drop_bit shift value AND 0xF)) [28, 24, 20, 16, 12, 8, 4, 0]"

definition put_hex32 ::
    "('h, 'x) platform \<Rightarrow> string option \<Rightarrow> u32 \<Rightarrow> ('h, 'x) tracing \<Rightarrow> ('h, 'x) tracing" where
  "put_hex32 P label value te =
     (let (t, e) = te;
          (flags, e1) = irq_save P e;
          te1 = (case label of None \<Rightarrow> (t, e1) | Some l \<Rightarrow> put_string_unlocked P l (t, e1));
          te2 = put_char_unlocked P (CHR ''x'') (put_char_unlocked P (CHR ''0'') te1);
          te3 = put_string_unlocked P (hex_text value) te2;
          (t4, e4) = terminate_unlocked P (put_char_unlocked P (CHR 0x0A) te3)
      in (t4, irq_restore P flags e4))"

text \<open>The digits in \<^verbatim>\<open>scratch\<close>, least significant first; \<open>len\<close> of them are there already.\<close>

function scratch_digits :: "nat \<Rightarrow> u32 \<Rightarrow> string" where
  "scratch_digits len value =
     char_of (48 + unat (value mod 10)) #
       (if value div 10 \<noteq> 0 \<and> len + 1 < 11 then scratch_digits (len + 1) (value div 10) else [])"
  by pat_completeness auto

termination
  by (relation "measure (\<lambda>(len, value). 11 - len)") auto

definition put_dec ::
    "('h, 'x) platform \<Rightarrow> string option \<Rightarrow> u32 \<Rightarrow> ('h, 'x) tracing \<Rightarrow> ('h, 'x) tracing" where
  "put_dec P label value te =
     (let scratch = scratch_digits 0 value;
          (t, e) = te;
          (flags, e1) = irq_save P e;
          te1 = (case label of None \<Rightarrow> (t, e1) | Some l \<Rightarrow> put_string_unlocked P l (t, e1));
          te2 = put_string_unlocked P (rev scratch) te1;
          (t3, e3) = terminate_unlocked P (put_char_unlocked P (CHR 0x0A) te2)
      in (t3, irq_restore P flags e3))"

definition Trace_used :: "trace \<Rightarrow> u32" where
  "Trace_used t = tr_offset t"

subsection \<open>Invariant and specification\<close>

definition trace_inv :: "trace \<Rightarrow> bool" where
  "trace_inv t \<longleftrightarrow> tr_offset t < TRACE_BUFFER_SIZE"

definition in_buffer :: "u32 \<Rightarrow> bool" where
  "in_buffer a \<longleftrightarrow> a - trace_buffer < TRACE_BUFFER_SIZE"

text \<open>All texts an operation can write, as one list of characters followed by the terminator.\<close>

definition emit :: "('h, 'x) platform \<Rightarrow> string \<Rightarrow> ('h, 'x) tracing \<Rightarrow> ('h, 'x) tracing" where
  "emit P text te =
     (let (t, e) = te; (flags, e1) = irq_save P e;
          (t2, e2) = terminate_unlocked P (put_string_unlocked P text (t, e1))
      in (t2, irq_restore P flags e2))"

definition label_text :: "string option \<Rightarrow> string" where
  "label_text label = (case label of None \<Rightarrow> [] | Some l \<Rightarrow> l)"

definition dec_text :: "u32 \<Rightarrow> string" where
  "dec_text value = rev (scratch_digits 0 value)"

fun digit_value :: "char \<Rightarrow> nat" where
  "digit_value c =
     (if of_char c < (58 :: nat) then of_char c - 48 else of_char c - 87)"

definition number_of_text :: "nat \<Rightarrow> string \<Rightarrow> nat" where
  "number_of_text base text = foldl (\<lambda>acc c. acc * base + digit_value c) 0 text"

text \<open>Shared memory with byte stores.\<close>

locale byte_memory =
  fixes P :: "('h, 'x) platform"
    and peek8 :: "u32 \<Rightarrow> 'h \<Rightarrow> u8"
  assumes wr8: "peek8 b (bus_wr8 P a v h) = (if a = b then v else peek8 b h)"

definition trace_text :: "(u32 \<Rightarrow> 'h \<Rightarrow> u8) \<Rightarrow> u32 \<Rightarrow> nat \<Rightarrow> 'h \<Rightarrow> u8 list" where
  "trace_text peek8 offset n h = map (\<lambda>i. peek8 (trace_buffer + offset + of_nat i) h) [0..<n]"

subsection \<open>Lemmas\<close>

declare scratch_digits.simps [simp del]

lemma puts_emits: "Trace_puts P (Some s) te = emit P s te"
  by (simp add: Trace_puts_def emit_def)

lemma puts_null [simp]: "Trace_puts P None te = te"
  by (simp add: Trace_puts_def)

lemma put_string_append:
  "put_string_unlocked P (s @ s') te = put_string_unlocked P s' (put_string_unlocked P s te)"
  by (simp add: put_string_unlocked_def)

lemma put_hex32_emits:
  "put_hex32 P label value te = emit P (label_text label @ ''0x'' @ hex_text value @ [CHR 0x0A]) te"
  by (cases label)
    (simp_all add: put_hex32_def emit_def label_text_def put_string_unlocked_def case_prod_beta Let_def)

lemma put_dec_emits:
  "put_dec P label value te = emit P (label_text label @ dec_text value @ [CHR 0x0A]) te"
  by (cases label)
    (simp_all add: put_dec_def emit_def label_text_def put_string_unlocked_def dec_text_def
      case_prod_beta Let_def)

lemma unat_TRACE_BUFFER_SIZE: "unat TRACE_BUFFER_SIZE = 32768" "unat (TRACE_BUFFER_SIZE - 1) = 32767"
  by (simp_all add: TRACE_BUFFER_SIZE_def memory_map)

lemma address_eq_iff:
  fixes a b :: u32
  assumes "n < 4294967296"
  shows "a + of_nat n = b \<longleftrightarrow> unat (b - a) = n"
proof
  assume "a + of_nat n = b"
  then have "b - a = of_nat n" by auto
  then show "unat (b - a) = n" using assms by (simp add: unat_of_nat)
next
  assume "unat (b - a) = n"
  then have "b - a = of_nat n" by auto
  then show "a + of_nat n = b" by (metis add.commute diff_add_cancel)
qed

context byte_memory
begin

lemma peek8_mmio_write8: "peek8 b (hw (mmio_write8 P a v e)) = (if a = b then v else peek8 b (hw e))"
  by (simp add: mmio_write8_def wr8)

lemma put_char_step:
  assumes "trace_inv t" and "put_char_unlocked P c (t, e) = (t', e')"
  shows "trace_inv t'" and "tr_offset t' \<noteq> 0"
    and "tr_offset t < TRACE_BUFFER_SIZE - 1 \<Longrightarrow> tr_offset t' = tr_offset t + 1"
    and "peek8 b (hw e') = (if b = trace_buffer + (tr_offset t' - 1) then of_char c else peek8 b (hw e))"
    and "ax e' = ax e" and "ram e' = ram e"
proof -
  let ?o = "if tr_offset t \<ge> TRACE_BUFFER_SIZE - 1 then 0 else tr_offset t"
  have o: "tr_offset t' = ?o + 1" and e': "e' = mmio_write8 P (trace_buffer + ?o) (of_char c) e"
    using assms(2) by (auto simp: put_char_unlocked_def Let_def split: if_splits)
  have lt: "unat ?o < 32767"
    by (simp add: not_le word_less_nat_alt word_le_nat_alt unat_TRACE_BUFFER_SIZE)
  then have u: "unat (?o + 1) = Suc (unat ?o)"
    using unat_Suc_no_wrap [of ?o "0x7FFF"] by (simp add: word_less_nat_alt)
  show "trace_inv t'" using u lt o by (simp add: trace_inv_def word_less_nat_alt unat_TRACE_BUFFER_SIZE)
  show "tr_offset t' \<noteq> 0" using u o by (auto simp: word_unat_eq_iff)
  show "tr_offset t < TRACE_BUFFER_SIZE - 1 \<Longrightarrow> tr_offset t' = tr_offset t + 1" using o by auto
  show "peek8 b (hw e') = (if b = trace_buffer + (tr_offset t' - 1) then of_char c else peek8 b (hw e))"
    using o e' by (auto simp: peek8_mmio_write8)
  show "ax e' = ax e" "ram e' = ram e" using e' by simp_all
qed

lemma put_string_safe:
  assumes "trace_inv t" and "put_string_unlocked P s (t, e) = (t', e')"
  shows "trace_inv t' \<and> (\<forall>b. \<not> in_buffer b \<longrightarrow> peek8 b (hw e') = peek8 b (hw e)) \<and> ax e' = ax e \<and>
    ram e' = ram e"
  using assms
proof (induction s arbitrary: t e)
  case Nil
  then show ?case by (simp add: put_string_unlocked_def)
next
  case (Cons c s)
  obtain t1 e1 where one: "put_char_unlocked P c (t, e) = (t1, e1)" by fastforce
  then have rest: "put_string_unlocked P s (t1, e1) = (t', e')"
    using Cons.prems(2) by (simp add: put_string_unlocked_def)
  note step = put_char_step [OF Cons.prems(1) one]
  have "in_buffer (trace_buffer + (tr_offset t1 - 1))"
    using step(1,2) unat_pred_less [of "tr_offset t1"]
    by (simp add: in_buffer_def trace_inv_def word_less_nat_alt)
  then show ?case using Cons.IH [OF step(1) rest] step(4,5,6) by auto
qed

lemma put_string_appends:
  assumes "trace_inv t" and "unat (tr_offset t) + length s < 32768"
    and "put_string_unlocked P s (t, e) = (t', e')"
  shows "tr_offset t' = tr_offset t + of_nat (length s) \<and> tr_wrapped t' = tr_wrapped t \<and>
    (\<forall>b. peek8 b (hw e') =
      (if unat (b - (trace_buffer + tr_offset t)) < length s
       then of_char (s ! unat (b - (trace_buffer + tr_offset t))) else peek8 b (hw e)))"
  using assms
proof (induction s arbitrary: t e)
  case Nil
  then show ?case by (simp add: put_string_unlocked_def)
next
  case (Cons c s)
  obtain t1 e1 where one: "put_char_unlocked P c (t, e) = (t1, e1)" by fastforce
  then have rest: "put_string_unlocked P s (t1, e1) = (t', e')"
    using Cons.prems(3) by (simp add: put_string_unlocked_def)
  note step = put_char_step [OF Cons.prems(1) one]
  have small: "tr_offset t < TRACE_BUFFER_SIZE - 1"
    using Cons.prems(2) by (simp add: word_less_nat_alt unat_TRACE_BUFFER_SIZE)
  have o: "tr_offset t1 = tr_offset t + 1" and w: "tr_wrapped t1 = tr_wrapped t"
    using step(3) [OF small] one small
    by (auto simp: put_char_unlocked_def Let_def split: if_splits)
  have "unat (tr_offset t1) = Suc (unat (tr_offset t))"
    using o unat_Suc_no_wrap [OF small] by simp
  then have IH: "tr_offset t' = tr_offset t1 + of_nat (length s)" "tr_wrapped t' = tr_wrapped t1"
    "\<forall>b. peek8 b (hw e') = (if unat (b - (trace_buffer + tr_offset t1)) < length s
      then of_char (s ! unat (b - (trace_buffer + tr_offset t1))) else peek8 b (hw e1))"
    using Cons.IH [OF step(1) _ rest] Cons.prems(2) by simp_all
  have "peek8 b (hw e') = (if unat (b - (trace_buffer + tr_offset t)) < length (c # s)
       then of_char ((c # s) ! unat (b - (trace_buffer + tr_offset t))) else peek8 b (hw e))" for b
  proof (cases "b = trace_buffer + tr_offset t")
    case True
    have "b - (trace_buffer + tr_offset t1) = - 1" using True o by simp
    moreover have "unat (- 1 :: u32) = 4294967295"
      by (simp add: unsigned_minus_1_eq_mask mask_eq_exp_minus_1)
    then have "\<not> unat (- 1 :: u32) < length s" using Cons.prems(2) by simp
    ultimately show ?thesis using IH(3) step(4) [of b] True o by simp
  next
    case False
    let ?d = "b - (trace_buffer + tr_offset t)"
    have nz: "?d \<noteq> 0" using False by simp
    have d: "b - (trace_buffer + tr_offset t1) = ?d - 1" using o by simp
    have u: "unat (?d - 1) = unat ?d - 1" "0 < unat ?d" using nz by (simp_all add: unat_minus_one unat_gt_0)
    have "b \<noteq> trace_buffer + (tr_offset t1 - 1)" using False o by simp
    then show ?thesis using IH(3) step(4) [of b] u by (auto simp: d nth_Cons')
  qed
  then show ?case using IH(1,2) o w by (simp add: add.assoc)
qed

lemma emit_safe:
  assumes "trace_inv t" and "emit P s (t, e) = (t', e')"
  shows "trace_inv t' \<and> peek8 (trace_buffer + tr_offset t') (hw e') = 0 \<and>
    (\<forall>b. \<not> in_buffer b \<longrightarrow> peek8 b (hw e') = peek8 b (hw e)) \<and> ram e' = ram e"
proof -
  obtain t2 e2 where s: "put_string_unlocked P s (t, snd (irq_save P e)) = (t2, e2)" by fastforce
  note safe = put_string_safe [OF assms(1) s]
  have r: "t' = t2" "hw e' = hw (mmio_write8 P (trace_buffer + tr_offset t2) 0 e2)" "ram e' = ram e2"
    using assms(2) s by (auto simp: emit_def terminate_unlocked_def case_prod_beta Let_def)
  have "in_buffer (trace_buffer + tr_offset t2)"
    using safe by (simp add: in_buffer_def trace_inv_def)
  then show ?thesis using safe r by (auto simp: peek8_mmio_write8)
qed

lemma emit_appends:
  assumes "trace_inv t" and "unat (tr_offset t) + length s < 32768" and "emit P s (t, e) = (t', e')"
  shows "tr_offset t' = tr_offset t + of_nat (length s)"
    and "trace_text peek8 (tr_offset t) (Suc (length s)) (hw e') = map of_char s @ [0]"
    and "unat (b - trace_buffer) < unat (tr_offset t) \<Longrightarrow> peek8 b (hw e') = peek8 b (hw e)"
proof -
  obtain t2 e2 where s: "put_string_unlocked P s (t, snd (irq_save P e)) = (t2, e2)" by fastforce
  note app = put_string_appends [OF assms(1,2) s]
  have r: "t' = t2" "hw e' = hw (mmio_write8 P (trace_buffer + tr_offset t2) 0 e2)"
    using assms(3) s by (auto simp: emit_def terminate_unlocked_def case_prod_beta Let_def)
  show o: "tr_offset t' = tr_offset t + of_nat (length s)" using app r by simp
  have n: "of_nat i = (of_nat j :: u32) \<longleftrightarrow> i = j" if "i \<le> length s" "j \<le> length s" for i j
    using that assms(2) by (intro of_nat_u32_inject) simp_all
  have at: "peek8 (trace_buffer + tr_offset t + of_nat i) (hw e') =
      (if i = length s then 0 else of_char (s ! i))" if "i \<le> length s" for i
  proof -
    have "unat (of_nat i :: u32) = i" using that assms(2) by (simp add: unat_of_nat)
    moreover have "trace_buffer + tr_offset t + of_nat i - (trace_buffer + tr_offset t) = of_nat i" by simp
    ultimately show ?thesis
      using app r o n [OF order_refl that] that by (auto simp: peek8_mmio_write8 add.assoc)
  qed
  show "trace_text peek8 (tr_offset t) (Suc (length s)) (hw e') = map of_char s @ [0]"
    using at by (auto simp: trace_text_def list_eq_iff_nth_eq nth_append simp del: upt_Suc)
  assume b: "unat (b - trace_buffer) < unat (tr_offset t)"
  let ?d = "b - trace_buffer"
  have "unat (?d - tr_offset t) \<ge> length s" and "?d \<noteq> tr_offset t + of_nat (length s)"
  proof -
    have "unat (?d - tr_offset t) = 2 ^ 32 + unat ?d - unat (tr_offset t)"
      using b by (simp add: unat_sub_if')
    then show "unat (?d - tr_offset t) \<ge> length s" using assms(2) b by simp
    have "unat (tr_offset t + of_nat (length s)) = unat (tr_offset t) + length s"
      using assms(2) by (subst unat_add_no_wrap) (simp_all add: unat_of_nat)
    then show "?d \<noteq> tr_offset t + of_nat (length s)" using b by auto
  qed
  then show "peek8 b (hw e') = peek8 b (hw e)"
    using app r o by (auto simp: peek8_mmio_write8 diff_diff_eq)
qed

lemma emit_from_start:
  assumes "tr_offset t = 0" and "length s < 32768" and "emit P s (t, e) = (t', e')"
  shows "peek8 b (hw e') = (if unat (b - trace_buffer) < length s then of_char (s ! unat (b - trace_buffer))
    else if unat (b - trace_buffer) = length s then 0 else peek8 b (hw e))"
proof -
  obtain t2 e2 where s: "put_string_unlocked P s (t, snd (irq_save P e)) = (t2, e2)" by fastforce
  have "trace_inv t" using assms(1) by (simp add: trace_inv_def TRACE_BUFFER_SIZE_def memory_map)
  note app = put_string_appends [OF this _ s]
  have r: "hw e' = hw (mmio_write8 P (trace_buffer + tr_offset t2) 0 e2)"
    using assms(3) s by (auto simp: emit_def terminate_unlocked_def case_prod_beta Let_def)
  have "trace_buffer + of_nat (length s) = b \<longleftrightarrow> unat (b - trace_buffer) = length s"
    using assms(2) by (intro address_eq_iff) simp
  then show ?thesis using app assms(1,2) r by (auto simp: peek8_mmio_write8)
qed

lemma peek8_wipe:
  assumes "n \<le> 4294967296"
  shows "peek8 b (hw (fold (\<lambda>i. mmio_write8 P (trace_buffer + of_nat i) 0) [0 ..< n] e)) =
    (if unat (b - trace_buffer) < n then 0 else peek8 b (hw e))"
  using assms
proof (induction n)
  case 0
  then show ?case by simp
next
  case (Suc n)
  have "trace_buffer + of_nat n = b \<longleftrightarrow> unat (b - trace_buffer) = n"
    using Suc.prems by (intro address_eq_iff) simp
  then show ?case using Suc by (auto simp: peek8_mmio_write8)
qed

text \<open>The wiped buffer with the first message in it.\<close>

lemma Trace_init_buffer:
  assumes "Trace_init P (t, e) = (t', e')"
  shows "peek8 b (hw e') = (let i = unat (b - trace_buffer); msg = ''[riscv] trace init'' @ [CHR 0x0A]
    in if i < length msg then of_char (msg ! i) else if i < 32768 then 0 else peek8 b (hw e))"
    and "trace_inv t'" and "peek8 (trace_buffer + tr_offset t') (hw e') = 0" and "ram e' = ram e"
proof -
  let ?e1 = "fold (\<lambda>i. mmio_write8 P (trace_buffer + of_nat i) 0) [0 ..< 32768] e"
  let ?t = "t\<lparr>tr_offset := 0, tr_wrapped := False\<rparr>"
  have em: "emit P (''[riscv] trace init'' @ [CHR 0x0A]) (?t, ?e1) = (t', e')"
    using assms by (simp add: Trace_init_def puts_emits unat_TRACE_BUFFER_SIZE)
  have "peek8 b (hw ?e1) = (if unat (b - trace_buffer) < 32768 then 0 else peek8 b (hw e))"
    using peek8_wipe [of 32768 b e] by simp
  then show "peek8 b (hw e') = (let i = unat (b - trace_buffer); msg = ''[riscv] trace init'' @ [CHR 0x0A]
      in if i < length msg then of_char (msg ! i) else if i < 32768 then 0 else peek8 b (hw e))"
    using emit_from_start [OF _ _ em, of b] by (simp add: Let_def)
  have r: "ram (fold (\<lambda>i. mmio_write8 P (trace_buffer + of_nat i) 0) is e) = ram e" for "is"
    by (induction "is" arbitrary: e) simp_all
  have "trace_inv ?t" by (simp add: trace_inv_def TRACE_BUFFER_SIZE_def memory_map)
  from emit_safe [OF this em] r
  show "trace_inv t'" "peek8 (trace_buffer + tr_offset t') (hw e') = 0" "ram e' = ram e" by simp_all
qed

lemma outside_buffer: "\<not> in_buffer b \<Longrightarrow> 32768 \<le> unat (b - trace_buffer)"
  by (simp add: in_buffer_def word_less_nat_alt unat_TRACE_BUFFER_SIZE)

end

interpretation sim_bytes: byte_memory sim_platform "\<lambda>a h. bytes h a"
  by unfold_locales simp

subsection \<open>Numbers as text\<close>

lemma number_of_rev:
  "number_of_text base (rev ds) = foldr (\<lambda>c acc. acc * base + digit_value c) ds 0"
  by (simp add: number_of_text_def foldl_conv_foldr)

lemma digit_value_char_of: "d < 10 \<Longrightarrow> digit_value (char_of (48 + d)) = d"
  by (simp add: of_char_of)

lemma scratch_value:
  assumes "len < 11" and "unat v < 10 ^ (11 - len)"
  shows "foldr (\<lambda>c acc. acc * 10 + digit_value c) (scratch_digits len v) 0 = unat v \<and>
    length (scratch_digits len v) \<le> 11 - len"
  using assms
proof (induction len v rule: scratch_digits.induct)
  case (1 len v)
  have m: "unat (v mod 10) = unat v mod 10" and d: "unat (v div 10) = unat v div 10"
    by (simp_all add: unat_mod_distrib unat_div_distrib)
  have digit: "digit_value (char_of (48 + unat v mod 10)) = unat v mod 10"
    using digit_value_char_of [of "unat v mod 10"] by simp
  show ?case
  proof (cases "v div 10 \<noteq> 0")
    case False
    then have "unat v div 10 = 0" using d by simp
    then have "unat v mod 10 = unat v" by (metis div_mult_mod_eq add_0 mult_0)
    then show ?thesis
      using False digit "1.prems"(1) scratch_digits.simps [of len v] by (simp add: m)
  next
    case True
    then have "10 \<le> unat v" using d by (metis div_less not_le unat_eq_zero)
    then have len: "len + 1 < 11" using "1.prems" by (cases "len = 10") auto
    then have p: "(10::nat) ^ (11 - len) = 10 * 10 ^ (11 - (len + 1))"
      by (simp add: power_Suc [symmetric] del: power_Suc)
    then have "unat (v div 10) < 10 ^ (11 - (len + 1))"
      using "1.prems"(2) by (simp add: d less_mult_imp_div_less mult.commute)
    note IH = "1.IH" [OF conjI [OF True len] len this]
    have s: "scratch_digits len v = char_of (48 + unat v mod 10) # scratch_digits (len + 1) (v div 10)"
      using True len by (subst scratch_digits.simps) (simp add: m)
    show ?thesis
      using IH digit len unfolding s by (auto simp: d)
  qed
qed

lemma hex_digit_value: "n < 16 \<Longrightarrow> digit_value (hex_digits ! n) = n"
proof -
  assume "n < 16"
  moreover have "list_all (\<lambda>n. digit_value (hex_digits ! n) = n) [0..<16]" by code_simp
  ultimately show ?thesis by (simp add: list_all_iff)
qed

lemma nibble_value:
  "digit_value (hex_digits ! unat (drop_bit shift v AND 0xF)) = unat (v :: u32) div 2 ^ shift mod 16"
proof -
  have m: "(0xF :: u32) = mask 4" by (simp add: mask_eq_exp_minus_1)
  have "unat (drop_bit shift v AND 0xF) = unat v div 2 ^ shift mod 16"
    unfolding m take_bit_eq_mask [symmetric] unsigned_take_bit_eq unat_drop_bit_eq
    by (simp add: take_bit_eq_mod drop_bit_eq_div)
  then show ?thesis by (simp only: hex_digit_value mod_less_divisor zero_less_numeral)
qed

lemma hex_value: "number_of_text 16 (hex_text v) = unat v"
proof -
  define x where "x = unat v"
  have step: "x div 2 ^ k = 16 * (x div 2 ^ (k + 4)) + x div 2 ^ k mod 16" for k
    by (simp add: power_add div_mult2_eq)
  have top: "x div 2 ^ 32 = 0" using unat_lt_2p32 [of v] by (simp add: x_def)
  have "number_of_text 16 (hex_text v) =
      foldl (\<lambda>acc shift. acc * 16 + x div 2 ^ shift mod 16) 0 [28, 24, 20, 16, 12, 8, 4, 0]"
    by (simp only: number_of_text_def hex_text_def foldl_map nibble_value x_def)
  also have "\<dots> = 268435456 * (x div 268435456 mod 16) + 16777216 * (x div 16777216 mod 16) +
      1048576 * (x div 1048576 mod 16) + 65536 * (x div 65536 mod 16) + 4096 * (x div 4096 mod 16) +
      256 * (x div 256 mod 16) + 16 * (x div 16 mod 16) + x mod 16"
    by simp
  also have "\<dots> = x"
    using step [of 4, simplified] step [of 8, simplified] step [of 12, simplified]
      step [of 16, simplified] step [of 20, simplified] step [of 24, simplified] top [simplified]
      step [of 28, simplified] mult_div_mod_eq [of 16 x]
    by linarith
  finally show ?thesis by (simp add: x_def)
qed

text \<open>Storage that the byte stores of the trace do not touch keeps its words while text is printed.\<close>

lemma emit_keeps_words:
  assumes "\<And>a v h. peek b (bus_wr8 P a v h) = peek b h"
  shows "peek b (hw (snd (emit P s te))) = peek b (hw (snd te))"
proof -
  have c: "peek b (hw (snd (put_char_unlocked P c te))) = peek b (hw (snd te))" for c te
    by (simp add: put_char_unlocked_def case_prod_beta Let_def mmio_write8_def assms)
  have "peek b (hw (snd (put_string_unlocked P s te))) = peek b (hw (snd te))" for s te
    unfolding put_string_unlocked_def by (induction s arbitrary: te) (simp_all add: c)
  then show ?thesis
    by (simp add: emit_def terminate_unlocked_def case_prod_beta Let_def mmio_write8_def assms)
qed

subsection \<open>Properties\<close>

text \<open>C26. The log never leaves its buffer and is always terminated: from any valid state of the log, the
  initialisation and each of the three printing operations write only inside the buffer, keep the offset
  inside it, and leave a terminator at the offset, also when the text wraps around or is longer than the
  buffer.  The initialisation wipes the buffer to its last byte: afterwards it holds the first message and
  zeros.\<close>

theorem trace_stays_in_buffer:
  assumes "byte_memory P peek8" and "trace_inv t"
    and "op \<in> {Trace_init P, Trace_puts P (Some msg), put_hex32 P label v, put_dec P label v}"
    and "op (t, e) = (t', e')"
  shows "trace_inv t' \<and> peek8 (trace_buffer + tr_offset t') (hw e') = 0 \<and>
    (\<forall>b. \<not> in_buffer b \<longrightarrow> peek8 b (hw e') = peek8 b (hw e)) \<and> ram e' = ram e \<and>
    (\<forall>i < 32768. peek8 (trace_buffer + of_nat i) (hw (snd (Trace_init P (t, e)))) =
       (if i < 19 then of_char ((''[riscv] trace init'' @ [CHR 0x0A]) ! i) else 0))"
proof -
  obtain t0 e0 where init: "Trace_init P (t, e) = (t0, e0)" by fastforce
  note buffer = byte_memory.Trace_init_buffer [OF assms(1) init]
  have "peek8 (trace_buffer + of_nat i) (hw e0) =
      (if i < 19 then of_char ((''[riscv] trace init'' @ [CHR 0x0A]) ! i) else 0)" if "i < 32768" for i
    using buffer(1) [of "trace_buffer + of_nat i"] that by (simp add: unat_of_nat)
  moreover have "trace_inv t' \<and> peek8 (trace_buffer + tr_offset t') (hw e') = 0 \<and>
    (\<forall>b. \<not> in_buffer b \<longrightarrow> peek8 b (hw e') = peek8 b (hw e)) \<and> ram e' = ram e"
  proof (cases "op = Trace_init P")
    case True
    then have "t' = t0" "e' = e0" using assms(4) init by simp_all
    then show ?thesis using buffer byte_memory.outside_buffer [OF assms(1)] by (fastforce simp: Let_def)
  next
    case False
    then have "\<exists>s. op (t, e) = emit P s (t, e)"
      using assms(3) by (auto simp: puts_emits put_hex32_emits put_dec_emits)
    then obtain s where "emit P s (t, e) = (t', e')" using assms(4) by auto
    then show ?thesis by (rule byte_memory.emit_safe [OF assms(1,2)])
  qed
  ultimately show ?thesis using init by simp
qed

theorem trace_stays_in_buffer_witness:
  "\<exists>t' e'. put_dec sim_platform None 42 (\<lparr>tr_offset = 0x7FFE, tr_wrapped = False\<rparr>, sim_env) = (t', e') \<and>
     trace_inv t' \<and> bytes (hw e') (trace_buffer + tr_offset t') = 0 \<and>
     bytes (hw e') (trace_buffer + 0x8000) = bytes (hw sim_env) (trace_buffer + 0x8000)"
proof -
  let ?t = "\<lparr>tr_offset = 0x7FFE, tr_wrapped = False\<rparr>"
  obtain t' e' where r: "put_dec sim_platform None 42 (?t, sim_env) = (t', e')" by fastforce
  have "trace_inv ?t" by (simp add: trace_inv_def TRACE_BUFFER_SIZE_def memory_map)
  from trace_stays_in_buffer [OF sim_bytes.byte_memory_axioms this, where op = "put_dec sim_platform None 42"
      and msg = "[]" and label = None and v = 42, OF _ r]
  have "trace_inv t' \<and> bytes (hw e') (trace_buffer + tr_offset t') = 0 \<and>
     bytes (hw e') (trace_buffer + 0x8000) = bytes (hw sim_env) (trace_buffer + 0x8000)"
    by (simp add: in_buffer_def TRACE_BUFFER_SIZE_def memory_map)
  with r show ?thesis by blast
qed

text \<open>C25. What is printed is readable: as long as it fits, the message of an operation (the text, or
  the label with the number and a newline) is appended to the log, followed by a terminator, and
  everything printed before is kept; the decimal and the hexadecimal digits denote exactly the
  printed number.\<close>

theorem trace_appends_readable_text:
  assumes "byte_memory P peek8" and "trace_inv t"
    and "(op, msg) \<in> {(Trace_puts P (Some s), s),
      (put_dec P label v, label_text label @ dec_text v @ [CHR 0x0A]),
      (put_hex32 P label v, label_text label @ ''0x'' @ hex_text v @ [CHR 0x0A])}"
    and "unat (tr_offset t) + length msg < 32768" and "op (t, e) = (t', e')"
  shows "trace_text peek8 (tr_offset t) (Suc (length msg)) (hw e') = map of_char msg @ [0] \<and>
    tr_offset t' = tr_offset t + of_nat (length msg) \<and>
    (\<forall>b. unat (b - trace_buffer) < unat (tr_offset t) \<longrightarrow> peek8 b (hw e') = peek8 b (hw e)) \<and>
    number_of_text 10 (dec_text v) = unat v \<and> number_of_text 16 (hex_text v) = unat v"
proof -
  have "op (t, e) = emit P msg (t, e)"
    using assms(3) by (auto simp: puts_emits put_hex32_emits put_dec_emits)
  then have "emit P msg (t, e) = (t', e')" using assms(5) by simp
  note appended = byte_memory.emit_appends [OF assms(1,2,4) this]
  have "unat v < 10 ^ (11 - 0)" using unat_lt_2p32 [of v] by simp
  then have "number_of_text 10 (dec_text v) = unat v"
    using scratch_value [of 0 v] by (simp add: dec_text_def number_of_rev)
  then show ?thesis using appended by (simp add: hex_value)
qed

theorem trace_appends_readable_text_witness:
  "\<exists>t' e'. put_dec sim_platform None 42 (trace_static, sim_env) = (t', e') \<and>
     trace_text (\<lambda>a h. bytes h a) 0 4 (hw e') = [52, 50, 10, 0]"
proof -
  have d: "dec_text 42 = ''42''" by code_simp
  obtain t' e' where r: "put_dec sim_platform None 42 (trace_static, sim_env) = (t', e')" by fastforce
  have i: "trace_inv trace_static"
    by (simp add: trace_inv_def trace_static_def TRACE_BUFFER_SIZE_def memory_map)
  have "trace_text (\<lambda>a h. bytes h a) (tr_offset trace_static) (Suc (length (''42'' @ [CHR 0x0A]))) (hw e') =
      map of_char (''42'' @ [CHR 0x0A]) @ [0]"
    using trace_appends_readable_text [OF sim_bytes.byte_memory_axioms i,
        where op = "put_dec sim_platform None 42" and msg = "''42'' @ [CHR 0x0A]" and s = "[]"
        and label = None and v = 42, OF _ _ r]
    by (simp add: d label_text_def trace_static_def)
  then have "trace_text (\<lambda>a h. bytes h a) 0 4 (hw e') = [52, 50, 10, 0]"
    by (simp add: trace_static_def eval_nat_numeral)
  with r show ?thesis by blast
qed

end
