(* ===== verification/Trap_Handler.thy ===== *)
theory Trap_Handler
  imports Hal_Boot Clic Gpio Spi_Dma Twi Uart_Dma Trace_Log
begin

text \<open>
  \<^verbatim>\<open>hal/src/riscv_trap_handler.cpp\<close>: the trap entry of the firmware.  It routes the timer interrupt and the
  CLIC interrupts to the drivers; any other trap is fatal and is reported to Linux.  The record
  \<open>firmware\<close> collects the state of all drivers.  A driver loop that never ends makes the result
  \<open>None\<close>; a fatal trap ends in \<open>Halted\<close>.
\<close>

subsection \<open>State and outcome\<close>

record firmware =
  fw_timer :: HardwareTimer
  fw_gpio :: gpio
  fw_msgbox :: msgbox
  fw_uart :: uart
  fw_twi :: twi
  fw_spi :: spi
  fw_trace :: trace

definition firmware_static :: firmware where
  "firmware_static =
     \<lparr>fw_timer = HardwareTimer_static, fw_gpio = gpio_static, fw_msgbox = msgbox_static,
      fw_uart = uart_static, fw_twi = twi_static, fw_spi = spi_static, fw_trace = trace_static\<rparr>"

datatype trap_outcome = Returned | Halted

definition kInterruptBit :: u32 where
  "kInterruptBit = push_bit 31 1"

definition kCauseMask :: u32 where
  "kCauseMask = 0xFFF"

definition kMachineTimerInterruptCause :: u32 where
  "kMachineTimerInterruptCause = 7"

definition read_csr_mcause :: "('h, 'x) platform \<Rightarrow> ('h, 'x) env \<Rightarrow> u32 \<times> ('h, 'x) env" where
  "read_csr_mcause P e = csr_read P Mcause e"

definition read_csr_mepc :: "('h, 'x) platform \<Rightarrow> ('h, 'x) env \<Rightarrow> u32 \<times> ('h, 'x) env" where
  "read_csr_mepc P e = csr_read P Mepc e"

definition read_csr_mtval :: "('h, 'x) platform \<Rightarrow> ('h, 'x) env \<Rightarrow> u32 \<times> ('h, 'x) env" where
  "read_csr_mtval P e = csr_read P Mtval e"

definition read_csr_mstatus :: "('h, 'x) platform \<Rightarrow> ('h, 'x) env \<Rightarrow> u32 \<times> ('h, 'x) env" where
  "read_csr_mstatus P e = csr_read P Mstatus e"

definition exception_name :: "u32 \<Rightarrow> string" where
  "exception_name code =
     (if code = 0 then ''instruction address misaligned''
      else if code = 1 then ''instruction access fault''
      else if code = 2 then ''illegal instruction''
      else if code = 3 then ''breakpoint''
      else if code = 4 then ''load address misaligned''
      else if code = 5 then ''load access fault''
      else if code = 6 then ''store/AMO address misaligned''
      else if code = 7 then ''store/AMO access fault''
      else if code = 8 then ''ecall from U-mode''
      else if code = 11 then ''ecall from M-mode''
      else ''unknown exception'')"

subsection \<open>Interrupt routing\<close>

definition dispatch_external ::
    "('h, 'x) pin_callback \<Rightarrow> ('h, 'x) platform \<Rightarrow> u32 \<Rightarrow> firmware \<times> ('h, 'x) env \<Rightarrow>
     (firmware \<times> ('h, 'x) env) option" where
  "dispatch_external call P clic_id fe =
     (let (f, e) = fe in
      if clic_id \<in> {ClicIrq_code GpioL_S, ClicIrq_code GpioL_NS} then
        (let (g, e1) = handle_bank_isr call P PORT_L (fw_gpio f) e in Some (f\<lparr>fw_gpio := g\<rparr>, e1))
      else if clic_id \<in> {ClicIrq_code GpioM_S, ClicIrq_code GpioM_NS} then
        (let (g, e1) = handle_bank_isr call P PORT_M (fw_gpio f) e in Some (f\<lparr>fw_gpio := g\<rparr>, e1))
      else if clic_id \<in> {ClicIrq_code RiscvMsgbox, ClicIrq_code CpusMsgboxRiscv} then
        (let (m, e1) = MsgboxDriver_handle_isr P (fw_msgbox f) e in Some (f\<lparr>fw_msgbox := m\<rparr>, e1))
      else if clic_id \<in> {ClicIrq_code SUart0, ClicIrq_code SUart1} then
        do { (u, e1) \<leftarrow> UartDmaDriver_handle_isr P (fw_uart f) e; Some (f\<lparr>fw_uart := u\<rparr>, e1) }
      else if clic_id = ClicIrq_code STwi0 then
        (let (w, e1) = TwiDriver_handle_isr P S_TWI0_BASE (fw_twi f) e in Some (f\<lparr>fw_twi := w\<rparr>, e1))
      else if clic_id = ClicIrq_code STwi1 then
        (let (w, e1) = TwiDriver_handle_isr P S_TWI1_BASE (fw_twi f) e in Some (f\<lparr>fw_twi := w\<rparr>, e1))
      else if clic_id = ClicIrq_code STwi2 then
        (let (w, e1) = TwiDriver_handle_isr P S_TWI2_BASE (fw_twi f) e in Some (f\<lparr>fw_twi := w\<rparr>, e1))
      else if clic_id = ClicIrq_code SSpi then
        (let (s, e1) = handle_spi1_isr P (fw_spi f) e in Some (f\<lparr>fw_spi := s\<rparr>, e1))
      else if clic_id = ClicIrq_code GicGroup48_55 then
        (let (s, e1) = handle_spi0_isr P (fw_spi f) e in Some (f\<lparr>fw_spi := s\<rparr>, e1))
      else
        (let e1 = Clic_disable P clic_id e;
             (t, e2) = put_dec P (Some ''[riscv] unhandled CLIC irq '') clic_id (fw_trace f, e1)
         in Some (f\<lparr>fw_trace := t\<rparr>, e2)))"

text \<open>The callback of an application may change the GPIO driver only, as \<open>handle_bank_isr\<close> has it.\<close>

definition claimed_irqs :: "u32 set" where
  "claimed_irqs = ClicIrq_code ` {GpioL_S, GpioL_NS, GpioM_S, GpioM_NS, RiscvMsgbox, CpusMsgboxRiscv,
     SUart0, SUart1, STwi0, STwi1, STwi2, SSpi, GicGroup48_55}"

subsection \<open>Fatal traps\<close>

definition nl :: string where
  "nl = [CHR 0x0A]"

text \<open>The report in the trace buffer.\<close>

definition trace_crash ::
    "('h, 'x) platform \<Rightarrow> u32 \<Rightarrow> u32 \<Rightarrow> u32 \<Rightarrow> ('h, 'x) tracing \<Rightarrow> ('h, 'x) tracing" where
  "trace_crash P mcause mepc mtval te =
     (let code = mcause AND kCauseMask;
          te1 = Trace_puts P (Some (nl @ ''[riscv] FATAL TRAP: '')) te;
          te2 = Trace_puts P (Some (exception_name code)) te1;
          te3 = Trace_puts P (Some nl) te2;
          te4 = put_hex32 P (Some ''[riscv]   mcause  = '') mcause te3;
          te5 = put_hex32 P (Some ''[riscv]   mepc    = '') mepc te4;
          (t6, e6) = put_hex32 P (Some ''[riscv]   mtval   = '') mtval te5;
          (mstatus, e7) = read_csr_mstatus P e6;
          te7 = put_hex32 P (Some ''[riscv]   mstatus = '') mstatus (t6, e7)
      in Trace_puts P (Some (''[riscv] halted, notifying host'' @ nl)) te7)"

definition crash_status :: "u32 \<Rightarrow> u32 \<Rightarrow> u32 \<Rightarrow> HardwareTimer \<Rightarrow> Status" where
  "crash_status mcause mepc mtval t =
     (make_status Crashed UnexpectedTrap 1 0 (core_frequency_hz t))
       \<lparr>st_mcause := mcause, st_mepc := mepc, st_mtval := mtval\<rparr>"

definition riscv_trap_handler ::
    "('h, 'x) pin_callback \<Rightarrow> ('h, 'x) platform \<Rightarrow> firmware \<times> ('h, 'x) env \<Rightarrow>
     (trap_outcome \<times> firmware \<times> ('h, 'x) env) option" where
  "riscv_trap_handler call P fe =
     (let (f, e) = fe; (mcause, e1) = read_csr_mcause P e; code = mcause AND kCauseMask in
      if mcause AND kInterruptBit \<noteq> 0 then
        (if code = kMachineTimerInterruptCause
         then do {
           (t, e2) \<leftarrow> HardwareTimer_handle_isr P (fw_timer f) e1;
           Some (Returned, f\<lparr>fw_timer := t\<rparr>, e2)
         }
         else do { fe2 \<leftarrow> dispatch_external call P code (f, e1); Some (Returned, fe2) })
      else
        (let (mepc, e2) = read_csr_mepc P e1;
             (mtval, e3) = read_csr_mtval P e2;
             (t, e4) = trace_crash P mcause mepc mtval (fw_trace f, e3);
             status = crash_status mcause mepc mtval (fw_timer f);
             e5 = publish P status e4;
             e6 = ring_doorbell_to_linux P kFirmwareCrashDoorbell e5
         in Some (Halted, f\<lparr>fw_trace := t\<rparr>, e6)))"

subsection \<open>Lemmas\<close>

lemma crash_status_valid: "Status_is_valid (crash_status mcause mepc mtval t)"
  using make_status_valid [of 1 Crashed UnexpectedTrap 0 "core_frequency_hz t"]
  by (simp add: crash_status_def Status_is_valid_def)

lemma crash_status_reserved: "length (st_reserved (crash_status mcause mepc mtval t)) = 5"
  by (simp add: crash_status_def)

lemma crash_status_fields:
  "st_state (crash_status mcause mepc mtval t) = State_code Crashed"
  "st_failure_reason (crash_status mcause mepc mtval t) = FailureReason_code UnexpectedTrap"
  "st_mcause (crash_status mcause mepc mtval t) = mcause"
  "st_mepc (crash_status mcause mepc mtval t) = mepc"
  "st_mtval (crash_status mcause mepc mtval t) = mtval"
  by (simp_all add: crash_status_def make_status_def)

lemma dispatch_unclaimed:
  assumes "clic_id \<notin> claimed_irqs"
  shows "dispatch_external call P clic_id (f, e) =
    (let (t, e2) = put_dec P (Some ''[riscv] unhandled CLIC irq '') clic_id
        (fw_trace f, Clic_disable P clic_id e)
     in Some (f\<lparr>fw_trace := t\<rparr>, e2))"
  using assms by (simp add: dispatch_external_def claimed_irqs_def)

text \<open>A trap that is not an interrupt, step by step.\<close>

lemma fatal_trap_effect:
  assumes "word_memory P peek A" and "status_words \<subseteq> A"
    and "csr_rd P Mcause (hw e) = (mcause, h1)" and "mcause AND kInterruptBit = 0"
    and "csr_rd P Mepc h1 = (mepc, h2)" and "csr_rd P Mtval h2 = (mtval, h3)"
  obtains t e4 where "riscv_trap_handler call P (f, e) = Some (Halted, f\<lparr>fw_trace := t\<rparr>,
      ring_doorbell_to_linux P kFirmwareCrashDoorbell (publish P (crash_status mcause mepc mtval (fw_timer f)) e4))"
    and "observe_status peek (hw (publish P (crash_status mcause mepc mtval (fw_timer f)) e4)) =
      crash_status mcause mepc mtval (fw_timer f)"
proof -
  obtain t e4 where t: "trace_crash P mcause mepc mtval (fw_trace f, e\<lparr>hw := h3\<rparr>) = (t, e4)" by fastforce
  have "riscv_trap_handler call P (f, e) = Some (Halted, f\<lparr>fw_trace := t\<rparr>,
      ring_doorbell_to_linux P kFirmwareCrashDoorbell (publish P (crash_status mcause mepc mtval (fw_timer f)) e4))"
    using assms(3-6) t
    by (simp add: riscv_trap_handler_def read_csr_mcause_def read_csr_mepc_def read_csr_mtval_def
        csr_read_def Let_def)
  with that word_memory.observe_publish [OF assms(1,2) crash_status_reserved] show thesis by blast
qed

subsection \<open>Properties\<close>

text \<open>C7. A fatal trap is reported completely: for every synchronous trap the handler does not return
  to the program; when the crash doorbell \<open>0xA3\<close> rings, a reader of the shared record already sees
  a valid record with state crashed, reason unexpected trap and the cause, address and value of
  this trap, and no driver state but the log has changed.\<close>

theorem fatal_trap_reported:
  assumes "word_memory P peek A" and "status_words \<subseteq> A"
    and "csr_rd P Mcause (hw e) = (mcause, h1)" and "mcause AND kInterruptBit = 0"
    and "csr_rd P Mepc h1 = (mepc, h2)" and "csr_rd P Mtval h2 = (mtval, h3)"
  shows "\<exists>f' e' h. riscv_trap_handler call P (f, e) = Some (Halted, f', e') \<and>
    hw e' = bus_wr P (msgbox_reg MSGBOX_BASE MSG_QUEUE 0 0) kFirmwareCrashDoorbell h \<and>
    Status_is_valid (observe_status peek h) \<and>
    st_state (observe_status peek h) = State_code Crashed \<and>
    st_failure_reason (observe_status peek h) = FailureReason_code UnexpectedTrap \<and>
    st_mcause (observe_status peek h) = mcause \<and> st_mepc (observe_status peek h) = mepc \<and>
    st_mtval (observe_status peek h) = mtval \<and>
    f' = f\<lparr>fw_trace := fw_trace f'\<rparr>"
proof -
  obtain t e4 where "riscv_trap_handler call P (f, e) = Some (Halted, f\<lparr>fw_trace := t\<rparr>,
      ring_doorbell_to_linux P kFirmwareCrashDoorbell (publish P (crash_status mcause mepc mtval (fw_timer f)) e4))"
    and "observe_status peek (hw (publish P (crash_status mcause mepc mtval (fw_timer f)) e4)) =
      crash_status mcause mepc mtval (fw_timer f)"
    by (rule fatal_trap_effect [OF assms, where f = f and call = call])
  then show ?thesis by (auto simp: hw_ring_doorbell crash_status_valid crash_status_fields)
qed

theorem fatal_trap_reported_witness:
  "\<exists>f' e'. riscv_trap_handler no_callback sim_platform (firmware_static,
      sim_env\<lparr>hw := (hw sim_env)\<lparr>csrs := (\<lambda>_. 0)(Mcause := 7, Mepc := 0x07141A2C, Mtval := 1)\<rparr>\<rparr>) =
      Some (Halted, f', e')"
  using fatal_trap_reported [OF sim.word_memory_axioms subset_UNIV, where mcause = 7 and call = no_callback
      and mepc = "0x07141A2C" and mtval = 1 and f = firmware_static and e = "sim_env\<lparr>hw := (hw sim_env)\<lparr>csrs :=
        (\<lambda>_. 0)(Mcause := 7, Mepc := 0x07141A2C, Mtval := 1)\<rparr>\<rparr>"]
  by (auto simp: kInterruptBit_def)

text \<open>C24. An interrupt no driver claims cannot storm: the handler disables exactly that line of the
  CLIC, leaves every other line as it was, prints a message and returns, and the state of every
  driver is unchanged.  The line of the GIC group with UART0 to UART7 is one of them, although the
  UART driver serves UART2.\<close>

theorem unclaimed_interrupt_disabled:
  assumes "word_memory P peek A" and "int_regs \<subseteq> A"
    and "\<And>b a v h. b \<in> int_regs \<Longrightarrow> peek b (bus_wr8 P a v h) = peek b h"
    and "csr_rd P Mcause (hw e) = (mcause, h1)" and "mcause AND kInterruptBit \<noteq> 0"
    and "irq_id = mcause AND kCauseMask" and "irq_id \<noteq> kMachineTimerInterruptCause"
    and "irq_id \<notin> claimed_irqs" and "irq_id < MAX_INTERRUPTS"
  shows "(\<exists>f' e'. riscv_trap_handler call P (f, e) = Some (Returned, f', e') \<and>
      f' = f\<lparr>fw_trace := fw_trace f'\<rparr> \<and>
      (\<forall>irq < MAX_INTERRUPTS. peek (int_reg irq) (hw e') =
         (if irq = irq_id then peek (int_reg irq) h1 AND NOT 0x100 else peek (int_reg irq) h1))) \<and>
    ClicIrq_code GicGroup32_39 \<notin> claimed_irqs"
proof -
  let ?e1 = "Clic_disable P irq_id (e\<lparr>hw := h1\<rparr>)"
  obtain t e2 where d: "put_dec P (Some ''[riscv] unhandled CLIC irq '') irq_id (fw_trace f, ?e1) = (t, e2)"
    by fastforce
  have r: "riscv_trap_handler call P (f, e) = Some (Returned, f\<lparr>fw_trace := t\<rparr>, e2)"
    using assms(4,5,7) d dispatch_unclaimed [OF assms(8), of call P f "e\<lparr>hw := h1\<rparr>"]
    by (simp add: riscv_trap_handler_def read_csr_mcause_def csr_read_def Let_def assms(6) [symmetric])
  have "peek (int_reg irq) (hw e2) =
      (if irq = irq_id then peek (int_reg irq) h1 AND NOT 0x100 else peek (int_reg irq) h1)"
    if "irq < MAX_INTERRUPTS" for irq
  proof -
    have "peek (int_reg irq) (hw e2) = peek (int_reg irq) (hw ?e1)"
      using emit_keeps_words [of peek "int_reg irq" P] assms(3) int_reg_in [OF that] d
      by (metis put_dec_emits snd_conv)
    also have "\<dots> = (if irq = irq_id then peek (int_reg irq) h1 AND NOT 0x100 else peek (int_reg irq) h1)"
      using word_memory.peek_Clic_disable [OF assms(1,2,9), of "int_reg irq" "e\<lparr>hw := h1\<rparr>"]
        assms(2) int_reg_in [OF that] int_reg_inject [OF that assms(9)] by auto
    finally show ?thesis .
  qed
  moreover have "ClicIrq_code GicGroup32_39 \<notin> claimed_irqs" by (simp add: claimed_irqs_def)
  ultimately show ?thesis using r by auto
qed

theorem unclaimed_interrupt_disabled_witness:
  "\<exists>f' e'. riscv_trap_handler no_callback sim_platform (firmware_static,
      sim_env\<lparr>hw := (hw sim_env)\<lparr>csrs := (\<lambda>_. 0x8000005A)\<rparr>\<rparr>) = Some (Returned, f', e')"
proof -
  let ?e = "sim_env\<lparr>hw := (hw sim_env)\<lparr>csrs := (\<lambda>_. 0x8000005A)\<rparr>\<rparr>"
  have "(90 :: u32) \<notin> claimed_irqs" by (simp add: claimed_irqs_def)
  then show ?thesis
    using unclaimed_interrupt_disabled [OF sim.word_memory_axioms subset_UNIV, where e = ?e
        and mcause = "0x8000005A" and irq_id = 90 and call = no_callback and f = firmware_static]
    by (auto simp: kInterruptBit_def kCauseMask_def kMachineTimerInterruptCause_def MAX_INTERRUPTS_def)
qed

end
