(* ===== verification/Ipc_Protocol.thy ===== *)
theory Ipc_Protocol
  imports Spsc_Queue Boot_Status
begin

text \<open>
  \<^verbatim>\<open>hal/include/ipc_protocol.hpp\<close>: the descriptor rings in the SRAM both processors share.  The
  indices run freely over 32 bits and are masked when a slot is selected.  One side advances
  \<open>ring_head\<close>, the other \<open>ring_tail\<close>; which of them is Linux depends on the direction.  The ring is an
  instance of the queue interface of \<open>Spsc_Queue\<close>.
\<close>

subsection \<open>Data\<close>

definition IPC_MAGIC :: u32 where
  "IPC_MAGIC = 0x544C5049"

definition RING_SIZE :: u32 where
  "RING_SIZE = 128"

definition RING_MASK :: u32 where
  "RING_MASK = RING_SIZE - 1"

datatype MsgType = HEARTBEAT | PIGWEED_LOG | BARECTF_TRACE | PCIE_TLP_STREAM | IMU_BURST_DATA

fun MsgType_code :: "MsgType \<Rightarrow> u16" where
  "MsgType_code HEARTBEAT = 0x0001"
| "MsgType_code PIGWEED_LOG = 0x0010"
| "MsgType_code BARECTF_TRACE = 0x0020"
| "MsgType_code PCIE_TLP_STREAM = 0x0030"
| "MsgType_code IMU_BURST_DATA = 0x0040"

record IpcDescriptor =
  dram_payload_addr :: u32
  desc_length :: u32
  msg_type :: u16
  desc_flags :: u16
  timestamp_us :: u32

record SpscRingControl =
  ring_head :: u32
  ring_tail :: u32
  descriptors :: "IpcDescriptor list"

definition IpcDescriptor_zero :: IpcDescriptor where
  "IpcDescriptor_zero =
     \<lparr>dram_payload_addr = 0, desc_length = 0, msg_type = 0, desc_flags = 0, timestamp_us = 0\<rparr>"

definition SpscRingControl_zero :: SpscRingControl where
  "SpscRingControl_zero =
     \<lparr>ring_head = 0, ring_tail = 0, descriptors = replicate (unat RING_SIZE) IpcDescriptor_zero\<rparr>"

text \<open>Layout: \<^verbatim>\<open>head\<close> and \<^verbatim>\<open>tail\<close> have a cache line of 64 bytes each, a descriptor takes 16 bytes.\<close>

definition ring_head_addr :: "u32 \<Rightarrow> u32" where
  "ring_head_addr base = base"

definition ring_tail_addr :: "u32 \<Rightarrow> u32" where
  "ring_tail_addr base = base + 64"

definition sizeof_SpscRingControl :: u32 where
  "sizeof_SpscRingControl = 64 + 64 + RING_SIZE * 16"

subsection \<open>Access to a ring\<close>

text \<open>Slot selection, the check of a producer and of a consumer, publication and release, as the
  applications write them.\<close>

definition ring_slot :: "u32 \<Rightarrow> nat" where
  "ring_slot index = unat (index AND RING_MASK)"

definition ring_has_room :: "SpscRingControl \<Rightarrow> bool" where
  "ring_has_room r \<longleftrightarrow> ring_head r - ring_tail r < RING_SIZE"

definition ring_descriptor :: "u32 \<Rightarrow> SpscRingControl \<Rightarrow> IpcDescriptor" where
  "ring_descriptor index r = descriptors r ! ring_slot index"

definition ring_update :: "u32 \<Rightarrow> (IpcDescriptor \<Rightarrow> IpcDescriptor) \<Rightarrow> SpscRingControl \<Rightarrow> SpscRingControl" where
  "ring_update index f r =
     r\<lparr>descriptors := (descriptors r)[ring_slot index := f (ring_descriptor index r)]\<rparr>"

text \<open>The two ends of a ring as whole operations: a producer that finds room writes the slot of the
  head and advances it, a consumer that finds a descriptor reads the slot of the tail and advances it.\<close>

definition ring_push :: "IpcDescriptor \<Rightarrow> SpscRingControl \<Rightarrow> bool \<times> SpscRingControl" where
  "ring_push d r =
     (if ring_has_room r
      then (True, (ring_update (ring_head r) (\<lambda>_. d) r)\<lparr>ring_head := ring_head r + 1\<rparr>) else (False, r))"

definition ring_pop :: "IpcDescriptor \<Rightarrow> SpscRingControl \<Rightarrow> bool \<times> IpcDescriptor \<times> SpscRingControl" where
  "ring_pop d r =
     (if ring_tail r = ring_head r then (False, d, r)
      else (True, ring_descriptor (ring_tail r) r, r\<lparr>ring_tail := ring_tail r + 1\<rparr>))"

definition ring_inv :: "SpscRingControl \<Rightarrow> bool" where
  "ring_inv r \<longleftrightarrow> length (descriptors r) = 128 \<and> unat (ring_head r - ring_tail r) \<le> 128"

definition ring_list :: "SpscRingControl \<Rightarrow> IpcDescriptor list" where
  "ring_list r = map (\<lambda>i. descriptors r ! ((unat (ring_tail r) + i) mod 128))
     [0 ..< unat (ring_head r - ring_tail r)]"

text \<open>Both applications have a pool of 128 payload buffers of 256 bytes, one per slot of their send ring.\<close>

definition payload_addr :: "u32 \<Rightarrow> nat \<Rightarrow> u32" where
  "payload_addr pool slot = pool + of_nat (slot * 256)"

text \<open>Statements one after the other; \<open>None\<close> stands for a statement that does not end.\<close>

fun run_statements :: "('a \<Rightarrow> 'a option) list \<Rightarrow> 'a \<Rightarrow> 'a option" where
  "run_statements [] a = Some a"
| "run_statements (f # fs) a = do { a1 \<leftarrow> f a; run_statements fs a1 }"

subsection \<open>Lemmas\<close>

lemma ring_slot_mod: "ring_slot i = unat i mod 128"
proof -
  have "i AND RING_MASK = take_bit 7 i"
    by (simp add: RING_MASK_def RING_SIZE_def take_bit_eq_mask mask_numeral)
  then show ?thesis by (simp add: ring_slot_def take_bit_eq_mod unat_mod)
qed

lemma ring_slot_less [simp]: "ring_slot i < 128"
  by (simp add: ring_slot_mod)

lemma ring_slot_add: "ring_slot (i + of_nat n) = (unat i + n) mod 128"
proof -
  have "(unat i + n mod 4294967296) mod 4294967296 mod 128 = (unat i + n mod 4294967296) mod 128"
    by (rule mod_mod_cancel) simp
  also have "\<dots> = (unat i + n mod 4294967296 mod 128) mod 128" by (simp only: mod_add_right_eq)
  also have "n mod 4294967296 mod 128 = n mod 128" by (rule mod_mod_cancel) simp
  also have "(unat i + n mod 128) mod 128 = (unat i + n) mod 128" by (simp only: mod_add_right_eq)
  finally show ?thesis by (simp add: ring_slot_mod unat_word_ariths unat_of_nat)
qed

lemma ring_slot_of_nat: "ring_slot (of_nat n) = n mod 128"
  using ring_slot_add [of 0 n] by simp

lemma ring_slot_head: "ring_slot (ring_head r) = (unat (ring_tail r) + unat (ring_head r - ring_tail r)) mod 128"
  using ring_slot_add [of "ring_tail r" "unat (ring_head r - ring_tail r)"] by simp

lemma ring_has_room_iff: "ring_has_room r \<longleftrightarrow> unat (ring_head r - ring_tail r) < 128"
  by (simp add: ring_has_room_def RING_SIZE_def word_less_nat_alt)

lemma length_ring_list [simp]: "length (ring_list r) = unat (ring_head r - ring_tail r)"
  by (simp add: ring_list_def)

lemma ring_list_Nil_iff: "ring_list r = [] \<longleftrightarrow> ring_tail r = ring_head r"
  by (metis length_0_conv length_ring_list right_minus_eq unat_eq_zero)

lemma add_mod_128_inject: "i < j \<Longrightarrow> j < i + 128 \<Longrightarrow> (t + i) mod 128 \<noteq> (t + j) mod (128::nat)"
  using mod_eq_dvd_iff_nat [of "t + i" "t + j" 128] by (auto dest!: dvd_imp_le)

text \<open>Writing the slot of the head, before it is published, does not disturb what is in the ring.\<close>

lemma ring_list_update_free:
  assumes "ring_has_room r"
  shows "ring_list (ring_update (ring_head r) f r) = ring_list r"
proof -
  have "ring_slot (ring_head r) \<noteq> (unat (ring_tail r) + i) mod 128"
    if "i < unat (ring_head r - ring_tail r)" for i
    using that assms add_mod_128_inject [of i "unat (ring_head r - ring_tail r)" "unat (ring_tail r)"]
    by (simp add: ring_slot_head ring_has_room_iff)
  then show ?thesis by (simp add: ring_list_def ring_update_def)
qed

lemma ring_distance_Suc:
  "ring_has_room r \<Longrightarrow> unat (ring_head r + 1 - ring_tail r) = Suc (unat (ring_head r - ring_tail r))"
proof -
  assume "ring_has_room r"
  then have "unat (ring_head r - ring_tail r + 1) = Suc (unat (ring_head r - ring_tail r))"
    by (simp add: ring_has_room_iff unat_word_ariths(1))
  then show ?thesis by (simp add: algebra_simps)
qed

text \<open>Publishing the head appends the descriptor of its slot.\<close>

lemma ring_list_publish:
  assumes "ring_has_room r"
  shows "ring_list (r\<lparr>ring_head := ring_head r + 1\<rparr>) = ring_list r @ [ring_descriptor (ring_head r) r]"
proof -
  have "ring_descriptor (ring_head r) r =
      descriptors r ! ((unat (ring_tail r) + unat (ring_head r - ring_tail r)) mod 128)"
    by (simp add: ring_descriptor_def ring_slot_head)
  with ring_distance_Suc [OF assms] show ?thesis by (simp add: ring_list_def)
qed

lemma ring_inv_publish:
  "ring_inv r \<Longrightarrow> ring_has_room r \<Longrightarrow> ring_inv (r\<lparr>ring_head := ring_head r + 1\<rparr>)"
  using ring_distance_Suc [of r] by (simp add: ring_inv_def ring_has_room_iff)

lemma ring_update_simps [simp]:
  "ring_head (ring_update i f r) = ring_head r"
  "ring_tail (ring_update i f r) = ring_tail r"
  "length (descriptors (ring_update i f r)) = length (descriptors r)"
  "ring_has_room (ring_update i f r) = ring_has_room r"
  "ring_inv (ring_update i f r) = ring_inv r"
  by (simp_all add: ring_update_def ring_has_room_def ring_inv_def)

lemma ring_descriptor_update [simp]:
  "length (descriptors r) = 128 \<Longrightarrow> ring_descriptor i (ring_update i f r) = f (ring_descriptor i r)"
  by (simp add: ring_descriptor_def ring_update_def)

lemma ring_update_update [simp]:
  "length (descriptors r) = 128 \<Longrightarrow> ring_update i g (ring_update i f r) = ring_update i (g \<circ> f) r"
  by (simp add: ring_update_def ring_descriptor_def)

text \<open>Releasing the tail removes the first descriptor.\<close>

lemma ring_list_release:
  assumes "ring_tail r \<noteq> ring_head r"
  shows "ring_list r = ring_descriptor (ring_tail r) r # ring_list (r\<lparr>ring_tail := ring_tail r + 1\<rparr>)"
proof -
  let ?n = "unat (ring_head r - (ring_tail r + 1))"
  have "ring_head r - (ring_tail r + 1) = ring_head r - ring_tail r - 1" by simp
  moreover have "ring_head r - ring_tail r \<noteq> 0" using assms by auto
  ultimately have n: "unat (ring_head r - ring_tail r) = Suc ?n"
    by (metis unat_minus_one Suc_pred' unat_gt_0)
  have "(unat (ring_tail r + 1) + i) mod 128 = (unat (ring_tail r) + Suc i) mod 128" for i
  proof -
    have "ring_slot (ring_tail r + 1 + of_nat i) = ring_slot (ring_tail r + of_nat (Suc i))"
      by (simp add: algebra_simps)
    then show ?thesis unfolding ring_slot_add .
  qed
  then show ?thesis
    using n by (simp add: ring_list_def ring_descriptor_def ring_slot_mod upt_conv_Cons
        map_Suc_upt [symmetric] comp_def del: upt_Suc)
qed

lemma ring_inv_release:
  assumes "ring_inv r" and "ring_tail r \<noteq> ring_head r"
  shows "ring_inv (r\<lparr>ring_tail := ring_tail r + 1\<rparr>)"
proof -
  have "length (ring_list (r\<lparr>ring_tail := ring_tail r + 1\<rparr>)) \<le> length (ring_list r)"
    using ring_list_release [OF assms(2)] by simp
  with assms(1) show ?thesis by (simp add: ring_inv_def)
qed

interpretation ipc_ring: bounded_fifo ring_inv ring_list "\<lambda>_. 128" ring_push ring_pop
proof
  fix r :: SpscRingControl and v d :: IpcDescriptor
  show "ring_inv (snd (ring_push v r))" if "ring_inv r"
    using that ring_inv_publish [of "ring_update (ring_head r) (\<lambda>_. v) r"] by (simp add: ring_push_def)
  show "ring_list (snd (ring_push v r)) =
      (if length (ring_list r) < 128 then ring_list r @ [v] else ring_list r)" if "ring_inv r"
    using that ring_list_publish [of "ring_update (ring_head r) (\<lambda>_. v) r"]
    by (simp add: ring_push_def ring_list_update_free ring_has_room_iff ring_inv_def)
  show "ring_inv (snd (snd (ring_pop d r)))" if "ring_inv r"
    using that ring_inv_release [of r] by (simp add: ring_pop_def)
  show "ring_list (snd (snd (ring_pop d r))) = tl (ring_list r)" if "ring_inv r"
    using ring_list_release [of r] ring_list_Nil_iff [of r] by (auto simp: ring_pop_def)
  show "fst (snd (ring_pop d r)) = (case ring_list r of [] \<Rightarrow> d | v # _ \<Rightarrow> v)" if "ring_inv r"
    using ring_list_release [of r] ring_list_Nil_iff [of r] by (auto simp: ring_pop_def)
qed (auto simp: ring_inv_def ring_push_def ring_pop_def ring_has_room_iff ring_list_Nil_iff)

lemma ring_inv_zero [simp]: "ring_inv SpscRingControl_zero"
  by (simp add: ring_inv_def SpscRingControl_zero_def RING_SIZE_def)

lemma ring_list_zero [simp]: "ring_list SpscRingControl_zero = []"
  by (simp add: ring_list_Nil_iff) (simp add: SpscRingControl_zero_def)

lemma payload_addr_inject:
  assumes "i < 128" and "j < 128" and "a < 256" and "b < 256"
  shows "payload_addr pool i + of_nat a = payload_addr pool j + of_nat b \<longleftrightarrow> i = j \<and> a = b"
proof -
  have "payload_addr pool i + of_nat a = payload_addr pool j + of_nat b \<longleftrightarrow>
      (of_nat (i * 256 + a) :: u32) = of_nat (j * 256 + b)"
    by (simp add: payload_addr_def algebra_simps)
  also have "\<dots> \<longleftrightarrow> i * 256 + a = j * 256 + b"
    using assms by (intro of_nat_u32_inject) simp_all
  also have "\<dots> \<longleftrightarrow> i = j \<and> a = b"
  proof
    assume eq: "i * 256 + a = j * 256 + b"
    have "(i * 256 + a) div 256 = i" "(j * 256 + b) div 256 = j" using assms by simp_all
    with eq show "i = j \<and> a = b" by simp
  qed simp
  finally show ?thesis .
qed

lemmas payload_addr_distinct =
  payload_addr_inject [where a = 0 and b = 0, simplified]
  payload_addr_inject [where a = 0 and b = 1, simplified]
  payload_addr_inject [where a = 1 and b = 0, simplified]
  payload_addr_inject [where a = 1 and b = 1, simplified]

end
