(* ===== verification/Ipc_Benchmark.thy ===== *)
theory Ipc_Benchmark
  imports Ipc_Protocol Hal_Boot
begin

text \<open>
  \<^verbatim>\<open>apps/ipc_benchmark/src/main.cpp\<close>: a coroutine that sends a numbered message to Linux every
  millisecond.  The rings are the records of \<open>Ipc_Protocol\<close>; the payload pool is ordinary memory at
  the address \<open>pool\<close> the linker gives it.  \<open>self\<close> is the handle of the coroutine, and one iteration
  of its loop ends in the suspension that waits for the next millisecond.

  Linux consumes messages at any time, also between two stores of the sender.  \<open>bm_step\<close> is the
  system of both sides, one store per step.
\<close>

subsection \<open>State and operations\<close>

record ipc_benchmark =
  g_tx_ring :: SpscRingControl
  g_rx_ring :: SpscRingControl
  bm_seq :: u32
  bm_timer :: HardwareTimer
  bm_stdout :: "string list"

definition ipc_benchmark_static :: ipc_benchmark where
  "ipc_benchmark_static =
     \<lparr>g_tx_ring = SpscRingControl_zero, g_rx_ring = SpscRingControl_zero, bm_seq = 0,
      bm_timer = HardwareTimer_static, bm_stdout = []\<rparr>"

definition bm_descriptor ::
    "u32 \<Rightarrow> (IpcDescriptor \<Rightarrow> IpcDescriptor) \<Rightarrow> ipc_benchmark \<Rightarrow> ipc_benchmark" where
  "bm_descriptor head f s = s\<lparr>g_tx_ring := ring_update head f (g_tx_ring s)\<rparr>"

text \<open>The stores that fill a slot, in the order of the code.\<close>

definition sender_statements ::
    "('h, 'x) platform \<Rightarrow> u32 \<Rightarrow> u32 \<Rightarrow>
     (ipc_benchmark \<times> ('h, 'x) env \<Rightarrow> (ipc_benchmark \<times> ('h, 'x) env) option) list" where
  "sender_statements P pool head =
     (let payload = payload_addr pool (ring_slot head) in
      [\<lambda>(s, e). Some (s, store_u8 payload (ucast (bm_seq s AND 0xFF)) e),
       \<lambda>(s, e). Some (s, store_u8 (payload + 1) (ucast (drop_bit 8 (bm_seq s) AND 0xFF)) e),
       \<lambda>(s, e). Some (bm_descriptor head (\<lambda>d. d\<lparr>dram_payload_addr := payload\<rparr>) s, e),
       \<lambda>(s, e). Some (bm_descriptor head (\<lambda>d. d\<lparr>desc_length := 256\<rparr>) s, e),
       \<lambda>(s, e). Some (bm_descriptor head (\<lambda>d. d\<lparr>msg_type := MsgType_code IMU_BURST_DATA\<rparr>) s, e),
       \<lambda>(s, e). do {
         (now, e1) \<leftarrow> get_time_us P (bm_timer s) e;
         Some (bm_descriptor head (\<lambda>d. d\<lparr>timestamp_us := now\<rparr>) s, e1)
       }])"

definition sender_publish ::
    "('h, 'x) platform \<Rightarrow> u32 \<Rightarrow> ipc_benchmark \<times> ('h, 'x) env \<Rightarrow> ipc_benchmark \<times> ('h, 'x) env" where
  "sender_publish P head se =
     (let (s, e) = se
      in (s\<lparr>g_tx_ring := (g_tx_ring s)\<lparr>ring_head := head + 1\<rparr>, bm_seq := bm_seq s + 1\<rparr>,
          ring_doorbell_to_linux P 0x01 e))"

definition ipc_sender_coro ::
    "('h, 'x) platform \<Rightarrow> u32 \<Rightarrow> handle \<Rightarrow> ipc_benchmark \<times> ('h, 'x) env \<Rightarrow>
     (ipc_benchmark \<times> ('h, 'x) env) option" where
  "ipc_sender_coro P pool self se =
     (let (s, e) = se; head = ring_head (g_tx_ring s); tail = ring_tail (g_tx_ring s) in
      do {
        (s1, e1) \<leftarrow> (if head - tail < RING_SIZE
                     then do {
                       se1 \<leftarrow> run_statements (sender_statements P pool head) (s, e);
                       Some (sender_publish P head se1)
                     }
                     else Some (s, e));
        Some (s1, sleep_ms P 1 self e1)
      })"

text \<open>\<open>main\<close> up to the event loop: \<open>False\<close> is the endless wait after a failed handshake; with \<open>True\<close>
  the sender has run its first iteration and the event loop resumes it from then on.\<close>

definition ipc_benchmark_main ::
    "('h, 'x) platform \<Rightarrow> u32 \<Rightarrow> handle \<Rightarrow> ipc_benchmark \<times> ('h, 'x) env \<Rightarrow>
     (bool \<times> ipc_benchmark \<times> ('h, 'x) env) option" where
  "ipc_benchmark_main P pool self se =
     (let (s, e) = se in
      do {
        (ok, t, e1) \<leftarrow> initialize_from_linux_clock_configuration P 1000 (bm_timer s) e;
        let s1 = s\<lparr>bm_timer := t\<rparr>;
        if \<not> ok then Some (False, s1, e1)
        else do {
          let e2 = MsgboxDriver_init P e1;
          let s2 = s1\<lparr>bm_stdout := bm_stdout s1 @
            [''=== IPC Benchmark (SRAM Ring + DRAM Payloads) Started ==='' @ [CHR 0x0A]]\<rparr>;
          (s3, e3) \<leftarrow> ipc_sender_coro P pool self (s2, e2);
          Some (True, s3, e3)
        }
      })"

subsection \<open>The sender and Linux\<close>

text \<open>Where the sender is: before the loads of the loop, or at its \<open>k\<close>-th store for the head it loaded.\<close>

datatype sender_pc = Loop_head | Storing u32 nat

text \<open>What Linux gets from a descriptor: the descriptor and the two payload bytes the sender wrote.\<close>

definition linux_view :: "IpcDescriptor \<Rightarrow> ('h, 'x) env \<Rightarrow> IpcDescriptor \<times> u8 \<times> u8" where
  "linux_view d e = (d, ram e (dram_payload_addr d), ram e (dram_payload_addr d + 1))"

type_synonym ('h, 'x) bm_system =
  "sender_pc \<times> ipc_benchmark \<times> ('h, 'x) env \<times> (IpcDescriptor \<times> u8 \<times> u8) list"

inductive bm_step ::
    "('h, 'x) platform \<Rightarrow> u32 \<Rightarrow> handle \<Rightarrow> ('h, 'x) bm_system \<Rightarrow> ('h, 'x) bm_system \<Rightarrow> bool"
  for P :: "('h, 'x) platform" and pool :: u32 and self :: handle where
  loads: "ring_has_room (g_tx_ring s) \<Longrightarrow>
    bm_step P pool self (Loop_head, s, e, rs) (Storing (ring_head (g_tx_ring s)) 0, s, e, rs)"
| loads_full: "\<not> ring_has_room (g_tx_ring s) \<Longrightarrow>
    bm_step P pool self (Loop_head, s, e, rs) (Loop_head, s, sleep_ms P 1 self e, rs)"
| store: "k < 6 \<Longrightarrow> (sender_statements P pool head ! k) (s, e) = Some (s', e') \<Longrightarrow>
    bm_step P pool self (Storing head k, s, e, rs) (Storing head (Suc k), s', e', rs)"
| publication: "sender_publish P head (s, e) = (s', e') \<Longrightarrow>
    bm_step P pool self (Storing head 6, s, e, rs) (Loop_head, s', sleep_ms P 1 self e', rs)"
| linux_receives: "ring_pop IpcDescriptor_zero (g_tx_ring s) = (True, d, r) \<Longrightarrow>
    bm_step P pool self (pc, s, e, rs) (pc, s\<lparr>g_tx_ring := r\<rparr>, e, rs @ [linux_view d e])"
| other_activity: "bm_step P pool self (pc, s, e, rs)
    (pc, s\<lparr>bm_timer := t, bm_stdout := out\<rparr>, e\<lparr>hw := h, ax := x\<rparr>, rs)"

inductive_cases loop_headE: "bm_step P pool self (Loop_head, s, e, rs) y"

text \<open>Message number \<open>k\<close> as it should arrive.\<close>

fun is_message :: "u32 \<Rightarrow> nat \<Rightarrow> IpcDescriptor \<times> u8 \<times> u8 \<Rightarrow> bool" where
  "is_message pool k (d, b0, b1) \<longleftrightarrow>
     dram_payload_addr d = payload_addr pool (k mod 128) \<and> desc_length d = 256 \<and>
     msg_type d = MsgType_code IMU_BURST_DATA \<and> b0 = of_nat k \<and> b1 = of_nat (k div 256)"

definition slot_message :: "u32 \<Rightarrow> nat \<Rightarrow> ipc_benchmark \<Rightarrow> ('h, 'x) env \<Rightarrow> IpcDescriptor \<times> u8 \<times> u8" where
  "slot_message pool k s e =
     (descriptors (g_tx_ring s) ! (k mod 128), ram e (payload_addr pool (k mod 128)),
      ram e (payload_addr pool (k mod 128) + 1))"

text \<open>The slot of message \<open>n\<close> after the first \<open>j\<close> stores.\<close>

definition partly_stored :: "u32 \<Rightarrow> nat \<Rightarrow> nat \<Rightarrow> IpcDescriptor \<times> u8 \<times> u8 \<Rightarrow> bool" where
  "partly_stored pool n j m \<longleftrightarrow>
     (let (d, b0, b1) = m in
      (1 \<le> j \<longrightarrow> b0 = of_nat n) \<and> (2 \<le> j \<longrightarrow> b1 = of_nat (n div 256)) \<and>
      (3 \<le> j \<longrightarrow> dram_payload_addr d = payload_addr pool (n mod 128)) \<and>
      (4 \<le> j \<longrightarrow> desc_length d = 256) \<and> (5 \<le> j \<longrightarrow> msg_type d = MsgType_code IMU_BURST_DATA))"

definition sent_so_far :: "u32 \<Rightarrow> nat \<Rightarrow> ('h, 'x) bm_system \<Rightarrow> bool" where
  "sent_so_far pool n sys \<longleftrightarrow>
     (case sys of (pc, s, e, rs) \<Rightarrow>
      length (descriptors (g_tx_ring s)) = 128 \<and> ring_head (g_tx_ring s) = of_nat n \<and>
      ring_tail (g_tx_ring s) = of_nat (length rs) \<and> bm_seq s = of_nat n \<and>
      length rs \<le> n \<and> n \<le> length rs + 128 \<and> (\<forall>k < length rs. is_message pool k (rs ! k)) \<and>
      (\<forall>k. length rs \<le> k \<and> k < n \<longrightarrow> is_message pool k (slot_message pool k s e)) \<and>
      (case pc of Loop_head \<Rightarrow> True
       | Storing head j \<Rightarrow> head = of_nat n \<and> n < length rs + 128 \<and> j \<le> 6 \<and>
           partly_stored pool n j (slot_message pool n s e)))"

subsection \<open>Lemmas\<close>

lemma unat_of_nat_diff:
  "c \<le> n \<Longrightarrow> n \<le> c + 128 \<Longrightarrow> unat (of_nat n - of_nat c :: u32) = n - c"
proof -
  assume "c \<le> n" "n \<le> c + 128"
  then have "(of_nat n - of_nat c :: u32) = of_nat (n - c)" and "n - c < 4294967296"
    by (simp_all only: of_nat_diff)
  then show ?thesis by (simp only: unat_of_nat) simp
qed

lemma of_nat_eq_iff_close: "c \<le> n \<Longrightarrow> n \<le> c + 128 \<Longrightarrow> (of_nat n :: u32) = of_nat c \<longleftrightarrow> n = c"
  using unat_of_nat_diff [of c n] by auto

lemma seq_low_byte: "(ucast ((of_nat n :: u32) AND 0xFF) :: u8) = of_nat n"
proof -
  have "(0xFF :: u32) = mask 8" by (simp add: mask_eq_exp_minus_1)
  then show ?thesis by (intro bit_word_eqI) (simp only: bit_simps, auto)
qed

lemma seq_high_byte: "(ucast (drop_bit 8 (of_nat n :: u32) AND 0xFF) :: u8) = of_nat (n div 256)"
proof -
  have "(0xFF :: u32) = mask 8" by (simp add: mask_eq_exp_minus_1)
  moreover have "n div 256 = drop_bit 8 n" by (simp add: drop_bit_eq_div)
  ultimately show ?thesis
    by (intro bit_word_eqI) (simp only: bit_simps, auto simp: bit_of_nat_iff)
qed

lemmas sender_defs = sender_statements_def bm_descriptor_def Let_def store_u8_def ring_update_def
  ring_descriptor_def bind_eq_Some_conv

lemma less_6_cases: "(k::nat) < 6 \<Longrightarrow> k = 5 \<or> k = 4 \<or> k = 3 \<or> k = 2 \<or> k = 1 \<or> k = 0"
  by arith

lemma store_frame:
  assumes "(sender_statements P pool (of_nat n) ! k) (s, e) = Some (s', e')" and "k < 6"
  shows "ring_head (g_tx_ring s') = ring_head (g_tx_ring s)" "ring_tail (g_tx_ring s') = ring_tail (g_tx_ring s)"
    "bm_seq s' = bm_seq s" "length (descriptors (g_tx_ring s')) = length (descriptors (g_tx_ring s))"
  using less_6_cases [OF assms(2)] assms(1) by (auto simp: sender_defs)

lemma timestamp_store_ram:
  "(sender_statements P pool head ! 5) (s, e) = Some (s', e') \<Longrightarrow> ram e' = ram e"
  by (auto simp: sender_defs dest: get_time_us_ram)

lemma store_keeps_other_slots:
  assumes "(sender_statements P pool (of_nat n) ! k) (s, e) = Some (s', e')" and "k < 6"
    and "j mod 128 \<noteq> n mod 128"
  shows "slot_message pool j s' e' = slot_message pool j s e"
proof (cases "k = 5")
  case True
  with assms timestamp_store_ram [of P pool "of_nat n" s e s' e'] show ?thesis
    by (auto simp: sender_defs slot_message_def ring_slot_of_nat)
next
  case False
  with assms less_6_cases [OF assms(2)] payload_addr_distinct [of "j mod 128" "n mod 128" pool]
  show ?thesis by (auto simp: sender_defs slot_message_def ring_slot_of_nat)
qed

lemma store_progress:
  assumes "(sender_statements P pool (of_nat n) ! k) (s, e) = Some (s', e')" and "k < 6"
    and "length (descriptors (g_tx_ring s)) = 128" and "bm_seq s = of_nat n"
    and "partly_stored pool n k (slot_message pool n s e)"
  shows "partly_stored pool n (Suc k) (slot_message pool n s' e')"
proof (cases "k = 5")
  case True
  with assms timestamp_store_ram [of P pool "of_nat n" s e s' e'] show ?thesis
    by (auto simp: sender_defs slot_message_def ring_slot_of_nat partly_stored_def)
next
  case False
  with assms less_6_cases [OF assms(2)] show ?thesis
    by (auto simp: sender_defs slot_message_def ring_slot_of_nat partly_stored_def seq_low_byte
        seq_high_byte)
qed

lemma is_message_stored: "partly_stored pool n 6 m \<Longrightarrow> is_message pool n m"
  by (cases m) (auto simp: partly_stored_def)

lemma mod_128_distinct: "j \<noteq> n \<Longrightarrow> j < n + 128 \<Longrightarrow> n < j + 128 \<Longrightarrow> j mod 128 \<noteq> n mod (128::nat)"
  using add_mod_128_inject [of j n 0] add_mod_128_inject [of n j 0] by (cases "j < n") auto

lemma sent_initially:
  "g_tx_ring s = SpscRingControl_zero \<Longrightarrow> bm_seq s = 0 \<Longrightarrow> sent_so_far pool 0 (Loop_head, s, e, [])"
  by (simp add: sent_so_far_def SpscRingControl_zero_def RING_SIZE_def)

lemma sent_store:
  assumes "sent_so_far pool n (Storing head k, s, e, rs)" and "k < 6"
    and "(sender_statements P pool head ! k) (s, e) = Some (s', e')"
  shows "sent_so_far pool n (Storing head (Suc k), s', e', rs)"
proof -
  have h: "head = of_nat n" and b: "n < length rs + 128" and c: "length rs \<le> n"
    using assms(1) by (simp_all add: sent_so_far_def)
  note st = assms(3) [unfolded h]
  have "slot_message pool j s' e' = slot_message pool j s e" if "length rs \<le> j" "j < n" for j
    using store_keeps_other_slots [OF st assms(2), of j] mod_128_distinct [of j n] that b by simp
  moreover have "partly_stored pool n (Suc k) (slot_message pool n s' e')"
    using assms(1) by (intro store_progress [OF st assms(2)]) (simp_all add: sent_so_far_def)
  ultimately show ?thesis
    using assms(1,2) store_frame [OF st assms(2)] by (simp add: sent_so_far_def)
qed

lemma sent_publication:
  assumes "sent_so_far pool n (Storing head 6, s, e, rs)" and "sender_publish P head (s, e) = (s', e')"
  shows "sent_so_far pool (Suc n) (Loop_head, s', sleep_ms P 1 self e', rs)"
proof -
  have m: "is_message pool n (slot_message pool n s e)"
    using assms(1) by (simp add: sent_so_far_def is_message_stored)
  have e: "slot_message pool j s' (sleep_ms P 1 self e') = slot_message pool j s e" for j
    using assms(2) by (auto simp: sender_publish_def slot_message_def sleep_ms_def ring_doorbell_to_linux_def)
  have "is_message pool j (slot_message pool j s e)" if "length rs \<le> j" "j < Suc n" for j
    using that m assms(1) by (cases "j = n") (auto simp: sent_so_far_def)
  then show ?thesis
    using assms unfolding sent_so_far_def case_prod_conv e
    by (auto simp: sender_publish_def)
qed

lemma sent_received:
  assumes "sent_so_far pool n (pc, s, e, rs)" and "ring_pop IpcDescriptor_zero (g_tx_ring s) = (True, d, r)"
  shows "sent_so_far pool n (pc, s\<lparr>g_tx_ring := r\<rparr>, e, rs @ [linux_view d e])"
proof -
  let ?c = "length rs"
  have ring: "ring_head (g_tx_ring s) = of_nat n" "ring_tail (g_tx_ring s) = of_nat ?c" "?c \<le> n" "n \<le> ?c + 128"
    using assms(1) by (simp_all add: sent_so_far_def)
  have ne: "ring_tail (g_tx_ring s) \<noteq> ring_head (g_tx_ring s)"
    and r: "r = (g_tx_ring s)\<lparr>ring_tail := of_nat ?c + 1\<rparr>" and d: "d = descriptors (g_tx_ring s) ! (?c mod 128)"
    using assms(2) ring by (auto simp: ring_pop_def ring_descriptor_def ring_slot_of_nat split: if_splits)
  have lt: "?c < n" using ne ring of_nat_eq_iff_close [of ?c n] by (cases "?c = n") auto
  have slots: "slot_message pool j (s\<lparr>g_tx_ring := r\<rparr>) e = slot_message pool j s e" for j
    by (simp add: slot_message_def r)
  have "is_message pool ?c (slot_message pool ?c s e)"
    using assms(1) lt by (simp add: sent_so_far_def)
  moreover from this have "linux_view d e = slot_message pool ?c s e"
    by (simp add: linux_view_def slot_message_def d)
  ultimately have "is_message pool k ((rs @ [linux_view d e]) ! k)" if "k < Suc ?c" for k
    using that assms(1) by (auto simp: sent_so_far_def nth_append less_Suc_eq)
  then show ?thesis
    using assms(1) lt unfolding sent_so_far_def case_prod_conv slots
    by (auto simp: r split: sender_pc.splits)
qed

lemma sent_step:
  assumes "bm_step P pool self x y" and "sent_so_far pool n x"
  shows "\<exists>m. sent_so_far pool m y"
  using assms
proof cases
  case (loads s e rs)
  then have "sent_so_far pool n y" using assms(2) unat_of_nat_diff [of "length rs" n]
    by (auto simp: sent_so_far_def partly_stored_def ring_has_room_iff split_beta)
  then show ?thesis ..
next
  case (loads_full s e rs)
  then show ?thesis using assms(2) by (auto simp: sent_so_far_def slot_message_def sleep_ms_def)
next
  case (store k head s e s' e' rs)
  then show ?thesis using assms(2) sent_store by blast
next
  case (publication head s e s' e' rs)
  then show ?thesis using assms(2) sent_publication by blast
next
  case (linux_receives s d r pc e rs)
  then show ?thesis using assms(2) sent_received by blast
next
  case (other_activity pc s e rs t out h x)
  then show ?thesis using assms(2)
    by (auto simp: sent_so_far_def slot_message_def split: sender_pc.splits)
qed

lemma sent_reachable:
  assumes "(bm_step P pool self)\<^sup>*\<^sup>* x y" and "sent_so_far pool n x"
  shows "\<exists>m. sent_so_far pool m y"
  using assms by (induction rule: rtranclp_induct) (auto dest: sent_step)

text \<open>The loop body of the code is one of the interleavings: the sender runs its stores one after the
  other.\<close>

lemma stores_are_steps:
  assumes "run_statements (drop k (sender_statements P pool head)) (s, e) = Some (s', e')" and "k \<le> 6"
  shows "(bm_step P pool self)\<^sup>*\<^sup>* (Storing head k, s, e, rs) (Storing head 6, s', e', rs)"
  using assms(2,1)
proof (induction arbitrary: s e rule: inc_induct)
  case base
  then show ?case by (simp add: sender_statements_def Let_def)
next
  case (step k)
  have len: "length (sender_statements P pool head) = 6" by (simp add: sender_statements_def Let_def)
  then have "drop k (sender_statements P pool head) =
      sender_statements P pool head ! k # drop (Suc k) (sender_statements P pool head)"
    using step.hyps by (simp add: Cons_nth_drop_Suc)
  then obtain s1 e1 where one: "(sender_statements P pool head ! k) (s, e) = Some (s1, e1)"
    and rest: "run_statements (drop (Suc k) (sender_statements P pool head)) (s1, e1) = Some (s', e')"
    using step.prems by (auto simp: bind_eq_Some_conv)
  from bm_step.store [OF _ one] step.hyps step.IH [OF rest] show ?case
    by (meson converse_rtranclp_into_rtranclp)
qed

lemma sender_coro_is_run:
  assumes "ipc_sender_coro P pool self (s, e) = Some (s', e')"
  shows "(bm_step P pool self)\<^sup>*\<^sup>* (Loop_head, s, e, rs) (Loop_head, s', e', rs)"
proof (cases "ring_has_room (g_tx_ring s)")
  case True
  let ?h = "ring_head (g_tx_ring s)"
  obtain s1 e1 e2 where st: "run_statements (sender_statements P pool ?h) (s, e) = Some (s1, e1)"
    and pub: "sender_publish P ?h (s1, e1) = (s', e2)" and e': "e' = sleep_ms P 1 self e2"
    using assms True
    by (auto simp: ipc_sender_coro_def Let_def ring_has_room_def bind_eq_Some_conv sender_publish_def)
  have "(bm_step P pool self)\<^sup>*\<^sup>* (Storing ?h 0, s, e, rs) (Storing ?h 6, s1, e1, rs)"
    using stores_are_steps [of 0 P pool ?h s e s1 e1 self rs] st by simp
  from rtranclp.rtrancl_into_rtrancl [OF this bm_step.publication [OF pub]] show ?thesis
    unfolding e' using bm_step.loads [OF True] by (meson converse_rtranclp_into_rtranclp)
next
  case False
  with assms have "s' = s" "e' = sleep_ms P 1 self e"
    by (auto simp: ipc_sender_coro_def Let_def ring_has_room_def bind_eq_Some_conv)
  with bm_step.loads_full [OF False] show ?thesis by blast
qed

lemma run_sender_statements:
  assumes "length (descriptors (g_tx_ring s)) = 128"
    and "get_time_us P (bm_timer s) (store_u8 (payload_addr pool (ring_slot head) + 1) (ucast (drop_bit 8 (bm_seq s) AND 0xFF))
          (store_u8 (payload_addr pool (ring_slot head)) (ucast (bm_seq s AND 0xFF)) e)) = Some (now, e1)"
  shows "run_statements (sender_statements P pool head) (s, e) =
    Some (bm_descriptor head (\<lambda>d. d\<lparr>dram_payload_addr := payload_addr pool (ring_slot head), desc_length := 256,
      msg_type := MsgType_code IMU_BURST_DATA, timestamp_us := now\<rparr>) s, e1)"
  using assms by (simp add: sender_statements_def Let_def bm_descriptor_def comp_def)

lemma ucast_and_0xFF: "(ucast ((x :: u32) AND 0xFF) :: u8) = ucast x"
proof -
  have "(0xFF :: u32) = mask 8" by (simp add: mask_eq_exp_minus_1)
  then show ?thesis by (intro bit_word_eqI) (simp only: bit_simps, auto)
qed

subsection \<open>Properties\<close>

text \<open>C11. Messages arrive complete, in order and without loss: in every interleaving of the single
  stores of the sender with Linux taking descriptors and with any activity of the hardware, the
  list Linux has received is message 0, 1, 2, ... with the right payload address, length, type and
  sequence number; what was sent and not yet received is in the ring, never more than 128
  descriptors; the 32-bit indices and the sequence number may wrap.\<close>

theorem ipc_messages_arrive_in_order:
  assumes "g_tx_ring s0 = SpscRingControl_zero" and "bm_seq s0 = 0"
    and "(bm_step P pool self)\<^sup>*\<^sup>* (Loop_head, s0, e0, []) (pc, s, e, rs)"
  shows "\<exists>n. (\<forall>k < length rs. is_message pool k (rs ! k)) \<and>
    ring_head (g_tx_ring s) = of_nat n \<and> bm_seq s = of_nat n \<and>
    n = length rs + length (ring_list (g_tx_ring s)) \<and> length (ring_list (g_tx_ring s)) \<le> 128"
proof -
  obtain n where "sent_so_far pool n (pc, s, e, rs)"
    using sent_reachable [OF assms(3) sent_initially [OF assms(1,2)]] by blast
  then show ?thesis
    using unat_of_nat_diff [of "length rs" n] by (intro exI [of _ n]) (auto simp: sent_so_far_def)
qed

theorem ipc_messages_arrive_in_order_witness:
  "\<exists>s e d. (bm_step sim_platform 0x48100000 7)\<^sup>*\<^sup>* (Loop_head, ipc_benchmark_static, sim_env, [])
     (Loop_head, s, e, [(d, 0, 0)]) \<and> dram_payload_addr d = 0x48100000 \<and> desc_length d = 256"
proof -
  let ?P = sim_platform and ?s = ipc_benchmark_static
  have z: "g_tx_ring ?s = SpscRingControl_zero" "bm_seq ?s = 0"
    by (simp_all add: ipc_benchmark_static_def)
  have len: "length (descriptors (g_tx_ring ?s)) = 128"
    by (simp add: z SpscRingControl_zero_def RING_SIZE_def)
  obtain s e where run: "ipc_sender_coro ?P 0x48100000 7 (?s, sim_env) = Some (s, e)"
    and tx: "ring_has_room (g_tx_ring ?s)" "ring_head (g_tx_ring s) = 1" "ring_tail (g_tx_ring s) = 0"
    using run_sender_statements [OF len sim_get_time_us, of "0x48100000" "ring_head (g_tx_ring ?s)" sim_env]
    by (auto simp: ipc_sender_coro_def z SpscRingControl_zero_def RING_SIZE_def sender_publish_def
        bm_descriptor_def ring_has_room_def)
  let ?d = "ring_descriptor 0 (g_tx_ring s)"
  have pop: "ring_pop IpcDescriptor_zero (g_tx_ring s) = (True, ?d, (g_tx_ring s)\<lparr>ring_tail := 1\<rparr>)"
    by (simp add: ring_pop_def tx)
  have steps: "(bm_step ?P 0x48100000 7)\<^sup>*\<^sup>* (Loop_head, ?s, sim_env, [])
      (Loop_head, s\<lparr>g_tx_ring := (g_tx_ring s)\<lparr>ring_tail := 1\<rparr>\<rparr>, e, [linux_view ?d e])"
    using rtranclp.rtrancl_into_rtrancl [OF sender_coro_is_run [OF run, where rs = "[]"] bm_step.linux_receives [OF pop]]
    by simp
  from ipc_messages_arrive_in_order [OF z steps]
  have "is_message 0x48100000 0 (linux_view ?d e)" by auto
  then have v: "linux_view ?d e = (?d, 0, 0)" "dram_payload_addr ?d = 0x48100000" "desc_length ?d = 256"
    by (auto simp: linux_view_def payload_addr_def)
  show ?thesis using steps v(2,3) unfolding v(1) by (intro exI conjI)
qed

text \<open>One iteration of the sender: with room in the ring it appends exactly one descriptor, for the
  payload slot with the sequence number in its first two bytes, rings the doorbell after the
  descriptor is published, and sleeps; with 128 descriptors in the ring it changes nothing and
  sleeps.  It always reaches the sleep when the cycle counter can be read.\<close>

theorem ipc_sender_sends_or_waits:
  assumes "ring_inv (g_tx_ring s)" and "\<And>e. get_time_us P (bm_timer s) e \<noteq> None"
  shows "\<exists>s' e'. ipc_sender_coro P pool self (s, e) = Some (s', e') \<and> ring_inv (g_tx_ring s') \<and>
    (if length (ring_list (g_tx_ring s)) < 128
     then \<exists>d h. ring_list (g_tx_ring s') = ring_list (g_tx_ring s) @ [d] \<and> desc_length d = 256 \<and>
       msg_type d = MsgType_code IMU_BURST_DATA \<and> bm_seq s' = bm_seq s + 1 \<and>
       dram_payload_addr d = payload_addr pool (ring_slot (ring_head (g_tx_ring s))) \<and>
       load_bytes (dram_payload_addr d) 2 (ram e') = [ucast (bm_seq s), ucast (drop_bit 8 (bm_seq s))] \<and>
       hw e' = bus_wr P (msgbox_reg MSGBOX_BASE MSG_QUEUE 0 0) 1 h
     else s' = s \<and> e' = sleep_ms P 1 self e)"
proof (cases "length (ring_list (g_tx_ring s)) < 128")
  case True
  let ?h = "ring_head (g_tx_ring s)" and ?p = "payload_addr pool (ring_slot (ring_head (g_tx_ring s)))"
  let ?e = "store_u8 (?p + 1) (ucast (drop_bit 8 (bm_seq s) AND 0xFF)) (store_u8 ?p (ucast (bm_seq s AND 0xFF)) e)"
  obtain now e1 where t: "get_time_us P (bm_timer s) ?e = Some (now, e1)" using assms(2) by fastforce
  have len: "length (descriptors (g_tx_ring s)) = 128" using assms(1) by (simp add: ring_inv_def)
  have room: "ring_has_room (g_tx_ring s)" using True by (simp add: ring_has_room_iff)
  let ?f = "\<lambda>d. d\<lparr>dram_payload_addr := ?p, desc_length := 256, msg_type := MsgType_code IMU_BURST_DATA, timestamp_us := now\<rparr>"
  let ?r = "ring_update ?h ?f (g_tx_ring s)"
  have run: "ipc_sender_coro P pool self (s, e) =
      Some (s\<lparr>g_tx_ring := ?r\<lparr>ring_head := ?h + 1\<rparr>, bm_seq := bm_seq s + 1\<rparr>,
            sleep_ms P 1 self (ring_doorbell_to_linux P 1 e1))"
    using room run_sender_statements [OF len t]
    by (simp add: ipc_sender_coro_def Let_def ring_has_room_def sender_publish_def bm_descriptor_def)
  have "ram e1 = ram ?e" using get_time_us_ram [OF t] .
  then have b: "load_bytes ?p 2 (ram e1) = [ucast (bm_seq s), ucast (drop_bit 8 (bm_seq s))]"
    by (simp add: store_u8_def numeral_2_eq_2 ucast_and_0xFF)
  have "ring_list (?r\<lparr>ring_head := ?h + 1\<rparr>) = ring_list (g_tx_ring s) @ [?f (ring_descriptor ?h (g_tx_ring s))]"
    using ring_list_publish [of ?r] room len by (simp add: ring_list_update_free)
  moreover have "ring_inv (?r\<lparr>ring_head := ?h + 1\<rparr>)" using ring_inv_publish [of ?r] room assms(1) by simp
  moreover have "hw (sleep_ms P 1 self (ring_doorbell_to_linux P 1 e1)) =
      bus_wr P (msgbox_reg MSGBOX_BASE MSG_QUEUE 0 0) 1 (hw e1)"
    and "ram (sleep_ms P 1 self (ring_doorbell_to_linux P 1 e1)) = ram e1"
    by (simp_all add: sleep_ms_def ring_doorbell_to_linux_def mmio_write_def)
  ultimately show ?thesis
    using True b by (simp add: run) blast
next
  case False
  then have "\<not> ring_head (g_tx_ring s) - ring_tail (g_tx_ring s) < RING_SIZE"
    using ring_has_room_iff [of "g_tx_ring s"] by (simp add: ring_has_room_def)
  with False assms(1) show ?thesis by (simp add: ipc_sender_coro_def Let_def)
qed

theorem ipc_sender_sends_or_waits_witness:
  "\<exists>s' e' d. ipc_sender_coro sim_platform 0x48100000 7 (ipc_benchmark_static\<lparr>bm_seq := 0xABCD\<rparr>, sim_env) = Some (s', e') \<and>
     ring_list (g_tx_ring s') = [d] \<and> load_bytes (dram_payload_addr d) 2 (ram e') = [0xCD, 0xAB]"
proof -
  have "ring_inv (g_tx_ring (ipc_benchmark_static\<lparr>bm_seq := 0xABCD\<rparr>))"
    and "ring_list (g_tx_ring (ipc_benchmark_static\<lparr>bm_seq := 0xABCD\<rparr>)) = []"
    by (simp_all add: ipc_benchmark_static_def)
  then show ?thesis
    using ipc_sender_sends_or_waits [where s = "ipc_benchmark_static\<lparr>bm_seq := 0xABCD\<rparr>" and P = sim_platform
        and e = sim_env and self = 7 and pool = "0x48100000"]
    by (fastforce simp: sim_get_time_us)
qed

end
