(* ===== verification/Ipc_Ping.thy ===== *)
theory Ipc_Ping
  imports Ipc_Protocol Hal_Boot Trace_Log
begin

text \<open>
  \<^verbatim>\<open>apps/ipc_ping_test/src/main.cpp\<close>: a coroutine that answers every descriptor Linux puts into the
  receive ring with a descriptor in the send ring, after copying the payload into its own pool.
  The inner loop runs to the head it loaded at its start, so it ends; one iteration of the outer
  loop ends in the suspension for a millisecond.  The system of the responder and Linux, statement by
  statement, is in \<open>Ping_Schedule\<close>.
\<close>

subsection \<open>State and operations\<close>

record ipc_ping =
  pg_tx_ring :: SpscRingControl
  pg_rx_ring :: SpscRingControl
  echo_count :: u32
  pg_timer :: HardwareTimer
  pg_trace :: trace

definition ipc_ping_static :: ipc_ping where
  "ipc_ping_static =
     \<lparr>pg_tx_ring = SpscRingControl_zero, pg_rx_ring = SpscRingControl_zero, echo_count = 0,
      pg_timer = HardwareTimer_static, pg_trace = trace_static\<rparr>"

text \<open>The copy loop, from byte \<open>i\<close> on, with \<open>n\<close> bytes left.\<close>

fun copy_loop :: "u32 \<Rightarrow> u32 \<Rightarrow> u32 \<Rightarrow> nat \<Rightarrow> ('h, 'x) env \<Rightarrow> ('h, 'x) env" where
  "copy_loop tx_payload src i 0 e = e"
| "copy_loop tx_payload src i (Suc n) e =
     copy_loop tx_payload src (i + 1) n (store_u8 (tx_payload + i) (ram e (src + i)) e)"

definition copy_payload :: "u32 \<Rightarrow> IpcDescriptor \<Rightarrow> ('h, 'x) env \<Rightarrow> ('h, 'x) env" where
  "copy_payload tx_payload in_desc e =
     (if dram_payload_addr in_desc \<noteq> 0 \<and> desc_length in_desc > 0
      then
        (let copy_len = (if desc_length in_desc > 256 then 256 else desc_length in_desc)
         in copy_loop tx_payload (dram_payload_addr in_desc) 0 (unat copy_len) e)
      else e)"

definition ping_descriptor :: "u32 \<Rightarrow> (IpcDescriptor \<Rightarrow> IpcDescriptor) \<Rightarrow> ipc_ping \<Rightarrow> ipc_ping" where
  "ping_descriptor tx_head f s = s\<lparr>pg_tx_ring := ring_update tx_head f (pg_tx_ring s)\<rparr>"

text \<open>The stores into the descriptor of the answer, in the order of the code.\<close>

definition respond_statements ::
    "('h, 'x) platform \<Rightarrow> u32 \<Rightarrow> IpcDescriptor \<Rightarrow> u32 \<Rightarrow>
     (ipc_ping \<times> ('h, 'x) env \<Rightarrow> (ipc_ping \<times> ('h, 'x) env) option) list" where
  "respond_statements P pool in_desc tx_head =
     [\<lambda>(s, e). Some (ping_descriptor tx_head
          (\<lambda>d. d\<lparr>dram_payload_addr := payload_addr pool (ring_slot tx_head)\<rparr>) s, e),
      \<lambda>(s, e). Some (ping_descriptor tx_head (\<lambda>d. d\<lparr>desc_length := desc_length in_desc\<rparr>) s, e),
      \<lambda>(s, e). Some (ping_descriptor tx_head (\<lambda>d. d\<lparr>msg_type := msg_type in_desc\<rparr>) s, e),
      \<lambda>(s, e). Some (ping_descriptor tx_head (\<lambda>d. d\<lparr>desc_flags := desc_flags in_desc OR 0x8000\<rparr>) s, e),
      \<lambda>(s, e). do {
        (now, e1) \<leftarrow> get_time_us P (pg_timer s) e;
        Some (ping_descriptor tx_head (\<lambda>d. d\<lparr>timestamp_us := now\<rparr>) s, e1)
      }]"

definition ping_publish :: "u32 \<Rightarrow> ipc_ping \<Rightarrow> ipc_ping" where
  "ping_publish tx_head s = s\<lparr>pg_tx_ring := (pg_tx_ring s)\<lparr>ring_head := tx_head + 1\<rparr>\<rparr>"

definition ping_ring ::
    "('h, 'x) platform \<Rightarrow> ipc_ping \<times> ('h, 'x) env \<Rightarrow> ipc_ping \<times> ('h, 'x) env" where
  "ping_ring P se =
     (let (s, e) = se in (s\<lparr>echo_count := echo_count s + 1\<rparr>, ring_doorbell_to_linux P 0x01 e))"

definition ping_release :: "u32 \<Rightarrow> ipc_ping \<Rightarrow> ipc_ping" where
  "ping_release rx_tail s = s\<lparr>pg_rx_ring := (pg_rx_ring s)\<lparr>ring_tail := rx_tail + 1\<rparr>\<rparr>"

definition ping_respond ::
    "('h, 'x) platform \<Rightarrow> u32 \<Rightarrow> IpcDescriptor \<Rightarrow> ipc_ping \<times> ('h, 'x) env \<Rightarrow>
     (ipc_ping \<times> ('h, 'x) env) option" where
  "ping_respond P pool in_desc se =
     (let (s, e) = se; tx_head = ring_head (pg_tx_ring s); tx_tail = ring_tail (pg_tx_ring s) in
      if tx_head - tx_tail < RING_SIZE
      then do {
        let e1 = copy_payload (payload_addr pool (ring_slot tx_head)) in_desc e;
        (s2, e2) \<leftarrow> run_statements (respond_statements P pool in_desc tx_head) (s, e1);
        Some (ping_ring P (ping_publish tx_head s2, e2))
      }
      else Some (s, e))"

definition ping_body ::
    "('h, 'x) platform \<Rightarrow> u32 \<Rightarrow> u32 \<Rightarrow> ipc_ping \<times> ('h, 'x) env \<Rightarrow>
     (ipc_ping \<times> ('h, 'x) env) option" where
  "ping_body P pool rx_tail se =
     do {
       (s, e) \<leftarrow> ping_respond P pool (ring_descriptor rx_tail (pg_rx_ring (fst se))) se;
       Some (ping_release rx_tail s, e)
     }"

function ping_loop ::
    "('h, 'x) platform \<Rightarrow> u32 \<Rightarrow> u32 \<Rightarrow> u32 \<Rightarrow> ipc_ping \<times> ('h, 'x) env \<Rightarrow>
     (ipc_ping \<times> ('h, 'x) env) option" where
  "ping_loop P pool rx_head rx_tail se =
     (if rx_tail \<noteq> rx_head
      then do { se1 \<leftarrow> ping_body P pool rx_tail se; ping_loop P pool rx_head (rx_tail + 1) se1 }
      else Some se)"
  by pat_completeness auto
termination
proof (relation "measure (\<lambda>(P, pool, rx_head, rx_tail, se). unat (rx_head - rx_tail))")
  fix P :: "('h, 'x) platform" and pool rx_head rx_tail :: u32 and se se1 :: "ipc_ping \<times> ('h, 'x) env"
  assume "rx_tail \<noteq> rx_head"
  then have "unat (rx_head - rx_tail - 1) < unat (rx_head - rx_tail)" by (intro unat_pred_less) simp
  then show "((P, pool, rx_head, rx_tail + 1, se1), P, pool, rx_head, rx_tail, se)
      \<in> measure (\<lambda>(P, pool, rx_head, rx_tail, se). unat (rx_head - rx_tail))"
    by (simp add: algebra_simps)
qed simp

declare ping_loop.simps [simp del]

definition ping_heartbeat ::
    "('h, 'x) platform \<Rightarrow> ipc_ping \<times> ('h, 'x) env \<Rightarrow> ipc_ping \<times> ('h, 'x) env" where
  "ping_heartbeat P se =
     (let (s, e) = se in
      if echo_count s mod 10 = 0 \<and> echo_count s \<noteq> 0
      then
        (let (t, e1) = put_dec P (Some ''count='') (echo_count s)
               (Trace_puts P (Some ''[riscv] ipc_ping_test: echoed '') (pg_trace s, e))
         in (s\<lparr>pg_trace := t\<rparr>, e1))
      else (s, e))"

definition ipc_ping_responder_coro ::
    "('h, 'x) platform \<Rightarrow> u32 \<Rightarrow> handle \<Rightarrow> ipc_ping \<times> ('h, 'x) env \<Rightarrow>
     (ipc_ping \<times> ('h, 'x) env) option" where
  "ipc_ping_responder_coro P pool self se =
     (let rx_head = ring_head (pg_rx_ring (fst se)); rx_tail = ring_tail (pg_rx_ring (fst se)) in
      do {
        se1 \<leftarrow> ping_loop P pool rx_head rx_tail se;
        let (s2, e2) = ping_heartbeat P se1;
        Some (s2, sleep_ms P 1 self e2)
      })"

definition ping_puts ::
    "('h, 'x) platform \<Rightarrow> string \<Rightarrow> ipc_ping \<times> ('h, 'x) env \<Rightarrow> ipc_ping \<times> ('h, 'x) env" where
  "ping_puts P text se =
     (let (s, e) = se; (t, e1) = Trace_puts P (Some (text @ [CHR 0x0A])) (pg_trace s, e)
      in (s\<lparr>pg_trace := t\<rparr>, e1))"

text \<open>\<open>main\<close> up to the event loop; \<open>False\<close> is the endless wait after a failed handshake.\<close>

definition ipc_ping_main ::
    "('h, 'x) platform \<Rightarrow> u32 \<Rightarrow> handle \<Rightarrow> ipc_ping \<times> ('h, 'x) env \<Rightarrow>
     (bool \<times> ipc_ping \<times> ('h, 'x) env) option" where
  "ipc_ping_main P pool self se =
     (let (s0, e0) = se; (t0, e1) = Trace_init P (pg_trace s0, e0);
          (s2, e2) = ping_puts P ''[riscv] ipc_ping_test: booting and initializing clocks''
            (s0\<lparr>pg_trace := t0\<rparr>, e1)
      in do {
        (ok, tm, e3) \<leftarrow> initialize_from_linux_clock_configuration P 1000 (pg_timer s2) e2;
        let s3 = s2\<lparr>pg_timer := tm\<rparr>;
        if \<not> ok
        then Some (False, ping_puts P ''[riscv] ipc_ping_test: clock init failed, halting'' (s3, e3))
        else do {
          se5 \<leftarrow> ipc_ping_responder_coro P pool self
            (ping_puts P ''[riscv] ipc_ping_test: ready, starting ping responder''
              (s3, MsgboxDriver_init P e3));
          Some (True, se5)
        }
      })"

text \<open>The answer to a descriptor: same length and type, the echo flag set.\<close>

definition is_echo :: "IpcDescriptor \<Rightarrow> IpcDescriptor \<Rightarrow> bool" where
  "is_echo d r \<longleftrightarrow> desc_length r = desc_length d \<and> msg_type r = msg_type d \<and>
     desc_flags r = desc_flags d OR 0x8000"

subsection \<open>Lemmas\<close>

lemma run_respond_statements:
  assumes "length (descriptors (pg_tx_ring s)) = 128"
  shows "run_statements (respond_statements P pool d tx_head) (s, e) =
    do {
      (now, e1) \<leftarrow> get_time_us P (pg_timer s) e;
      Some (ping_descriptor tx_head (\<lambda>x. x\<lparr>dram_payload_addr := payload_addr pool (ring_slot tx_head),
        desc_length := desc_length d, msg_type := msg_type d, desc_flags := desc_flags d OR 0x8000,
        timestamp_us := now\<rparr>) s, e1)
    }"
  using assms by (cases "get_time_us P (pg_timer s) e") (auto simp: respond_statements_def ping_descriptor_def comp_def)

lemma ping_respond_room:
  assumes "length (descriptors (pg_tx_ring s)) = 128" and "length (ring_list (pg_tx_ring s)) < 128"
    and "ping_respond P pool d (s, e) = Some (s', e')"
  shows "\<exists>r. is_echo d r \<and> dram_payload_addr r = payload_addr pool (ring_slot (ring_head (pg_tx_ring s))) \<and>
      ring_list (pg_tx_ring s') = ring_list (pg_tx_ring s) @ [r]"
    and "length (descriptors (pg_tx_ring s')) = 128" and "pg_rx_ring s' = pg_rx_ring s" and "pg_timer s' = pg_timer s"
    and "echo_count s' = echo_count s + 1"
    and "ram e' = ram (copy_payload (payload_addr pool (ring_slot (ring_head (pg_tx_ring s)))) d e)"
proof -
  let ?tx = "pg_tx_ring s" let ?h = "ring_head ?tx" let ?p = "payload_addr pool (ring_slot ?h)"
  have room: "ring_has_room ?tx" using assms(2) by (simp add: ring_has_room_iff)
  let ?f = "\<lambda>now x. x\<lparr>dram_payload_addr := ?p, desc_length := desc_length d, msg_type := msg_type d,
    desc_flags := desc_flags d OR 0x8000, timestamp_us := now\<rparr>"
  obtain now e2 where t: "get_time_us P (pg_timer s) (copy_payload ?p d e) = Some (now, e2)"
    and e': "e' = ring_doorbell_to_linux P 1 e2"
    and s': "s' = (ping_publish ?h (ping_descriptor ?h (?f now) s))\<lparr>echo_count := echo_count s + 1\<rparr>"
    using assms(3) room
    by (auto simp: run_respond_statements [OF assms(1)] ping_respond_def Let_def ring_has_room_def bind_eq_Some_conv ping_ring_def ping_publish_def
        ping_descriptor_def)
  note defs = ping_publish_def ping_descriptor_def
  let ?r = "ring_update ?h (?f now) ?tx"
  show "\<exists>r. is_echo d r \<and> dram_payload_addr r = ?p \<and> ring_list (pg_tx_ring s') = ring_list ?tx @ [r]"
    using ring_list_publish [of ?r] room assms(1)
    by (auto simp: s' defs ring_list_update_free is_echo_def)
  show "ram e' = ram (copy_payload ?p d e)"
    using get_time_us_ram [OF t] by (simp add: e' ring_doorbell_to_linux_def)
  show "length (descriptors (pg_tx_ring s')) = 128" "pg_rx_ring s' = pg_rx_ring s" "pg_timer s' = pg_timer s"
    "echo_count s' = echo_count s + 1"
    using assms(1) by (simp_all add: s' defs)
qed

lemma ping_respond_full:
  "128 \<le> length (ring_list (pg_tx_ring s)) \<Longrightarrow> ping_respond P pool d (s, e) = Some (s, e)"
  using ring_has_room_iff [of "pg_tx_ring s"] by (simp add: ping_respond_def ring_has_room_def Let_def)

lemma ping_respond_returns:
  assumes "\<And>e. get_time_us P (pg_timer s) e \<noteq> None" and "length (descriptors (pg_tx_ring s)) = 128"
  obtains s' e' where "ping_respond P pool d (s, e) = Some (s', e')"
proof (cases "ring_has_room (pg_tx_ring s)")
  case True
  obtain now e2 where "get_time_us P (pg_timer s)
      (copy_payload (payload_addr pool (ring_slot (ring_head (pg_tx_ring s)))) d e) = Some (now, e2)"
    using assms(1) by fastforce
  with True that show thesis
    by (auto simp: run_respond_statements [OF assms(2)] ping_respond_def Let_def ring_has_room_def ping_ring_def)
next
  case False
  with that show thesis by (simp add: ping_respond_def Let_def ring_has_room_def)
qed

text \<open>One round of the inner loop: the first request leaves the receive ring and is answered when there
  is room, and dropped otherwise.\<close>

lemma ping_body_spec:
  assumes "length (descriptors (pg_tx_ring s)) = 128" and "ring_list (pg_rx_ring s) = d # ds"
    and "ping_body P pool (ring_tail (pg_rx_ring s)) (s, e) = Some (s', e')"
  shows "length (descriptors (pg_tx_ring s')) = 128" and "ring_list (pg_rx_ring s') = ds"
    and "pg_timer s' = pg_timer s" and "ring_head (pg_rx_ring s') = ring_head (pg_rx_ring s)"
    and "ring_tail (pg_rx_ring s') = ring_tail (pg_rx_ring s) + 1"
    and "if length (ring_list (pg_tx_ring s)) < 128
      then (\<exists>r. is_echo d r \<and> ring_list (pg_tx_ring s') = ring_list (pg_tx_ring s) @ [r]) \<and>
        echo_count s' = echo_count s + 1
      else pg_tx_ring s' = pg_tx_ring s \<and> echo_count s' = echo_count s"
proof -
  let ?rx = "pg_rx_ring s"
  have ne: "ring_tail ?rx \<noteq> ring_head ?rx" using assms(2) ring_list_Nil_iff [of ?rx] by auto
  have d: "ring_descriptor (ring_tail ?rx) ?rx = d" "ring_list (?rx\<lparr>ring_tail := ring_tail ?rx + 1\<rparr>) = ds"
    using ring_list_release [OF ne] assms(2) by simp_all
  obtain s1 where r: "ping_respond P pool d (s, e) = Some (s1, e')"
    and s': "s' = ping_release (ring_tail ?rx) s1"
    using assms(3) d by (auto simp: ping_body_def bind_eq_Some_conv)
  have keeps: "pg_rx_ring s1 = ?rx \<and> pg_timer s1 = pg_timer s \<and> length (descriptors (pg_tx_ring s1)) = 128 \<and>
    (if length (ring_list (pg_tx_ring s)) < 128
      then (\<exists>r. is_echo d r \<and> ring_list (pg_tx_ring s1) = ring_list (pg_tx_ring s) @ [r]) \<and>
        echo_count s1 = echo_count s + 1
      else pg_tx_ring s1 = pg_tx_ring s \<and> echo_count s1 = echo_count s)"
  proof (cases "length (ring_list (pg_tx_ring s)) < 128")
    case True
    with ping_respond_room [OF assms(1) True r] show ?thesis by auto
  next
    case False
    then have "s1 = s" using r ping_respond_full [of s P pool d e] by simp
    with False assms(1) show ?thesis by simp
  qed
  then show "ring_list (pg_rx_ring s') = ds" "length (descriptors (pg_tx_ring s')) = 128" "pg_timer s' = pg_timer s"
    "ring_head (pg_rx_ring s') = ring_head ?rx" "ring_tail (pg_rx_ring s') = ring_tail ?rx + 1"
    using d by (simp_all add: s' ping_release_def)
  show "if length (ring_list (pg_tx_ring s)) < 128
      then (\<exists>r. is_echo d r \<and> ring_list (pg_tx_ring s') = ring_list (pg_tx_ring s) @ [r]) \<and>
        echo_count s' = echo_count s + 1
      else pg_tx_ring s' = pg_tx_ring s \<and> echo_count s' = echo_count s"
    using keeps by (simp add: s' ping_release_def)
qed

lemma ping_body_returns:
  assumes "\<And>e. get_time_us P (pg_timer s) e \<noteq> None" and "length (descriptors (pg_tx_ring s)) = 128"
  obtains s' e' where "ping_body P pool rx_tail (s, e) = Some (s', e')"
proof -
  obtain s1 e1 where "ping_respond P pool (ring_descriptor rx_tail (pg_rx_ring s)) (s, e) = Some (s1, e1)"
    using ping_respond_returns [OF assms] .
  with that show thesis by (simp add: ping_body_def)
qed

lemma ping_loop_answers:
  assumes "length (descriptors (pg_tx_ring s)) = 128" and "\<And>e. get_time_us P (pg_timer s) e \<noteq> None"
  shows "\<exists>s' e' rs. ping_loop P pool (ring_head (pg_rx_ring s)) (ring_tail (pg_rx_ring s)) (s, e) = Some (s', e') \<and>
    ring_list (pg_rx_ring s') = [] \<and> ring_list (pg_tx_ring s') = ring_list (pg_tx_ring s) @ rs \<and>
    list_all2 is_echo (take (128 - length (ring_list (pg_tx_ring s))) (ring_list (pg_rx_ring s))) rs \<and>
    echo_count s' = echo_count s + of_nat (length rs)"
  using assms
proof (induction "ring_list (pg_rx_ring s)" arbitrary: s e)
  case Nil
  then have "ring_tail (pg_rx_ring s) = ring_head (pg_rx_ring s)" by (metis ring_list_Nil_iff)
  then show ?case using Nil by (simp add: ping_loop.simps)
next
  case (Cons d ds)
  let ?rx = "pg_rx_ring s" and ?room = "128 - length (ring_list (pg_tx_ring s))"
  have ne: "ring_tail ?rx \<noteq> ring_head ?rx" using Cons.hyps(2) ring_list_Nil_iff [of ?rx] by auto
  obtain s1 e1 where b: "ping_body P pool (ring_tail ?rx) (s, e) = Some (s1, e1)"
    using ping_body_returns [OF Cons.prems(2,1)] .
  note one = ping_body_spec [OF Cons.prems(1) Cons.hyps(2) [symmetric] b]
  obtain s' e' rs where IH: "ping_loop P pool (ring_head (pg_rx_ring s1)) (ring_tail (pg_rx_ring s1)) (s1, e1) = Some (s', e')"
    "ring_list (pg_rx_ring s') = []"
    "ring_list (pg_tx_ring s') = ring_list (pg_tx_ring s1) @ rs"
    "list_all2 is_echo (take (128 - length (ring_list (pg_tx_ring s1))) ds) rs"
    "echo_count s' = echo_count s1 + of_nat (length rs)"
    using Cons.hyps(1) [of s1 e1] one(1-3) Cons.prems(2) by auto
  have loop: "ping_loop P pool (ring_head ?rx) (ring_tail ?rx) (s, e) = Some (s', e')"
    using b ne IH(1) one(4,5) by (simp add: ping_loop.simps [of P pool "ring_head ?rx" "ring_tail ?rx"])
  show ?case
  proof (cases "length (ring_list (pg_tx_ring s)) < 128")
    case True
    then obtain r where r: "is_echo d r" "ring_list (pg_tx_ring s1) = ring_list (pg_tx_ring s) @ [r]"
      "echo_count s1 = echo_count s + 1"
      using one(6) by auto
    have room: "?room = Suc (128 - length (ring_list (pg_tx_ring s1)))" using True by (simp add: r(2) del: length_ring_list)
    have "list_all2 is_echo (take ?room (ring_list ?rx)) (r # rs)"
      using IH(4) r(1) unfolding room Cons.hyps(2) [symmetric] by simp
    moreover have "ring_list (pg_tx_ring s') = ring_list (pg_tx_ring s) @ (r # rs)" using IH(3) r(2) by simp
    moreover have "echo_count s' = echo_count s + of_nat (length (r # rs))" using IH(5) r(3) by simp
    ultimately show ?thesis using loop IH(2) by blast
  next
    case False
    then have full: "pg_tx_ring s1 = pg_tx_ring s" "echo_count s1 = echo_count s" and "?room = 0" using one(6) by auto
    then have "rs = []" using IH(4) by simp
    then show ?thesis using loop IH(2-5) full \<open>?room = 0\<close> by auto
  qed
qed

text \<open>Two buffers of 256 bytes whose start addresses are at least 256 apart, in both directions around
  the address space, share no byte.\<close>

lemma far_apart:
  assumes "256 \<le> src - dst" and "256 \<le> dst - (src :: u32)" and "j < 256" and "k < 256"
  shows "src + of_nat j \<noteq> dst + of_nat k"
proof
  assume eq: "src + of_nat j = dst + of_nat k"
  show False
  proof (cases "j \<le> k")
    case True
    then have "src - dst = of_nat (k - j)" using eq by (simp add: of_nat_diff algebra_simps)
    then have "unat (src - dst) = k - j" using assms(4) by (simp add: unat_of_nat)
    then show False using assms(1,4) by (simp add: word_le_nat_alt)
  next
    case False
    then have "dst - src = of_nat (j - k)" using eq by (simp add: of_nat_diff algebra_simps)
    then have "unat (dst - src) = j - k" using assms(3) by (simp add: unat_of_nat)
    then show False using assms(2,3) by (simp add: word_le_nat_alt)
  qed
qed

lemma copy_loop_stores:
  assumes "\<And>j k. j < n \<Longrightarrow> k < n \<Longrightarrow> src + i + of_nat j \<noteq> dst + i + of_nat k"
  shows "copy_loop dst src i n e = e\<lparr>ram := store_bytes (dst + i) (load_bytes (src + i) n (ram e)) (ram e)\<rparr>"
  using assms
proof (induction n arbitrary: i e)
  case 0
  then show ?case by simp
next
  case (Suc n)
  let ?m = "(ram e)(dst + i := ram e (src + i))"
  have "load_bytes (src + (i + 1)) n ?m = load_bytes (src + (i + 1)) n (ram e)"
  proof (rule load_bytes_cong)
    fix j assume "j < n"
    then show "?m (src + (i + 1) + of_nat j) = ram e (src + (i + 1) + of_nat j)"
      using Suc.prems [of "Suc j" 0] by (simp add: algebra_simps)
  qed
  moreover have "src + (i + 1) + of_nat j \<noteq> dst + (i + 1) + of_nat k" if "j < n" "k < n" for j k
    using Suc.prems [of "Suc j" "Suc k"] that by (simp add: algebra_simps)
  note Suc.IH [OF this]
  ultimately show ?case by (simp add: store_u8_def add.assoc)
qed

lemma length_load_bytes [simp]: "length (load_bytes a n m) = n"
  by (induction n arbitrary: a) simp_all

lemma copy_payload_copies:
  assumes "dram_payload_addr d \<noteq> 0" and "256 \<le> dram_payload_addr d - dst" and "256 \<le> dst - dram_payload_addr d"
    and "n = min 256 (unat (desc_length d))"
  shows "load_bytes dst n (ram (copy_payload dst d e)) = load_bytes (dram_payload_addr d) n (ram e)"
    and "\<And>k. n \<le> k \<Longrightarrow> k < 4294967296 \<Longrightarrow> ram (copy_payload dst d e) (dst + of_nat k) = ram e (dst + of_nat k)"
proof -
  let ?bs = "load_bytes (dram_payload_addr d) n (ram e)"
  have "unat (if desc_length d > 256 then 256 else desc_length d) = n"
    using assms(4) by (auto simp: word_less_nat_alt min_def)
  moreover have "desc_length d > 0 \<longleftrightarrow> n \<noteq> 0"
    using assms(4) by (auto simp: word_less_nat_alt unat_eq_zero)
  moreover have "copy_loop dst (dram_payload_addr d) 0 n e =
      e\<lparr>ram := store_bytes (dst + 0) (load_bytes (dram_payload_addr d + 0) n (ram e)) (ram e)\<rparr>"
    using far_apart [OF assms(2,3)] assms(4) by (intro copy_loop_stores) simp
  ultimately have c: "ram (copy_payload dst d e) = store_bytes dst ?bs (ram e)"
    using assms(1) by (cases "n = 0") (simp_all add: copy_payload_def Let_def)
  show "load_bytes dst n (ram (copy_payload dst d e)) = ?bs"
    using load_store_bytes [of ?bs dst "ram e"] assms(4) by (simp add: c)
  show "ram (copy_payload dst d e) (dst + of_nat k) = ram e (dst + of_nat k)" if "n \<le> k" "k < 4294967296" for k
    unfolding c
    by (rule store_bytes_outside) (use that assms(4) of_nat_u32_inject [of k] in auto)
qed

lemma ping_heartbeat_rings:
  "pg_tx_ring (fst (ping_heartbeat P (s, e))) = pg_tx_ring s"
  "pg_rx_ring (fst (ping_heartbeat P (s, e))) = pg_rx_ring s"
  "echo_count (fst (ping_heartbeat P (s, e))) = echo_count s"
  by (simp_all add: ping_heartbeat_def Let_def case_prod_beta)

subsection \<open>Properties\<close>

text \<open>C27. The responder always gets to its next sleep, whatever the indices of the two rings hold, also when they
  are further apart than a ring is long: the inner loop ends, and an iteration empties the receive ring and
  appends to the send ring the echoes of as many requests, from the first, as there is room for; the requests
  behind them are dropped without an answer.\<close>

theorem ping_responder_iteration:
  assumes "length (descriptors (pg_tx_ring s)) = 128" and "\<And>e. get_time_us P (pg_timer s) e \<noteq> None"
  shows "\<exists>s' e' rs. ipc_ping_responder_coro P pool self (s, e) = Some (s', e') \<and>
    ring_list (pg_rx_ring s') = [] \<and> ring_list (pg_tx_ring s') = ring_list (pg_tx_ring s) @ rs \<and>
    list_all2 is_echo (take (128 - length (ring_list (pg_tx_ring s))) (ring_list (pg_rx_ring s))) rs \<and>
    echo_count s' = echo_count s + of_nat (length rs)"
proof -
  obtain s1 e1 rs where loop: "ping_loop P pool (ring_head (pg_rx_ring s)) (ring_tail (pg_rx_ring s)) (s, e) = Some (s1, e1)"
    and rs: "ring_list (pg_rx_ring s1) = []" "ring_list (pg_tx_ring s1) = ring_list (pg_tx_ring s) @ rs"
    "list_all2 is_echo (take (128 - length (ring_list (pg_tx_ring s))) (ring_list (pg_rx_ring s))) rs"
    "echo_count s1 = echo_count s + of_nat (length rs)"
    using ping_loop_answers [OF assms, of pool e] by blast
  obtain s2 e2 where h: "ping_heartbeat P (s1, e1) = (s2, e2)" by fastforce
  have "ipc_ping_responder_coro P pool self (s, e) = Some (s2, sleep_ms P 1 self e2)"
    using loop h by (simp add: ipc_ping_responder_coro_def)
  then show ?thesis
    using rs ping_heartbeat_rings [where P = P and s = s1 and e = e1] unfolding h fst_conv by metis
qed

text \<open>Here the send ring claims to hold 500 descriptors.\<close>

theorem ping_responder_iteration_witness:
  "\<exists>s' e'. ipc_ping_responder_coro sim_platform 0x48100000 7
     (ipc_ping_static\<lparr>pg_rx_ring := snd (ring_push IpcDescriptor_zero SpscRingControl_zero),
        pg_tx_ring := SpscRingControl_zero\<lparr>ring_head := 500\<rparr>\<rparr>, sim_env) = Some (s', e') \<and>
     echo_count s' = 0 \<and> ring_list (pg_rx_ring s') = []"
proof -
  let ?s = "ipc_ping_static\<lparr>pg_rx_ring := snd (ring_push IpcDescriptor_zero SpscRingControl_zero),
    pg_tx_ring := SpscRingControl_zero\<lparr>ring_head := 500\<rparr>\<rparr>"
  have "length (descriptors (pg_tx_ring ?s)) = 128" "length (ring_list (pg_tx_ring ?s)) = 500" "echo_count ?s = 0"
    by (simp_all add: ipc_ping_static_def SpscRingControl_zero_def RING_SIZE_def)
  then show ?thesis
    using ping_responder_iteration [of ?s sim_platform "0x48100000" 7 sim_env]
    by (fastforce simp: sim_get_time_us)
qed

text \<open>C34. An answer carries the payload of its request: when the request has a payload that does not overlap
  the buffer of the answer, up to 256 bytes of it are copied unchanged.  The length of a longer
  payload is copied too, so such an answer announces bytes behind its buffer that were not copied.\<close>

theorem ping_copies_payload:
  assumes "ring_inv (pg_tx_ring s)" and "length (ring_list (pg_tx_ring s)) < 128"
    and "dram_payload_addr d \<noteq> 0" and "dst = payload_addr pool (ring_slot (ring_head (pg_tx_ring s)))"
    and "256 \<le> dram_payload_addr d - dst" and "256 \<le> dst - dram_payload_addr d"
    and "ping_respond P pool d (s, e) = Some (s', e')" and "n = min 256 (unat (desc_length d))"
  shows "\<exists>r. ring_list (pg_tx_ring s') = ring_list (pg_tx_ring s) @ [r] \<and> dram_payload_addr r = dst \<and>
    desc_length r = desc_length d \<and>
    load_bytes dst n (ram e') = load_bytes (dram_payload_addr d) n (ram e) \<and>
    (\<forall>k. n \<le> k \<and> k < 4294967296 \<longrightarrow> ram e' (dst + of_nat k) = ram e (dst + of_nat k))"
proof -
  have len: "length (descriptors (pg_tx_ring s)) = 128" using assms(1) by (simp add: ring_inv_def)
  have "ram e' = ram (copy_payload dst d e)"
    using ping_respond_room(6) [OF len assms(2,7)] assms(4) by simp
  moreover obtain r where "is_echo d r" "dram_payload_addr r = dst"
    "ring_list (pg_tx_ring s') = ring_list (pg_tx_ring s) @ [r]"
    using ping_respond_room(1) [OF len assms(2,7)] assms(4) by blast
  ultimately show ?thesis
    using copy_payload_copies [OF assms(3,5,6,8), where e = e] by (auto simp: is_echo_def)
qed

theorem ping_copies_payload_witness:
  "\<exists>s' e'. ping_respond sim_platform 0x48100000 (IpcDescriptor_zero\<lparr>dram_payload_addr := 0x48200000, desc_length := 300\<rparr>)
     (ipc_ping_static, sim_env\<lparr>ram := (\<lambda>a. ucast a)\<rparr>) = Some (s', e') \<and>
     load_bytes 0x48100000 256 (ram e') = load_bytes 0x48200000 256 (\<lambda>a. ucast a)"
proof -
  let ?d = "IpcDescriptor_zero\<lparr>dram_payload_addr := 0x48200000, desc_length := 300\<rparr>"
  let ?e = "sim_env\<lparr>ram := (\<lambda>a. ucast a)\<rparr>"
  have tx: "pg_tx_ring ipc_ping_static = SpscRingControl_zero" by (simp add: ipc_ping_static_def)
  have p: "payload_addr 0x48100000 (ring_slot (ring_head (pg_tx_ring ipc_ping_static))) = 0x48100000"
    by (simp add: tx SpscRingControl_zero_def ring_slot_def payload_addr_def)
  obtain s' e' where r: "ping_respond sim_platform 0x48100000 ?d (ipc_ping_static, ?e) = Some (s', e')"
    using ping_respond_returns [of sim_platform ipc_ping_static "0x48100000" ?d ?e]
    by (auto simp: sim_get_time_us tx SpscRingControl_zero_def RING_SIZE_def)
  have "load_bytes 0x48100000 256 (ram e') = load_bytes 0x48200000 256 (\<lambda>a. ucast a)"
    using ping_copies_payload [OF _ _ _ p [symmetric] _ _ r refl] by (auto simp: tx)
  with r show ?thesis by blast
qed

end
