(* ===== verification/Ping_Schedule.thy ===== *)
theory Ping_Schedule
  imports Ipc_Ping
begin

text \<open>
  The echo responder of \<^verbatim>\<open>apps/ipc_ping_test/src/main.cpp\<close> beside Linux, which runs on another processor: \<open>ping_step\<close> has
  one step per load or store the responder makes to the shared memory (every byte of the copy loop, every field
  of the descriptor, the head, the doorbell, the tail), and Linux sends requests and takes answers between any
  two of them.  A round of the responder without Linux in between is a run of these steps
  (\<open>ping_round_is_run\<close>).
\<close>

subsection \<open>The system\<close>

text \<open>Where the responder is, with the values in its local variables: before the loads of the outer loop; at the
  condition of the inner loop; in the copy loop; at the \<open>k\<close>-th store into the descriptor; before the doorbell;
  before the release of the request.\<close>

datatype ping_pc =
    Outer
  | Inner u32 u32
  | Copying u32 u32 u32 u32 nat nat
  | Filling u32 u32 u32 nat
  | Ringing u32 u32
  | Releasing u32 u32

text \<open>The number of bytes the copy loop will copy.\<close>

definition copy_count :: "IpcDescriptor \<Rightarrow> nat" where
  "copy_count in_desc =
     (if dram_payload_addr in_desc \<noteq> 0 \<and> desc_length in_desc > 0
      then unat (if desc_length in_desc > 256 then 256 else desc_length in_desc) else 0)"

text \<open>Linux sends a request when fewer than 128 of its requests are unanswered, and takes answers at any
  time; \<open>reqs\<close> and \<open>reps\<close> list the requests sent and the answers taken.  Linux fills payloads and
  the hardware changes at any time.\<close>

type_synonym ('h, 'x) ping_system =
  "ping_pc \<times> ipc_ping \<times> ('h, 'x) env \<times> IpcDescriptor list \<times> IpcDescriptor list"

inductive ping_step ::
    "('h, 'x) platform \<Rightarrow> u32 \<Rightarrow> handle \<Rightarrow> ('h, 'x) ping_system \<Rightarrow> ('h, 'x) ping_system \<Rightarrow> bool"
  for P :: "('h, 'x) platform" and pool :: u32 and self :: handle where
  loads: "ping_step P pool self (Outer, s, e, reqs, reps)
    (Inner (ring_head (pg_rx_ring s)) (ring_tail (pg_rx_ring s)), s, e, reqs, reps)"
| drained: "ping_heartbeat P (s, e) = (s', e') \<Longrightarrow>
    ping_step P pool self (Inner h h, s, e, reqs, reps) (Outer, s', sleep_ms P 1 self e', reqs, reps)"
| room: "t \<noteq> h \<Longrightarrow> ring_has_room (pg_tx_ring s) \<Longrightarrow> d = ring_descriptor t (pg_rx_ring s) \<Longrightarrow>
    ping_step P pool self (Inner h t, s, e, reqs, reps)
      (Copying h t (ring_head (pg_tx_ring s)) (dram_payload_addr d) 0 (copy_count d), s, e, reqs, reps)"
| no_room: "t \<noteq> h \<Longrightarrow> \<not> ring_has_room (pg_tx_ring s) \<Longrightarrow>
    ping_step P pool self (Inner h t, s, e, reqs, reps) (Releasing h t, s, e, reqs, reps)"
| copy: "i < n \<Longrightarrow>
    ping_step P pool self (Copying h t th src i n, s, e, reqs, reps) (Copying h t th src (Suc i) n, s,
      store_u8 (payload_addr pool (ring_slot th) + of_nat i) (ram e (src + of_nat i)) e, reqs, reps)"
| copied: "ping_step P pool self (Copying h t th src n n, s, e, reqs, reps) (Filling h t th 0, s, e, reqs, reps)"
| fill: "k < 5 \<Longrightarrow>
    (respond_statements P pool (ring_descriptor t (pg_rx_ring s)) th ! k) (s, e) = Some (s', e') \<Longrightarrow>
    ping_step P pool self (Filling h t th k, s, e, reqs, reps) (Filling h t th (Suc k), s', e', reqs, reps)"
| publish: "ping_step P pool self (Filling h t th 5, s, e, reqs, reps) (Ringing h t, ping_publish th s, e, reqs, reps)"
| ring: "ping_ring P (s, e) = (s', e') \<Longrightarrow>
    ping_step P pool self (Ringing h t, s, e, reqs, reps) (Releasing h t, s', e', reqs, reps)"
| release: "ping_step P pool self (Releasing h t, s, e, reqs, reps) (Inner h (t + 1), ping_release t s, e, reqs, reps)"
| request: "length reqs < length reps + 128 \<Longrightarrow> ring_push d (pg_rx_ring s) = (True, r) \<Longrightarrow>
    ping_step P pool self (pc, s, e, reqs, reps) (pc, s\<lparr>pg_rx_ring := r\<rparr>, e, reqs @ [d], reps)"
| reply: "ring_pop IpcDescriptor_zero (pg_tx_ring s) = (True, d, r) \<Longrightarrow>
    ping_step P pool self (pc, s, e, reqs, reps) (pc, s\<lparr>pg_tx_ring := r\<rparr>, e, reqs, reps @ [d])"
| other_activity: "ping_step P pool self (pc, s, e, reqs, reps)
    (pc, s\<lparr>pg_timer := tm, pg_trace := tr\<rparr>, e\<lparr>hw := h, ax := x, ram := m\<rparr>, reqs, reps)"

subsection \<open>The invariant\<close>

text \<open>The descriptor of the answer to \<open>d\<close> after the first \<open>k\<close> stores.\<close>

definition partly_filled :: "u32 \<Rightarrow> u32 \<Rightarrow> IpcDescriptor \<Rightarrow> nat \<Rightarrow> IpcDescriptor \<Rightarrow> bool" where
  "partly_filled pool th d k r \<longleftrightarrow>
     (1 \<le> k \<longrightarrow> dram_payload_addr r = payload_addr pool (ring_slot th)) \<and>
     (2 \<le> k \<longrightarrow> desc_length r = desc_length d) \<and> (3 \<le> k \<longrightarrow> msg_type r = msg_type d) \<and>
     (4 \<le> k \<longrightarrow> desc_flags r = desc_flags d OR 0x8000)"

text \<open>Answer number \<open>k\<close>, in the payload buffer of its slot.\<close>

definition is_answer :: "u32 \<Rightarrow> nat \<Rightarrow> IpcDescriptor \<Rightarrow> IpcDescriptor \<Rightarrow> bool" where
  "is_answer pool k d r \<longleftrightarrow> is_echo d r \<and> dram_payload_addr r = payload_addr pool (k mod 128)"

text \<open>\<open>asked\<close> are the requests whose answers are published, \<open>answers\<close> those answers.\<close>

definition answers_match :: "u32 \<Rightarrow> IpcDescriptor list \<Rightarrow> IpcDescriptor list \<Rightarrow> bool" where
  "answers_match pool asked answers \<longleftrightarrow>
     length asked = length answers \<and> (\<forall>k < length answers. is_answer pool k (asked ! k) (answers ! k))"

text \<open>The local variables agree with the ring: \<open>t\<close> is its tail, and \<open>h\<close> lies at most at its head.\<close>

definition scanning :: "u32 \<Rightarrow> u32 \<Rightarrow> SpscRingControl \<Rightarrow> bool" where
  "scanning h t rx \<longleftrightarrow> t = ring_tail rx \<and> (\<exists>m \<le> length (ring_list rx). h = t + of_nat m)"

text \<open>The answer to the first request in the receive ring is not published yet, or it is and the request is not
  released yet.\<close>

definition pc_ok :: "u32 \<Rightarrow> IpcDescriptor list \<Rightarrow> IpcDescriptor list \<Rightarrow> ping_pc \<Rightarrow> ipc_ping \<Rightarrow> bool" where
  "pc_ok pool reqs asked pc s \<longleftrightarrow>
     (case pc of
        Outer \<Rightarrow> reqs = asked @ ring_list (pg_rx_ring s)
      | Inner h t \<Rightarrow> reqs = asked @ ring_list (pg_rx_ring s) \<and> scanning h t (pg_rx_ring s)
      | Copying h t th src i n \<Rightarrow> reqs = asked @ ring_list (pg_rx_ring s) \<and> scanning h t (pg_rx_ring s) \<and> h \<noteq> t \<and>
          th = ring_head (pg_tx_ring s) \<and> i \<le> n
      | Filling h t th k \<Rightarrow> reqs = asked @ ring_list (pg_rx_ring s) \<and> scanning h t (pg_rx_ring s) \<and> h \<noteq> t \<and>
          th = ring_head (pg_tx_ring s) \<and> k \<le> 5 \<and>
          partly_filled pool th (ring_descriptor t (pg_rx_ring s)) k (ring_descriptor th (pg_tx_ring s))
      | Ringing h t \<Rightarrow> reqs = butlast asked @ ring_list (pg_rx_ring s) \<and> asked \<noteq> [] \<and>
          last asked = ring_descriptor t (pg_rx_ring s) \<and> scanning h t (pg_rx_ring s) \<and> h \<noteq> t
      | Releasing h t \<Rightarrow> reqs = butlast asked @ ring_list (pg_rx_ring s) \<and> asked \<noteq> [] \<and>
          last asked = ring_descriptor t (pg_rx_ring s) \<and> scanning h t (pg_rx_ring s) \<and> h \<noteq> t)"

definition rings_ok :: "u32 \<Rightarrow> IpcDescriptor list \<Rightarrow> IpcDescriptor list \<Rightarrow> ipc_ping \<Rightarrow> bool" where
  "rings_ok pool asked reps s \<longleftrightarrow> ring_inv (pg_rx_ring s) \<and> ring_inv (pg_tx_ring s) \<and>
     answers_match pool asked (reps @ ring_list (pg_tx_ring s)) \<and> ring_head (pg_tx_ring s) = of_nat (length asked)"

definition answered :: "u32 \<Rightarrow> ('h, 'x) ping_system \<Rightarrow> bool" where
  "answered pool sys \<longleftrightarrow>
     (case sys of (pc, s, e, reqs, reps) \<Rightarrow>
      length reqs \<le> length reps + 128 \<and> (\<exists>asked. rings_ok pool asked reps s \<and> pc_ok pool reqs asked pc s))"

subsection \<open>Lemmas\<close>

lemma scanning_head:
  assumes "scanning h t rx" and "h \<noteq> t"
  shows "ring_tail rx \<noteq> ring_head rx"
    and "ring_list rx = ring_descriptor t rx # ring_list (rx\<lparr>ring_tail := t + 1\<rparr>)"
proof -
  obtain m where "m \<le> length (ring_list rx)" "h = t + of_nat m" "t = ring_tail rx"
    using assms(1) by (auto simp: scanning_def)
  then have "ring_list rx \<noteq> []" using assms(2) by (cases m) (auto simp del: length_ring_list)
  then show ne: "ring_tail rx \<noteq> ring_head rx" by (simp add: ring_list_Nil_iff)
  show "ring_list rx = ring_descriptor t rx # ring_list (rx\<lparr>ring_tail := t + 1\<rparr>)"
    using ring_list_release [OF ne] assms(1) by (simp add: scanning_def)
qed

lemma scanning_release:
  assumes "scanning h t rx" and "h \<noteq> t"
  shows "scanning h (t + 1) (rx\<lparr>ring_tail := t + 1\<rparr>)"
proof -
  obtain m where m: "m \<le> length (ring_list rx)" "h = t + of_nat m"
    using assms(1) by (auto simp: scanning_def)
  then obtain m' where m': "m = Suc m'" using assms(2) by (cases m) auto
  have "length (ring_list rx) = Suc (length (ring_list (rx\<lparr>ring_tail := t + 1\<rparr>)))"
    using arg_cong [OF scanning_head(2) [OF assms], of length] by (simp del: length_ring_list)
  then show ?thesis
    using m m' unfolding scanning_def by (auto intro!: exI [of _ m'] simp del: length_ring_list)
qed

lemma push_contents:
  assumes "ring_push d rx = (True, r)" and "ring_inv rx"
  shows "ring_list r = ring_list rx @ [d]" and "ring_inv r" and "ring_tail r = ring_tail rx"
    and "ring_list rx \<noteq> [] \<Longrightarrow> ring_descriptor (ring_tail rx) r = ring_descriptor (ring_tail rx) rx"
proof -
  show l: "ring_list r = ring_list rx @ [d]" and inv: "ring_inv r"
    using ipc_ring.enq_contents [OF assms(2), of d] ipc_ring.enq_inv [OF assms(2), of d]
      ipc_ring.enq_ok [OF assms(2), of d] assms(1) by auto
  show t: "ring_tail r = ring_tail rx"
    using assms(1) by (auto simp: ring_push_def split: if_splits)
  assume ne: "ring_list rx \<noteq> []"
  then have "ring_tail rx \<noteq> ring_head rx" "ring_tail r \<noteq> ring_head r"
    using l ring_list_Nil_iff [of rx] ring_list_Nil_iff [of r] by auto
  from this [THEN ring_list_release] have "hd (ring_list rx) = ring_descriptor (ring_tail rx) rx"
    "hd (ring_list r) = ring_descriptor (ring_tail r) r" by (metis list.sel(1))+
  then show "ring_descriptor (ring_tail rx) r = ring_descriptor (ring_tail rx) rx" using l ne t by simp
qed

lemma scanning_push:
  assumes "scanning h t rx" and "ring_push d rx = (True, r)" and "ring_inv rx"
  shows "scanning h t r" and "h \<noteq> t \<Longrightarrow> ring_descriptor t r = ring_descriptor t rx"
proof -
  note push = push_contents [OF assms(2,3)]
  show "scanning h t r" using assms(1) push(1,3) unfolding scanning_def by (auto simp del: length_ring_list intro: le_SucI)
  assume "h \<noteq> t"
  then have "ring_list rx \<noteq> []" using scanning_head(2) [OF assms(1)] by simp
  then show "ring_descriptor t r = ring_descriptor t rx" using push(4) assms(1) by (simp add: scanning_def)
qed

text \<open>While a request is without an answer there is room for it.\<close>

lemma room_for_answer:
  assumes "rings_ok pool asked reps s" and "reqs = asked @ ring_list (pg_rx_ring s)"
    and "length reqs \<le> length reps + 128" and "scanning h t (pg_rx_ring s)" and "h \<noteq> t"
  shows "ring_has_room (pg_tx_ring s)"
proof -
  have "length asked = length reps + length (ring_list (pg_tx_ring s))"
    using assms(1) by (simp add: rings_ok_def answers_match_def del: length_ring_list)
  moreover have "0 < length (ring_list (pg_rx_ring s))" using scanning_head(2) [OF assms(4,5)] by simp
  moreover have "length reqs = length asked + length (ring_list (pg_rx_ring s))" using assms(2) by simp
  ultimately have "length (ring_list (pg_tx_ring s)) < 128" using assms(3) by linarith
  then show ?thesis by (simp add: ring_has_room_iff)
qed

lemma less_5_cases: "(k::nat) < 5 \<Longrightarrow> k = 4 \<or> k = 3 \<or> k = 2 \<or> k = 1 \<or> k = 0"
  by arith

lemma fill_effect:
  assumes "(respond_statements P pool d th ! k) (s, e) = Some (s', e')" and "k < 5"
  obtains f where "s' = ping_descriptor th f s"
    and "\<And>r. partly_filled pool th d k r \<Longrightarrow> partly_filled pool th d (Suc k) (f r)"
proof -
  have "\<exists>f. s' = ping_descriptor th f s \<and>
      (\<forall>r. partly_filled pool th d k r \<longrightarrow> partly_filled pool th d (Suc k) (f r))"
    by (insert less_5_cases [OF assms(2)] assms(1), (elim disjE; clarsimp simp: respond_statements_def bind_eq_Some_conv;
        (rule exI, rule conjI, rule refl, simp add: partly_filled_def)))
  with that show thesis by blast
qed

lemma fill_keeps:
  assumes "rings_ok pool asked reps s" and "ring_has_room (pg_tx_ring s)" and "th = ring_head (pg_tx_ring s)"
  shows "rings_ok pool asked reps (ping_descriptor th f s)"
    and "ring_descriptor th (pg_tx_ring (ping_descriptor th f s)) = f (ring_descriptor th (pg_tx_ring s))"
    and "pg_rx_ring (ping_descriptor th f s) = pg_rx_ring s"
    and "ring_head (pg_tx_ring (ping_descriptor th f s)) = ring_head (pg_tx_ring s)"
proof -
  have "length (descriptors (pg_tx_ring s)) = 128" using assms(1) by (simp add: rings_ok_def ring_inv_def)
  then show "ring_descriptor th (pg_tx_ring (ping_descriptor th f s)) = f (ring_descriptor th (pg_tx_ring s))"
    by (simp add: ping_descriptor_def)
  show "rings_ok pool asked reps (ping_descriptor th f s)"
    using assms(1) ring_list_update_free [OF assms(2), of f] by (simp add: rings_ok_def ping_descriptor_def assms(3))
qed (simp_all add: ping_descriptor_def)

lemma answers_match_snoc:
  "answers_match pool asked answers \<Longrightarrow> is_answer pool (length asked) d r \<Longrightarrow>
    answers_match pool (asked @ [d]) (answers @ [r])"
  by (auto simp: answers_match_def nth_append less_Suc_eq)

lemma publish_keeps:
  assumes "rings_ok pool asked reps s" and "ring_has_room (pg_tx_ring s)" and "th = ring_head (pg_tx_ring s)"
    and "partly_filled pool th d 5 (ring_descriptor th (pg_tx_ring s))"
  shows "rings_ok pool (asked @ [d]) reps (ping_publish th s)"
proof -
  have th: "th = of_nat (length asked)" using assms(1,3) by (simp add: rings_ok_def)
  have "is_answer pool (length asked) d (ring_descriptor th (pg_tx_ring s))"
    using assms(4) by (simp add: partly_filled_def is_answer_def is_echo_def th ring_slot_of_nat)
  from answers_match_snoc [OF _ this, of "reps @ ring_list (pg_tx_ring s)"] show ?thesis
    using assms(1-3) ring_list_publish [OF assms(2)] ring_inv_publish [of "pg_tx_ring s"]
    by (simp add: rings_ok_def ping_publish_def)
qed

subsection \<open>The steps keep the invariant\<close>

lemma answered_fill:
  assumes "answered pool (Filling h t th k, s, e, reqs, reps)" and "k < 5"
    and "(respond_statements P pool (ring_descriptor t (pg_rx_ring s)) th ! k) (s, e) = Some (s', e')"
  shows "answered pool (Filling h t th (Suc k), s', e', reqs, reps)"
proof -
  obtain asked where a: "rings_ok pool asked reps s" "reqs = asked @ ring_list (pg_rx_ring s)"
      "scanning h t (pg_rx_ring s)" "h \<noteq> t" "th = ring_head (pg_tx_ring s)" "length reqs \<le> length reps + 128"
      "partly_filled pool th (ring_descriptor t (pg_rx_ring s)) k (ring_descriptor th (pg_tx_ring s))"
    using assms(1) by (auto simp: answered_def pc_ok_def)
  obtain f where f: "s' = ping_descriptor th f s"
    "\<And>r. partly_filled pool th (ring_descriptor t (pg_rx_ring s)) k r \<Longrightarrow>
      partly_filled pool th (ring_descriptor t (pg_rx_ring s)) (Suc k) (f r)"
    using fill_effect [OF assms(3,2)] by blast
  note keeps = fill_keeps [OF a(1) room_for_answer [OF a(1,2,6,3,4)] a(5), of f]
  show ?thesis
    using a keeps f assms(2) unfolding answered_def pc_ok_def by (auto intro!: exI [of _ asked])
qed

lemma answered_publish:
  assumes "answered pool (Filling h t th 5, s, e, reqs, reps)"
  shows "answered pool (Ringing h t, ping_publish th s, e, reqs, reps)"
proof -
  let ?d = "ring_descriptor t (pg_rx_ring s)"
  obtain asked where a: "rings_ok pool asked reps s" "reqs = asked @ ring_list (pg_rx_ring s)"
      "scanning h t (pg_rx_ring s)" "h \<noteq> t" "th = ring_head (pg_tx_ring s)" "length reqs \<le> length reps + 128"
      "partly_filled pool th ?d 5 (ring_descriptor th (pg_tx_ring s))"
    using assms by (auto simp: answered_def pc_ok_def)
  have "rings_ok pool (asked @ [?d]) reps (ping_publish th s)"
    by (rule publish_keeps [OF a(1) room_for_answer [OF a(1,2,6,3,4)] a(5,7)])
  then show ?thesis
    using a unfolding answered_def pc_ok_def
    by (auto simp: ping_publish_def intro!: exI [of _ "asked @ [?d]"])
qed

lemma answered_release:
  assumes "answered pool (Releasing h t, s, e, reqs, reps)"
  shows "answered pool (Inner h (t + 1), ping_release t s, e, reqs, reps)"
proof -
  let ?rx = "pg_rx_ring s"
  obtain asked where a: "rings_ok pool asked reps s" "reqs = butlast asked @ ring_list ?rx" "asked \<noteq> []"
      "last asked = ring_descriptor t ?rx" "scanning h t ?rx" "h \<noteq> t" "length reqs \<le> length reps + 128"
    using assms by (auto simp: answered_def pc_ok_def)
  note scan = scanning_head [OF a(5,6)] scanning_release [OF a(5,6)]
  have "reqs = (butlast asked @ [last asked]) @ ring_list (?rx\<lparr>ring_tail := t + 1\<rparr>)"
    using a(2,4) scan(2) by simp
  then have "reqs = asked @ ring_list (?rx\<lparr>ring_tail := t + 1\<rparr>)"
    unfolding append_butlast_last_id [OF a(3)] .
  moreover have "ring_inv (?rx\<lparr>ring_tail := t + 1\<rparr>)"
    using ring_inv_release [of ?rx] scan(1) a(1,5) by (simp add: rings_ok_def scanning_def)
  ultimately show ?thesis
    using a(1,7) scan(3) unfolding answered_def pc_ok_def
    by (auto simp: ping_release_def rings_ok_def intro!: exI [of _ asked])
qed

lemma answered_request:
  assumes "answered pool (pc, s, e, reqs, reps)" and "length reqs < length reps + 128"
    and "ring_push d (pg_rx_ring s) = (True, r)"
  shows "answered pool (pc, s\<lparr>pg_rx_ring := r\<rparr>, e, reqs @ [d], reps)"
proof -
  obtain asked where a: "rings_ok pool asked reps s" "pc_ok pool reqs asked pc s"
    using assms(1) by (auto simp: answered_def)
  have inv: "ring_inv (pg_rx_ring s)" using a(1) by (simp add: rings_ok_def)
  note push = push_contents [OF assms(3) inv]
  have "pc_ok pool (reqs @ [d]) asked pc (s\<lparr>pg_rx_ring := r\<rparr>)"
    using a(2) push(1) scanning_push [OF _ assms(3) inv]
    by (cases pc) (auto simp: pc_ok_def)
  moreover have "rings_ok pool asked reps (s\<lparr>pg_rx_ring := r\<rparr>)" using a(1) push(2) by (simp add: rings_ok_def)
  ultimately show ?thesis using assms(2) by (auto simp: answered_def)
qed

lemma answered_reply:
  assumes "answered pool (pc, s, e, reqs, reps)" and "ring_pop IpcDescriptor_zero (pg_tx_ring s) = (True, d, r)"
  shows "answered pool (pc, s\<lparr>pg_tx_ring := r\<rparr>, e, reqs, reps @ [d])"
proof -
  let ?tx = "pg_tx_ring s"
  obtain asked where a: "rings_ok pool asked reps s" "pc_ok pool reqs asked pc s" "length reqs \<le> length reps + 128"
    using assms(1) by (auto simp: answered_def)
  have inv: "ring_inv ?tx" using a(1) by (simp add: rings_ok_def)
  have pop: "ring_list ?tx = d # ring_list r" "ring_inv r"
    using ipc_ring.deq_contents [OF inv, of IpcDescriptor_zero] ipc_ring.deq_inv [OF inv, of IpcDescriptor_zero]
      ipc_ring.deq_ok [OF inv, of IpcDescriptor_zero] ipc_ring.deq_value [OF inv, of IpcDescriptor_zero] assms(2)
    by (auto split: list.splits)
  have r: "ring_head r = ring_head ?tx" "descriptors r = descriptors ?tx"
    using assms(2) by (auto simp: ring_pop_def split: if_splits)
  have "pc_ok pool reqs asked pc (s\<lparr>pg_tx_ring := r\<rparr>)"
    using a(2) r by (cases pc) (auto simp: pc_ok_def ring_descriptor_def)
  moreover have "rings_ok pool asked (reps @ [d]) (s\<lparr>pg_tx_ring := r\<rparr>)"
    using a(1) pop r(1) by (simp add: rings_ok_def)
  ultimately show ?thesis using a(3) by (auto simp: answered_def)
qed

lemma answered_step:
  assumes "ping_step P pool self x y" and "answered pool x"
  shows "answered pool y"
  using assms
proof cases
  case (loads s e reqs reps)
  then show ?thesis using assms(2) by (auto simp: answered_def pc_ok_def scanning_def intro!: exI [of _ "unat (ring_head (pg_rx_ring s) - ring_tail (pg_rx_ring s))"])
next
  case (drained s e s' e' h reqs reps)
  then show ?thesis
    using assms(2) ping_heartbeat_rings [of P s e] by (auto simp: answered_def pc_ok_def rings_ok_def)
next
  case (room t h s d e reqs reps)
  then show ?thesis using assms(2) by (auto simp: answered_def pc_ok_def)
next
  case (no_room t h s e reqs reps)
  then obtain asked where "rings_ok pool asked reps s" "reqs = asked @ ring_list (pg_rx_ring s)"
      "length reqs \<le> length reps + 128" "scanning h t (pg_rx_ring s)"
    using assms(2) by (auto simp: answered_def pc_ok_def)
  from room_for_answer [OF this] no_room show ?thesis by auto
next
  case (ring s e s' e' h t reqs reps)
  then show ?thesis using assms(2) by (auto simp: answered_def pc_ok_def rings_ok_def ping_ring_def)
next
  case (fill k t s th e s' e' h reqs reps)
  then show ?thesis using assms(2) answered_fill by blast
next
  case (publish h t th s e reqs reps)
  then show ?thesis using assms(2) answered_publish by blast
next
  case (release h t s e reqs reps)
  then show ?thesis using assms(2) answered_release by blast
next
  case (request reqs reps d s r pc e)
  then show ?thesis using assms(2) answered_request by blast
next
  case (reply s d r pc e reqs reps)
  then show ?thesis using assms(2) answered_reply by blast
next
  case (other_activity pc s e reqs reps tm tr h x m)
  then show ?thesis using assms(2) by (cases pc) (auto simp: answered_def pc_ok_def rings_ok_def)
qed (use assms(2) in \<open>auto simp: answered_def pc_ok_def partly_filled_def\<close>)

lemma answered_reachable: "(ping_step P pool self)\<^sup>*\<^sup>* x y \<Longrightarrow> answered pool x \<Longrightarrow> answered pool y"
  by (induction rule: rtranclp_induct) (auto dest: answered_step)

lemma answered_initially: "answered pool (Outer, ipc_ping_static, e, [], [])"
proof -
  have z: "ring_head SpscRingControl_zero = 0" by (simp add: SpscRingControl_zero_def)
  show ?thesis
    by (auto simp: answered_def pc_ok_def rings_ok_def answers_match_def ipc_ping_static_def z
        simp del: length_ring_list intro!: exI [of _ "[]"])
qed

subsection \<open>The code is one of the interleavings\<close>

lemma copy_is_run:
  "(ping_step P pool self)\<^sup>*\<^sup>* (Copying h t th src i (i + n), s, e, reqs, reps)
    (Filling h t th 0, s, copy_loop (payload_addr pool (ring_slot th)) src (of_nat i) n e, reqs, reps)"
proof (induction n arbitrary: i e)
  case 0
  then show ?case using ping_step.copied [of P pool self h t th src i] by auto
next
  case (Suc n)
  have "ping_step P pool self (Copying h t th src i (i + Suc n), s, e, reqs, reps)
      (Copying h t th src (Suc i) (Suc i + n), s,
       store_u8 (payload_addr pool (ring_slot th) + of_nat i) (ram e (src + of_nat i)) e, reqs, reps)"
    using ping_step.copy [of i "i + Suc n" P pool self] by simp
  from converse_rtranclp_into_rtranclp [OF this Suc] show ?case by (simp add: add.commute)
qed

lemma copy_payload_count: "copy_payload dst d e = copy_loop dst (dram_payload_addr d) 0 (copy_count d) e"
  by (simp add: copy_payload_def copy_count_def)

lemma fill_is_run:
  assumes "run_statements (drop k (respond_statements P pool (ring_descriptor t (pg_rx_ring s)) th)) (s, e) = Some (s', e')"
    and "k \<le> 5"
  shows "(ping_step P pool self)\<^sup>*\<^sup>* (Filling h t th k, s, e, reqs, reps) (Filling h t th 5, s', e', reqs, reps)"
  using assms(2,1)
proof (induction arbitrary: s e rule: inc_induct)
  case base
  then show ?case by (simp add: respond_statements_def)
next
  case (step k)
  let ?d = "ring_descriptor t (pg_rx_ring s)"
  have "length (respond_statements P pool ?d th) = 5" by (simp add: respond_statements_def)
  then have "drop k (respond_statements P pool ?d th) =
      respond_statements P pool ?d th ! k # drop (Suc k) (respond_statements P pool ?d th)"
    using step.hyps by (simp add: Cons_nth_drop_Suc)
  then obtain s1 e1 where one: "(respond_statements P pool ?d th ! k) (s, e) = Some (s1, e1)"
    and rest: "run_statements (drop (Suc k) (respond_statements P pool ?d th)) (s1, e1) = Some (s', e')"
    using step.prems by (auto simp: bind_eq_Some_conv)
  have "k < 5" using step.hyps by simp
  then obtain f where "s1 = ping_descriptor th f s" using fill_effect [OF one] by blast
  then have "pg_rx_ring s1 = pg_rx_ring s" by (simp add: ping_descriptor_def)
  with step.IH [of s1 e1] rest
  have "(ping_step P pool self)\<^sup>*\<^sup>* (Filling h t th (Suc k), s1, e1, reqs, reps) (Filling h t th 5, s', e', reqs, reps)"
    by simp
  with ping_step.fill [OF \<open>k < 5\<close> one] show ?case by (rule converse_rtranclp_into_rtranclp)
qed

lemma ping_round_is_run:
  assumes "ping_body P pool t (s, e) = Some (s', e')" and "t \<noteq> h"
  shows "(ping_step P pool self)\<^sup>*\<^sup>* (Inner h t, s, e, reqs, reps) (Inner h (t + 1), s', e', reqs, reps)"
proof -
  let ?d = "ring_descriptor t (pg_rx_ring s)" and ?th = "ring_head (pg_tx_ring s)"
  obtain s1 where r: "ping_respond P pool ?d (s, e) = Some (s1, e')" and s': "s' = ping_release t s1"
    using assms(1) by (auto simp: ping_body_def bind_eq_Some_conv)
  have "(ping_step P pool self)\<^sup>*\<^sup>* (Inner h t, s, e, reqs, reps) (Releasing h t, s1, e', reqs, reps)"
  proof (cases "ring_has_room (pg_tx_ring s)")
    case True
    obtain s2 e2 where f: "run_statements (drop 0 (respond_statements P pool ?d ?th))
        (s, copy_payload (payload_addr pool (ring_slot ?th)) ?d e) = Some (s2, e2)"
      and ring: "ping_ring P (ping_publish ?th s2, e2) = (s1, e')"
      using r True by (auto simp: ping_respond_def ring_has_room_def Let_def bind_eq_Some_conv)
    have "(ping_step P pool self)\<^sup>*\<^sup>* (Inner h t, s, e, reqs, reps)
        (Copying h t ?th (dram_payload_addr ?d) 0 (0 + copy_count ?d), s, e, reqs, reps)"
      using ping_step.room [OF assms(2) True refl, of P pool self e reqs reps] by simp
    also have "(ping_step P pool self)\<^sup>*\<^sup>* \<dots> (Filling h t ?th 0, s,
        copy_payload (payload_addr pool (ring_slot ?th)) ?d e, reqs, reps)"
      using copy_is_run [of P pool self h t ?th "dram_payload_addr ?d" 0 "copy_count ?d"]
      by (simp add: copy_payload_count)
    also have "(ping_step P pool self)\<^sup>*\<^sup>* \<dots> (Filling h t ?th 5, s2, e2, reqs, reps)"
      using fill_is_run [OF f] by simp
    also have "ping_step P pool self \<dots> (Ringing h t, ping_publish ?th s2, e2, reqs, reps)"
      by (rule ping_step.publish)
    also have "ping_step P pool self \<dots> (Releasing h t, s1, e', reqs, reps)" by (rule ping_step.ring [OF ring])
    finally show ?thesis .
  next
    case False
    then have "s1 = s" "e' = e" using r by (simp_all add: ping_respond_def ring_has_room_def Let_def)
    then show ?thesis using ping_step.no_room [OF assms(2) False, of P pool self e reqs reps] by (simp add: r_into_rtranclp)
  qed
  also have "ping_step P pool self (Releasing h t, s1, e', reqs, reps) (Inner h (t + 1), s', e', reqs, reps)"
    unfolding s' by (rule ping_step.release)
  finally show ?thesis .
qed

lemma ping_loop_is_run:
  assumes "ping_loop P pool h t (s, e) = Some (s', e')"
  shows "(ping_step P pool self)\<^sup>*\<^sup>* (Inner h t, s, e, reqs, reps) (Inner h h, s', e', reqs, reps)"
  using assms
proof (induction "unat (h - t)" arbitrary: t s e rule: less_induct)
  case less
  show ?case
  proof (cases "t = h")
    case True
    then show ?thesis using less.prems by (simp add: ping_loop.simps)
  next
    case False
    then obtain s1 e1 where b: "ping_body P pool t (s, e) = Some (s1, e1)"
      and l: "ping_loop P pool h (t + 1) (s1, e1) = Some (s', e')"
      using less.prems by (subst (asm) ping_loop.simps) (auto simp: bind_eq_Some_conv)
    have "unat (h - t - 1) < unat (h - t)" using False by (intro unat_pred_less) simp
    then have "unat (h - (t + 1)) < unat (h - t)" by (simp add: algebra_simps)
    from less.hyps [OF this l] ping_round_is_run [OF b False] show ?thesis by (meson rtranclp_trans)
  qed
qed

lemma ping_coro_is_run:
  assumes "ipc_ping_responder_coro P pool self (s, e) = Some (s', e')"
  shows "(ping_step P pool self)\<^sup>*\<^sup>* (Outer, s, e, reqs, reps) (Outer, s', e', reqs, reps)"
proof -
  let ?h = "ring_head (pg_rx_ring s)"
  obtain s1 e1 where l: "ping_loop P pool ?h (ring_tail (pg_rx_ring s)) (s, e) = Some (s1, e1)"
    and c: "(let (s2, e2) = ping_heartbeat P (s1, e1) in Some (s2, sleep_ms P 1 self e2)) = Some (s', e')"
    using assms by (auto simp: ipc_ping_responder_coro_def bind_eq_Some_conv)
  obtain s2 e2 where "ping_heartbeat P (s1, e1) = (s2, e2)" by fastforce
  with c have b: "ping_heartbeat P (s1, e1) = (s', e2)" and e': "e' = sleep_ms P 1 self e2" by simp_all
  have "ping_step P pool self (Outer, s, e, reqs, reps) (Inner ?h (ring_tail (pg_rx_ring s)), s, e, reqs, reps)"
    by (rule ping_step.loads)
  also have "(ping_step P pool self)\<^sup>*\<^sup>* \<dots> (Inner ?h ?h, s1, e1, reqs, reps)" by (rule ping_loop_is_run [OF l])
  also have "ping_step P pool self \<dots> (Outer, s', e', reqs, reps)" unfolding e' by (rule ping_step.drained [OF b])
  finally show ?thesis .
qed

subsection \<open>Properties\<close>

text \<open>C12. Every ping is answered once and in order: as long as Linux keeps at most 128 requests
  unanswered, in every interleaving of the single loads and stores of the responder with requests Linux sends and answers Linux
  takes, the answers taken are complete echoes of the first requests, one for one, answer number \<open>k\<close> in payload
  buffer \<open>k mod 128\<close>.  The answers published and not yet taken are echoes of the next requests; the requests
  not yet released are those in the receive ring.  No request is dropped: a request is released only after its
  answer is published, and between rounds every released request has its answer.\<close>

theorem ping_answers_every_request:
  assumes "(ping_step P pool self)\<^sup>*\<^sup>* (Outer, ipc_ping_static, e0, [], []) (pc, s, e, reqs, reps)"
  shows "\<exists>released published.
    list_all2 is_echo (take published reqs) (reps @ ring_list (pg_tx_ring s)) \<and>
    (\<forall>k < length reps. dram_payload_addr (reps ! k) = payload_addr pool (k mod 128)) \<and>
    ring_list (pg_rx_ring s) = drop released reqs \<and> released \<le> published \<and> published \<le> released + 1 \<and>
    (pc = Outer \<longrightarrow> published = released)"
proof -
  obtain asked where a: "rings_ok pool asked reps s" "pc_ok pool reqs asked pc s"
    using answered_reachable [OF assms answered_initially] by (auto simp: answered_def)
  have m: "length asked = length (reps @ ring_list (pg_tx_ring s))"
    "\<And>k. k < length asked \<Longrightarrow> is_answer pool k (asked ! k) ((reps @ ring_list (pg_tx_ring s)) ! k)"
    using a(1) by (auto simp: rings_ok_def answers_match_def simp del: length_ring_list)
  have echoes: "list_all2 is_echo asked (reps @ ring_list (pg_tx_ring s))"
    using m by (auto simp: list_all2_conv_all_nth is_answer_def simp del: length_ring_list)
  have addrs: "\<forall>k < length reps. dram_payload_addr (reps ! k) = payload_addr pool (k mod 128)"
  proof (intro allI impI)
    fix k assume "k < length reps"
    then show "dram_payload_addr (reps ! k) = payload_addr pool (k mod 128)"
      using m(1) m(2) [of k] by (simp add: is_answer_def nth_append del: length_ring_list)
  qed
  have "reqs = asked @ ring_list (pg_rx_ring s) \<or>
      pc \<noteq> Outer \<and> asked \<noteq> [] \<and> reqs = butlast asked @ ring_list (pg_rx_ring s) \<and>
      reqs = asked @ tl (ring_list (pg_rx_ring s))"
  proof (cases "\<exists>h t. pc = Ringing h t \<or> pc = Releasing h t")
    case True
    then obtain h t where p: "asked \<noteq> []" "reqs = butlast asked @ ring_list (pg_rx_ring s)" "pc \<noteq> Outer"
        "last asked = ring_descriptor t (pg_rx_ring s)" "scanning h t (pg_rx_ring s)" "h \<noteq> t"
      using a(2) by (auto simp: pc_ok_def)
    have "reqs = (butlast asked @ [last asked]) @ tl (ring_list (pg_rx_ring s))"
      using p(2,4) scanning_head(2) [OF p(5,6)] by simp
    then show ?thesis using p(1-3) unfolding append_butlast_last_id [OF p(1)] by simp
  next
    case False
    then show ?thesis using a(2) by (cases pc) (auto simp: pc_ok_def)
  qed
  then show ?thesis
  proof
    assume "reqs = asked @ ring_list (pg_rx_ring s)"
    then show ?thesis using echoes addrs by (intro exI [of _ "length asked"]) simp
  next
    assume late: "pc \<noteq> Outer \<and> asked \<noteq> [] \<and> reqs = butlast asked @ ring_list (pg_rx_ring s) \<and>
      reqs = asked @ tl (ring_list (pg_rx_ring s))"
    then have "take (length asked) reqs = asked" "drop (length asked - 1) reqs = ring_list (pg_rx_ring s)"
      by (metis append_eq_conv_conj, metis append_eq_conv_conj length_butlast)
    then show ?thesis
      using late echoes addrs by (intro exI [of _ "length asked - 1"] exI [of _ "length asked"]) (cases asked; simp)
  qed
qed

text \<open>Linux sends a request of 300 bytes, the responder runs a round, Linux takes the answer.\<close>

theorem ping_answers_every_request_witness:
  "\<exists>s e r. (ping_step sim_platform 0x48100000 7)\<^sup>*\<^sup>* (Outer, ipc_ping_static, sim_env, [], [])
     (Outer, s, e, [IpcDescriptor_zero\<lparr>desc_length := 300\<rparr>], [r]) \<and>
     desc_length r = 300 \<and> desc_flags r = 0x8000 \<and> dram_payload_addr r = 0x48100000"
proof -
  let ?step = "ping_step sim_platform 0x48100000 7" and ?d = "IpcDescriptor_zero\<lparr>desc_length := 300\<rparr>"
  let ?rx = "snd (ring_push ?d SpscRingControl_zero)" and ?start = "(Outer, ipc_ping_static, sim_env, [], [])"
  let ?s = "ipc_ping_static\<lparr>pg_rx_ring := ?rx\<rparr>"
  have push: "ring_push ?d (pg_rx_ring ipc_ping_static) = (True, ?rx)"
    by (simp add: ipc_ping_static_def ring_push_def ring_has_room_def SpscRingControl_zero_def RING_SIZE_def)
  have tx: "pg_tx_ring ?s = SpscRingControl_zero" by (simp add: ipc_ping_static_def)
  have z: "ring_list SpscRingControl_zero = []" "ring_list ?rx = [?d]"
    using ipc_ring.enq_contents [of SpscRingControl_zero ?d] by simp_all
  have len: "length (descriptors (pg_tx_ring ?s)) = 128" unfolding tx by (simp add: SpscRingControl_zero_def RING_SIZE_def)
  obtain s1 e1 rs where l: "ping_loop sim_platform 0x48100000 (ring_head (pg_rx_ring ?s)) (ring_tail (pg_rx_ring ?s))
      (?s, sim_env) = Some (s1, e1)"
    and rs: "ring_list (pg_tx_ring s1) = ring_list (pg_tx_ring ?s) @ rs"
      "list_all2 is_echo (take (128 - length (ring_list (pg_tx_ring ?s))) (ring_list (pg_rx_ring ?s))) rs"
    using ping_loop_answers [OF len, of sim_platform "0x48100000" sim_env] by (fastforce simp: sim_get_time_us)
  then obtain r where r: "ring_list (pg_tx_ring s1) = [r]"
    using z unfolding tx by (auto simp: list_all2_Cons1 simp del: length_ring_list)
  obtain s2 e2 where h: "ping_heartbeat sim_platform (s1, e1) = (s2, e2)" by fastforce
  then have "ring_list (pg_tx_ring s2) = [r]" using ping_heartbeat_rings(1) [of sim_platform s1 e1] r by simp
  then obtain q where pop: "ring_pop IpcDescriptor_zero (pg_tx_ring s2) = (True, r, q)"
    using ring_list_Nil_iff [of "pg_tx_ring s2"] ring_list_release [of "pg_tx_ring s2"]
    by (auto simp: ring_pop_def)
  have "ipc_ping_responder_coro sim_platform 0x48100000 7 (?s, sim_env) = Some (s2, sleep_ms sim_platform 1 7 e2)"
    using l h by (simp add: ipc_ping_responder_coro_def)
  note round = ping_coro_is_run [OF this, of "[?d]" "[]"]
  have "?step ?start (Outer, ?s, sim_env, [?d], [])"
    using ping_step.request [OF _ push, of "[]" "[]" sim_platform "0x48100000" 7 Outer sim_env] by simp
  from this round have "?step\<^sup>*\<^sup>* ?start (Outer, s2, sleep_ms sim_platform 1 7 e2, [?d], [])"
    by (rule converse_rtranclp_into_rtranclp)
  from rtranclp.rtrancl_into_rtrancl [OF this ping_step.reply [OF pop]]
  have run: "?step\<^sup>*\<^sup>* ?start (Outer, s2\<lparr>pg_tx_ring := q\<rparr>, sleep_ms sim_platform 1 7 e2, [?d], [r])" by simp
  from ping_answers_every_request [OF run] have "is_echo ?d r" "dram_payload_addr r = payload_addr 0x48100000 0"
    by (auto simp: take_Suc_conv_app_nth list_all2_Cons2 take_Cons' split: if_splits)
  then show ?thesis using run by (auto simp: is_echo_def payload_addr_def IpcDescriptor_zero_def)
qed

end
