(* ===== verification/Resource_Table.thy ===== *)
theory Resource_Table
  imports Trace_Log
begin

text \<open>
  \<^verbatim>\<open>hal/src/resource_table.c\<close>: the table remoteproc reads from the firmware image to find the trace
  buffer.  The structures are packed, so the image is the concatenation of their members in
  little-endian order; \<open>table_of_image\<close> reads it the way the layout of remoteproc is documented: a
  version, the number of entries, two reserved words, the offset of each entry, and at that offset
  the entry with its type first.
\<close>

subsection \<open>The table\<close>

definition RSC_CARVEOUT :: u32 where
  "RSC_CARVEOUT = 0"

definition RSC_DEVTREE :: u32 where
  "RSC_DEVTREE = 1"

definition RSC_TRACE :: u32 where
  "RSC_TRACE = 2"

definition RSC_VDEV :: u32 where
  "RSC_VDEV = 3"

record resource_table =
  rt_ver :: u32
  rt_num :: u32
  rt_reserved :: "u32 \<times> u32"
  rt_offset :: u32

record fw_rsc_trace =
  rsc_type :: u32
  rsc_da :: u32
  rsc_len :: u32
  rsc_reserved :: u32
  rsc_name :: "u8 list"

record my_resource_table =
  mrt_base :: resource_table
  mrt_trace :: fw_rsc_trace

definition sizeof_resource_table :: u32 where
  "sizeof_resource_table = 20"

text \<open>A string literal that initialises an array is padded with zeros.\<close>

definition char_array :: "nat \<Rightarrow> string \<Rightarrow> u8 list" where
  "char_array n s = map of_char s @ replicate (n - length s) 0"

definition rproc_resource_table :: my_resource_table where
  "rproc_resource_table =
     \<lparr>mrt_base = \<lparr>rt_ver = 1, rt_num = 1, rt_reserved = (0, 0), rt_offset = sizeof_resource_table\<rparr>,
      mrt_trace = \<lparr>rsc_type = RSC_TRACE, rsc_da = IPC_TRACE_BUFFER_ADDR, rsc_len = IPC_TRACE_BUFFER_SIZE,
        rsc_reserved = 0, rsc_name = char_array 32 ''trace:e906''\<rparr>\<rparr>"

subsection \<open>The image and its reader\<close>

definition image_of_base :: "resource_table \<Rightarrow> u8 list" where
  "image_of_base b =
     concat (map bytes_of_u32 [rt_ver b, rt_num b, fst (rt_reserved b), snd (rt_reserved b), rt_offset b])"

definition image_of_trace :: "fw_rsc_trace \<Rightarrow> u8 list" where
  "image_of_trace t =
     concat (map bytes_of_u32 [rsc_type t, rsc_da t, rsc_len t, rsc_reserved t]) @ rsc_name t"

definition image_of_table :: "my_resource_table \<Rightarrow> u8 list" where
  "image_of_table t = image_of_base (mrt_base t) @ image_of_trace (mrt_trace t)"

definition u32_at :: "u8 list \<Rightarrow> nat \<Rightarrow> u32" where
  "u32_at img i = u32_of_bytes (img ! i) (img ! (i + 1)) (img ! (i + 2)) (img ! (i + 3))"

definition trace_entry_at :: "u8 list \<Rightarrow> nat \<Rightarrow> fw_rsc_trace option" where
  "trace_entry_at img i =
     (if i + 48 \<le> length img \<and> u32_at img i = RSC_TRACE
      then Some \<lparr>rsc_type = u32_at img i, rsc_da = u32_at img (i + 4), rsc_len = u32_at img (i + 8),
        rsc_reserved = u32_at img (i + 12), rsc_name = take 32 (drop (i + 16) img)\<rparr>
      else None)"

text \<open>All entries the offsets of the table lead to.\<close>

definition table_of_image :: "u8 list \<Rightarrow> fw_rsc_trace option list option" where
  "table_of_image img =
     (if length img < 16 + 4 * unat (u32_at img 4) \<or> u32_at img 0 \<noteq> 1 \<or> u32_at img 8 \<noteq> 0 \<or> u32_at img 12 \<noteq> 0
      then None
      else Some (map (\<lambda>k. trace_entry_at img (unat (u32_at img (16 + 4 * k)))) [0 ..< unat (u32_at img 4)]))"

definition c_string :: "u8 list \<Rightarrow> string" where
  "c_string bs = map (\<lambda>b. char_of (unat b)) (takeWhile (\<lambda>b. b \<noteq> 0) bs)"

subsection \<open>Lemmas\<close>

lemma u32_at_bytes:
  "length xs = i \<Longrightarrow> u32_at (xs @ bytes_of_u32 v @ ys) i = v"
  by (simp add: u32_at_def bytes_of_u32_def nth_append u32_of_bytes_of_u32)

lemma length_bytes_of_u32 [simp]: "length (bytes_of_u32 v) = 4"
  by (simp add: bytes_of_u32_def)

lemma image_of_base_words:
  "u32_at (image_of_base b @ xs) 0 = rt_ver b"
  "u32_at (image_of_base b @ xs) 4 = rt_num b"
  "u32_at (image_of_base b @ xs) 8 = fst (rt_reserved b)"
  "u32_at (image_of_base b @ xs) 12 = snd (rt_reserved b)"
  "u32_at (image_of_base b @ xs) 16 = rt_offset b"
  by (simp_all add: image_of_base_def u32_at_def bytes_of_u32_def u32_of_bytes_of_u32)

lemma length_image_of_base [simp]: "length (image_of_base b) = 20"
  by (simp add: image_of_base_def)

text \<open>Reading back an entry that follows the table.\<close>

lemma trace_entry_at_image:
  assumes "length pre = i" and "rsc_type t = RSC_TRACE" and "length (rsc_name t) = 32"
  shows "trace_entry_at (pre @ image_of_trace t @ rest) i = Some t"
proof -
  have "u32_at (pre @ image_of_trace t @ rest) (i + k) = u32_at (image_of_trace t @ rest) k" for k
    using assms(1) by (simp add: u32_at_def nth_append add.assoc)
  from this [of 0] this [of 4] this [of 8] this [of 12]
  have "u32_at (pre @ image_of_trace t @ rest) i = rsc_type t"
    "u32_at (pre @ image_of_trace t @ rest) (i + 4) = rsc_da t"
    "u32_at (pre @ image_of_trace t @ rest) (i + 8) = rsc_len t"
    "u32_at (pre @ image_of_trace t @ rest) (i + 12) = rsc_reserved t"
    by (simp_all add: image_of_trace_def u32_at_def bytes_of_u32_def u32_of_bytes_of_u32)
  moreover have "take 32 (drop (i + 16) (pre @ image_of_trace t @ rest)) = rsc_name t"
    using assms(1,3) by (simp add: image_of_trace_def bytes_of_u32_def)
  moreover have "length (image_of_trace t) = 48" using assms(3) by (simp add: image_of_trace_def)
  ultimately show ?thesis using assms by (simp add: trace_entry_at_def)
qed

lemma rproc_trace_wf:
  "rsc_type (mrt_trace rproc_resource_table) = RSC_TRACE"
  "length (rsc_name (mrt_trace rproc_resource_table)) = 32"
  by (simp_all add: rproc_resource_table_def char_array_def)

subsection \<open>Properties\<close>

text \<open>The resource table leads remoteproc to the trace log: reading the image of the table gives
  exactly one entry, a trace named \<^verbatim>\<open>trace:e906\<close>, which ends with the image; its address range is
  exactly the range the log of the firmware writes to.\<close>

theorem resource_table_announces_trace_log:
  "\<exists>t. table_of_image (image_of_table rproc_resource_table) = Some [Some t] \<and>
     t = mrt_trace rproc_resource_table \<and> c_string (rsc_name t) = ''trace:e906'' \<and>
     (\<forall>a. a - rsc_da t < rsc_len t \<longleftrightarrow> in_buffer a) \<and>
     unat (rt_offset (mrt_base rproc_resource_table)) + 48 = length (image_of_table rproc_resource_table)"
proof -
  let ?b = "mrt_base rproc_resource_table" and ?t = "mrt_trace rproc_resource_table"
  have "trace_entry_at (image_of_table rproc_resource_table) 20 = Some ?t"
    using trace_entry_at_image [OF length_image_of_base rproc_trace_wf, where rest = "[]"] by (simp add: image_of_table_def)
  moreover have base: "rt_ver ?b = 1" "rt_num ?b = 1" "rt_reserved ?b = (0, 0)" "rt_offset ?b = 20"
    by (simp_all add: rproc_resource_table_def sizeof_resource_table_def)
  moreover have len: "length (image_of_table rproc_resource_table) = 68"
    using rproc_trace_wf by (simp add: image_of_table_def image_of_trace_def)
  ultimately have "table_of_image (image_of_table rproc_resource_table) = Some [Some ?t]"
    by (simp add: table_of_image_def image_of_table_def image_of_base_words)
  moreover have "c_string (rsc_name ?t) = ''trace:e906''"
    by (simp add: rproc_resource_table_def char_array_def c_string_def) code_simp
  moreover have "a - rsc_da ?t < rsc_len ?t \<longleftrightarrow> in_buffer a" for a
    by (simp add: rproc_resource_table_def in_buffer_def trace_buffer_def TRACE_BUFFER_ADDR_def TRACE_BUFFER_SIZE_def)
  ultimately show ?thesis using base len by simp
qed

end
