(* ===== verification/Timer_Test.thy ===== *)
theory Timer_Test
  imports Hw_Timer Trace_Log
begin

text \<open>
  \<^verbatim>\<open>apps/timer_test/src/main.c\<close>: a bare C program that polls the CLINT counter and writes a heartbeat
  message into a buffer of 128 bytes at the address \<open>buf\<close>, which the linker script puts at the trace
  buffer.  The program runs without interrupts.  The endless polling loop is \<open>timer_test_polls\<close>,
  which runs any number of rounds and lists the counter values they read.
\<close>

subsection \<open>State and operations\<close>

definition TIMER_TEST_TICKS_PER_SECOND :: u64 where
  "TIMER_TEST_TICKS_PER_SECOND = 24000000"

definition sizeof_g_trace_buffer :: u32 where
  "sizeof_g_trace_buffer = 128"

record timer_test =
  last_heartbeat :: u64
  heartbeat :: u32

partial_function (option) timer_test_read_mtime ::
    "('h, 'x) platform \<Rightarrow> ('h, 'x) env \<Rightarrow> (u64 \<times> ('h, 'x) env) option" where
  "timer_test_read_mtime P e =
     (let (high_before, e1) = mmio_read P (RISCV_MTIME_ADDR + 4) e;
          (low, e2) = mmio_read P RISCV_MTIME_ADDR e1;
          (high_after, e3) = mmio_read P (RISCV_MTIME_ADDR + 4) e2
      in if high_before \<noteq> high_after then timer_test_read_mtime P e3
         else Some (push_bit 32 (ucast high_before) OR ucast low, e3))"

text \<open>The loop of \<^verbatim>\<open>write_trace\<close> from \<open>index\<close> on; the end of the list is the terminating zero of the
  message.\<close>

fun write_trace_loop ::
    "('h, 'x) platform \<Rightarrow> u32 \<Rightarrow> string \<Rightarrow> u32 \<Rightarrow> ('h, 'x) env \<Rightarrow> u32 \<times> ('h, 'x) env" where
  "write_trace_loop P buf [] index e = (index, e)"
| "write_trace_loop P buf (c # message) index e =
     (if c \<noteq> CHR 0x00 \<and> index + 1 < sizeof_g_trace_buffer
      then write_trace_loop P buf message (index + 1) (mmio_write8 P (buf + index) (of_char c) e)
      else (index, e))"

definition write_trace :: "('h, 'x) platform \<Rightarrow> u32 \<Rightarrow> string \<Rightarrow> ('h, 'x) env \<Rightarrow> ('h, 'x) env" where
  "write_trace P buf message e =
     (let (index, e1) = write_trace_loop P buf message 0 e in mmio_write8 P (buf + index) 0 e1)"

text \<open>The trap handler of this program; it does not return.\<close>

definition timer_test_trap_handler :: "('h, 'x) platform \<Rightarrow> u32 \<Rightarrow> ('h, 'x) env \<Rightarrow> ('h, 'x) env" where
  "timer_test_trap_handler P buf e =
     write_trace P buf (''timer_test: FAIL unexpected trap'' @ [CHR 0x0A]) e"

definition timer_test_main ::
    "('h, 'x) platform \<Rightarrow> u32 \<Rightarrow> ('h, 'x) env \<Rightarrow> (timer_test \<times> ('h, 'x) env) option" where
  "timer_test_main P buf e =
     do {
       (now, e1) \<leftarrow> timer_test_read_mtime P e;
       Some (\<lparr>last_heartbeat = now, heartbeat = 0\<rparr>,
             write_trace P buf (''timer_test: started; polling CLINT mtime'' @ [CHR 0x0A]) e1)
     }"

definition heartbeat_message :: "u32 \<Rightarrow> string" where
  "heartbeat_message n =
     (if n AND 1 = 0 then ''timer_test: alive A; CLINT mtime advancing'' @ [CHR 0x0A]
      else ''timer_test: alive B; CLINT mtime advancing'' @ [CHR 0x0A])"

definition timer_test_poll ::
    "('h, 'x) platform \<Rightarrow> u32 \<Rightarrow> timer_test \<times> ('h, 'x) env \<Rightarrow>
     (u64 \<times> timer_test \<times> ('h, 'x) env) option" where
  "timer_test_poll P buf te =
     (let (t, e) = te in
      do {
        (now, e1) \<leftarrow> timer_test_read_mtime P e;
        if now - last_heartbeat t < TIMER_TEST_TICKS_PER_SECOND then Some (now, t, e1)
        else Some (now, t\<lparr>last_heartbeat := last_heartbeat t + TIMER_TEST_TICKS_PER_SECOND,
                          heartbeat := heartbeat t + 1\<rparr>,
                   write_trace P buf (heartbeat_message (heartbeat t)) e1)
      })"

fun timer_test_polls ::
    "('h, 'x) platform \<Rightarrow> u32 \<Rightarrow> nat \<Rightarrow> timer_test \<times> ('h, 'x) env \<Rightarrow>
     (u64 list \<times> timer_test \<times> ('h, 'x) env) option" where
  "timer_test_polls P buf 0 te = Some ([], te)"
| "timer_test_polls P buf (Suc n) te =
     do {
       (now, te1) \<leftarrow> timer_test_poll P buf te;
       (nows, te2) \<leftarrow> timer_test_polls P buf n te1;
       Some (now # nows, te2)
     }"

subsection \<open>Lemmas\<close>

text \<open>The two ends of a partial function with one recursion: both loops read the same registers.\<close>

lemma read_mtime_if_timer_test:
  assumes "timer_test_read_mtime P e = Some r"
  shows "read_mtime P e = Some r"
proof -
  have "read_mtime (fst (P, e)) (snd (P, e)) = Some r"
  proof (rule timer_test_read_mtime.raw_induct
      [where Pa = "\<lambda>x r. read_mtime (fst x) (snd x) = Some r", OF _ assms])
    fix f and P :: "('h, 'x) platform" and e r
    assume IH: "\<And>P e r. f P e = Some r \<Longrightarrow> read_mtime (fst (P, e)) (snd (P, e)) = Some r"
      and body: "(let (high_before, e1) = mmio_read P (RISCV_MTIME_ADDR + 4) e; (low, e2) = mmio_read P RISCV_MTIME_ADDR e1;
        (high_after, e3) = mmio_read P (RISCV_MTIME_ADDR + 4) e2
        in if high_before \<noteq> high_after then f P e3
           else Some (push_bit 32 (ucast high_before) OR ucast low, e3)) = Some r"
    from body show "read_mtime (fst (P, e)) (snd (P, e)) = Some r"
      by (subst read_mtime.simps)
        (auto simp: case_prod_beta Let_def u64_of_halves_def dest!: IH split: if_splits)
  qed
  then show ?thesis by simp
qed

lemma timer_test_if_read_mtime:
  assumes "read_mtime P e = Some r"
  shows "timer_test_read_mtime P e = Some r"
proof -
  have "timer_test_read_mtime (fst (P, e)) (snd (P, e)) = Some r"
  proof (rule read_mtime.raw_induct
      [where Pa = "\<lambda>x r. timer_test_read_mtime (fst x) (snd x) = Some r", OF _ assms])
    fix f and P :: "('h, 'x) platform" and e r
    assume IH: "\<And>P e r. f P e = Some r \<Longrightarrow> timer_test_read_mtime (fst (P, e)) (snd (P, e)) = Some r"
      and body: "(let (high_before, e1) = mmio_read P (RISCV_MTIME_ADDR + 4) e; (low, e2) = mmio_read P RISCV_MTIME_ADDR e1;
        (high_after, e3) = mmio_read P (RISCV_MTIME_ADDR + 4) e2
        in if high_before \<noteq> high_after then f P e3
           else Some (u64_of_halves high_before low, e3)) = Some r"
    from body show "timer_test_read_mtime (fst (P, e)) (snd (P, e)) = Some r"
      by (subst timer_test_read_mtime.simps)
        (auto simp: case_prod_beta Let_def u64_of_halves_def dest!: IH split: if_splits)
  qed
  then show ?thesis by simp
qed

lemma timer_test_read_mtime_eq: "timer_test_read_mtime P e = read_mtime P e"
  by (metis option.exhaust read_mtime_if_timer_test timer_test_if_read_mtime)

text \<open>What \<^verbatim>\<open>write_trace\<close> leaves in memory.\<close>

context byte_memory
begin

lemma write_trace_loop_spec:
  assumes "unat index \<le> 127" and "CHR 0x00 \<notin> set message" and "n = min (length message) (127 - unat index)"
    and "write_trace_loop P buf message index e = (index', e')"
  shows "index' = index + of_nat n \<and>
    (\<forall>j < n. peek8 (buf + index + of_nat j) (hw e') = of_char (message ! j)) \<and>
    (\<forall>b. (\<forall>j < n. b \<noteq> buf + index + of_nat j) \<longrightarrow> peek8 b (hw e') = peek8 b (hw e))"
  using assms
proof (induction message arbitrary: index n e)
  case Nil
  then show ?case by simp
next
  case (Cons c message)
  show ?case
  proof (cases "unat index < 127")
    case True
    then have i: "unat (index + 1) = Suc (unat index)"
      using unat_Suc_no_wrap [of index 127] by (simp add: word_less_nat_alt)
    let ?e = "mmio_write8 P (buf + index) (of_char c) e" and ?n = "min (length message) (127 - unat (index + 1))"
    have "write_trace_loop P buf message (index + 1) ?e = (index', e')"
      using Cons.prems(2,4) True i by (auto simp: sizeof_g_trace_buffer_def word_less_nat_alt)
    from Cons.IH [OF _ _ refl this] Cons.prems(2) True i
    have IH: "index' = index + 1 + of_nat ?n"
      "\<And>j. j < ?n \<Longrightarrow> peek8 (buf + (index + 1) + of_nat j) (hw e') = of_char (message ! j)"
      "\<And>b. (\<And>j. j < ?n \<Longrightarrow> b \<noteq> buf + (index + 1) + of_nat j) \<Longrightarrow> peek8 b (hw e') = peek8 b (hw ?e)"
      by auto
    have n: "n = Suc ?n" using Cons.prems(3) True i by simp
    have shift: "buf + (index + 1) + of_nat j = buf + index + of_nat (Suc j)" for j by (simp add: algebra_simps)
    have fresh: "buf + index \<noteq> buf + (index + 1) + of_nat j" if "j < ?n" for j
    proof
      assume "buf + index = buf + (index + 1) + of_nat j"
      then have "(of_nat 0 :: u32) = of_nat (Suc j)" by (simp add: algebra_simps)
      moreover have "Suc j < 4294967296" using that by auto
      ultimately show False using of_nat_u32_inject [of 0 "Suc j"] by simp
    qed
    have "peek8 (buf + index + of_nat j) (hw e') = of_char ((c # message) ! j)" if "j < n" for j
    proof (cases j)
      case 0
      then show ?thesis using IH(3) [of "buf + index"] fresh by (simp add: peek8_mmio_write8)
    next
      case (Suc i)
      then show ?thesis using IH(2) [of i] that n unfolding shift by simp
    qed
    moreover have "peek8 b (hw e') = peek8 b (hw e)" if b: "\<forall>j < n. b \<noteq> buf + index + of_nat j" for b
      using IH(3) [of b] b [rule_format, of 0] b [rule_format, of "Suc _"] n
      by (simp add: shift peek8_mmio_write8)
    ultimately show ?thesis using IH(1) n by simp
  next
    case False
    then have "\<not> index + 1 < sizeof_g_trace_buffer" "n = 0"
      using Cons.prems(1,3) by (simp_all add: sizeof_g_trace_buffer_def word_less_nat_alt unat_word_ariths(1))
    then show ?thesis using Cons.prems(4) by simp
  qed
qed

end

text \<open>After a round that read \<open>p\<close>: the deadline is the start plus a second per heartbeat, and \<open>p\<close> is within
  the second that follows it.\<close>

definition on_schedule :: "nat \<Rightarrow> nat \<Rightarrow> timer_test \<Rightarrow> bool" where
  "on_schedule start p t \<longleftrightarrow>
     unat (last_heartbeat t) = start + 24000000 * unat (heartbeat t) \<and>
     unat (last_heartbeat t) \<le> p \<and> p < unat (last_heartbeat t) + 24000000"

lemma on_schedule_poll:
  assumes "timer_test_poll P buf (t, e) = Some (now, t', e')" and "on_schedule start p t"
    and "p \<le> unat now" and "unat now \<le> p + 24000000" and "unat now < start + 24000000 * 4294967296"
  shows "on_schedule start (unat now) t'"
proof -
  let ?l = "unat (last_heartbeat t)" and ?k = "unat (heartbeat t)"
  have l: "?l = start + 24000000 * ?k" "?l \<le> p" "p < ?l + 24000000" using assms(2) by (simp_all add: on_schedule_def)
  have d: "unat (now - last_heartbeat t) = unat now - ?l"
    using l assms(3) by (intro unat_sub) (simp add: word_le_nat_alt)
  show ?thesis
  proof (cases "unat now - ?l < 24000000")
    case True
    then have "t' = t" using assms(1) d
      by (auto simp: timer_test_poll_def bind_eq_Some_conv TIMER_TEST_TICKS_PER_SECOND_def word_less_nat_alt split: if_splits)
    then show ?thesis using l True assms(3) by (simp add: on_schedule_def)
  next
    case False
    then have t': "t' = t\<lparr>last_heartbeat := last_heartbeat t + 24000000, heartbeat := heartbeat t + 1\<rparr>"
      using assms(1) d
      by (auto simp: timer_test_poll_def bind_eq_Some_conv TIMER_TEST_TICKS_PER_SECOND_def word_less_nat_alt split: if_splits)
    have "?l + 24000000 < 18446744073709551616" using False unat_lt_2p64 [of now] by simp
    then have "unat (last_heartbeat t + 24000000) = ?l + 24000000" by (simp add: unat_word_ariths(1))
    moreover have "Suc ?k < 4294967296" using False l(1) assms(5) by simp
    then have "unat (heartbeat t + 1) = Suc ?k" by (simp add: unat_word_ariths(1))
    ultimately show ?thesis using False l assms(4) by (simp add: t' on_schedule_def)
  qed
qed

lemma on_schedule_polls:
  assumes "timer_test_polls P buf n (t, e) = Some (nows, t', e')" and "on_schedule start p t"
    and "successively (\<lambda>a b. a \<le> b \<and> b \<le> a + 24000000) (p # map unat nows)"
    and "\<forall>x \<in> set nows. unat x < start + 24000000 * 4294967296"
  shows "on_schedule start (last (p # map unat nows)) t'"
  using assms
proof (induction n arbitrary: t e nows p)
  case 0
  then show ?case by simp
next
  case (Suc n)
  obtain now t1 e1 ns where one: "timer_test_poll P buf (t, e) = Some (now, t1, e1)"
    and rest: "timer_test_polls P buf n (t1, e1) = Some (ns, t', e')" and nows: "nows = now # ns"
    using Suc.prems(1) by (auto simp: bind_eq_Some_conv)
  have "on_schedule start (unat now) t1"
    using Suc.prems(3,4) by (intro on_schedule_poll [OF one Suc.prems(2)]) (auto simp: nows)
  from Suc.IH [OF rest this] Suc.prems(3,4) show ?case by (simp add: nows)
qed

subsection \<open>Properties\<close>

text \<open>The C program and the HAL read the timer alike: the retry loop of the test computes the same result
  and leaves the same hardware state as \<^verbatim>\<open>HardwareTimer::read_mtime\<close>, and does not end in the same
  cases.\<close>

theorem timer_test_reads_like_hal: "timer_test_read_mtime = read_mtime"
  by (intro ext) (rule timer_test_read_mtime_eq)

text \<open>The heartbeat counts seconds without drift: when consecutive polls read the counter at most one
  second apart, then after any number of polls the number of heartbeats is exactly the number of
  whole seconds since the start, and the deadline is the start plus that many seconds.\<close>

theorem timer_test_counts_seconds:
  assumes "timer_test_main P buf e0 = Some (t0, e1)" and "timer_test_polls P buf n (t0, e1) = Some (nows, t, e)"
    and "start = unat (last_heartbeat t0)"
    and "successively (\<lambda>a b. a \<le> b \<and> b \<le> a + 24000000) (start # map unat nows)"
    and "\<forall>x \<in> set nows. unat x < start + 24000000 * 4294967296"
  shows "unat (heartbeat t) = (last (start # map unat nows) - start) div 24000000 \<and>
    unat (last_heartbeat t) = start + 24000000 * unat (heartbeat t)"
proof -
  have "on_schedule start start t0"
    using assms(1,3) by (auto simp: timer_test_main_def bind_eq_Some_conv on_schedule_def)
  from on_schedule_polls [OF assms(2) this assms(4,5)]
  have s: "unat (last_heartbeat t) = start + 24000000 * unat (heartbeat t)"
    "unat (last_heartbeat t) \<le> last (start # map unat nows)"
    "last (start # map unat nows) < unat (last_heartbeat t) + 24000000"
    by (simp_all add: on_schedule_def)
  let ?p = "last (start # map unat nows)" and ?k = "unat (heartbeat t)"
  have "24000000 * ?k \<le> ?p - start" "?p - start < 24000000 * ?k + 24000000" using s by linarith+
  then have "(?p - start) div 24000000 = ?k" by (intro div_nat_eqI) simp_all
  with s(1) show ?thesis by simp
qed

theorem timer_test_counts_seconds_witness:
  "\<exists>nows t e. timer_test_polls sim_platform 0x07136000 (Suc (Suc 0)) (\<lparr>last_heartbeat = 0, heartbeat = 0\<rparr>, sim_env) =
     Some (nows, t, e) \<and> heartbeat t = 0"
proof -
  have r: "timer_test_read_mtime sim_platform e = Some (0, e)"
    if "words (hw e) (RISCV_MTIME_ADDR + 4) = 0" "words (hw e) RISCV_MTIME_ADDR = 0" for e
    using that by (subst timer_test_read_mtime.simps) (simp add: mmio_read_def)
  let ?e = "write_trace sim_platform 0x07136000 (''timer_test: started; polling CLINT mtime'' @ [CHR 0x0A]) sim_env"
  have w: "words (hw ?e) = words (hw sim_env)"
    by (simp add: write_trace_def mmio_write8_def sizeof_g_trace_buffer_def)
  have main: "timer_test_main sim_platform 0x07136000 sim_env = Some (\<lparr>last_heartbeat = 0, heartbeat = 0\<rparr>, ?e)"
    using r [of sim_env] by (simp add: timer_test_main_def sim_env_def)
  have polls: "timer_test_polls sim_platform 0x07136000 (Suc (Suc 0)) (\<lparr>last_heartbeat = 0, heartbeat = 0\<rparr>, e) =
      Some ([0, 0], \<lparr>last_heartbeat = 0, heartbeat = 0\<rparr>, e)"
    if "words (hw e) = words (hw sim_env)" for e
  proof -
    have "timer_test_read_mtime sim_platform e = Some (0, e)" by (rule r) (simp_all add: that, simp_all add: sim_env_def)
    then show ?thesis by (simp add: timer_test_poll_def TIMER_TEST_TICKS_PER_SECOND_def)
  qed
  from timer_test_counts_seconds [OF main polls [OF w] refl] polls [of sim_env] show ?thesis by auto
qed

text \<open>A message is always a terminated string inside the 128 bytes: at most its first 127 characters
  are stored, followed by a zero, and no other byte is touched.\<close>

theorem write_trace_stays_in_buffer:
  assumes "byte_memory P peek8" and "CHR 0x00 \<notin> set message" and "n = min (length message) 127"
  shows "map (\<lambda>j. peek8 (buf + of_nat j) (hw (write_trace P buf message e))) [0 ..< Suc n] =
      map of_char (take 127 message) @ [0] \<and>
    (\<forall>b. 128 \<le> unat (b - buf) \<longrightarrow> peek8 b (hw (write_trace P buf message e)) = peek8 b (hw e))"
proof -
  obtain index e1 where l: "write_trace_loop P buf message 0 e = (index, e1)" by fastforce
  have n: "n = min (length message) (127 - unat (0 :: u32))" using assms(3) by simp
  from byte_memory.write_trace_loop_spec [OF assms(1) _ assms(2) n l]
  have s: "index = of_nat n" "\<And>j. j < n \<Longrightarrow> peek8 (buf + of_nat j) (hw e1) = of_char (message ! j)"
    "\<And>b. (\<And>j. j < n \<Longrightarrow> b \<noteq> buf + of_nat j) \<Longrightarrow> peek8 b (hw e1) = peek8 b (hw e)"
    by auto
  have p: "peek8 b (hw (write_trace P buf message e)) = (if b = buf + of_nat n then 0 else peek8 b (hw e1))" for b
    using byte_memory.peek8_mmio_write8 [OF assms(1)] by (auto simp: write_trace_def l s(1))
  have far: "b \<noteq> buf + of_nat j" if "128 \<le> unat (b - buf)" "j \<le> n" for b j
    using that assms(3) by (auto simp: unat_of_nat)
  have "peek8 (buf + of_nat j) (hw (write_trace P buf message e)) = (if j = n then 0 else of_char (message ! j))"
    if "j \<le> n" for j
  proof (cases "j = n")
    case False
    then have "(of_nat j :: u32) \<noteq> of_nat n" using that of_nat_u32_inject [of j n] assms(3) by simp
    with False that s(2) [of j] show ?thesis by (simp add: p)
  qed (simp add: p)
  then have "map (\<lambda>j. peek8 (buf + of_nat j) (hw (write_trace P buf message e))) [0 ..< Suc n] =
      map of_char (take 127 message) @ [0]"
    using assms(3) by (intro nth_equalityI) (auto simp: nth_append less_Suc_eq simp del: upt_Suc)
  moreover have "peek8 b (hw (write_trace P buf message e)) = peek8 b (hw e)" if "128 \<le> unat (b - buf)" for b
    using far [OF that] s(3) [of b] by (auto simp: p)
  ultimately show ?thesis by blast
qed

theorem write_trace_stays_in_buffer_witness:
  "map (\<lambda>j. bytes (hw (write_trace sim_platform 0x07136000 ''ok'' sim_env)) (0x07136000 + of_nat j)) [0 ..< 3] =
     [111, 107, 0]"
  using write_trace_stays_in_buffer [OF sim_bytes.byte_memory_axioms _ refl, of "''ok''" "0x07136000" sim_env]
  by (simp add: eval_nat_numeral)

end
