(* ===== verification/Platform_Smoke.thy ===== *)
theory Platform_Smoke
  imports Gpio Trace_Log
begin

text \<open>
  \<^verbatim>\<open>apps/platform_smoke_test/src/main.cpp\<close>: every pin the firmware owns is pulsed as often as its
  position in a table says, so a probe on a header pin can tell which pin of the chip it is.  What
  the hardware does during one turn of the delay loop is the parameter \<open>pass\<close>; the locale \<open>pin_probe\<close>
  observes the levels of all pins once per turn.
\<close>

subsection \<open>The table and the sweep\<close>

record PinUnderTest =
  ut_port :: u32
  ut_pin :: u32
  ut_name :: string

definition kPins :: "PinUnderTest list" where
  "kPins =
     [\<lparr>ut_port = PORT_L, ut_pin = 2, ut_name = ''PL2  S_UART0_TX''\<rparr>,
      \<lparr>ut_port = PORT_L, ut_pin = 3, ut_name = ''PL3  S_UART0_RX''\<rparr>,
      \<lparr>ut_port = PORT_L, ut_pin = 6, ut_name = ''PL6  IMU_DRDY''\<rparr>,
      \<lparr>ut_port = PORT_L, ut_pin = 9, ut_name = ''PL9  FPGA_IRQ''\<rparr>,
      \<lparr>ut_port = PORT_L, ut_pin = 10, ut_name = ''PL10 DEBUG0''\<rparr>,
      \<lparr>ut_port = PORT_L, ut_pin = 12, ut_name = ''PL12 DEBUG1''\<rparr>,
      \<lparr>ut_port = PORT_L, ut_pin = 13, ut_name = ''PL13 SPARE''\<rparr>,
      \<lparr>ut_port = PORT_M, ut_pin = 0, ut_name = ''PM0  SPARE''\<rparr>,
      \<lparr>ut_port = PORT_M, ut_pin = 4, ut_name = ''PM4  S_TWI2_SCK''\<rparr>,
      \<lparr>ut_port = PORT_M, ut_pin = 5, ut_name = ''PM5  S_TWI2_SDA''\<rparr>,
      \<lparr>ut_port = PORT_J, ut_pin = 20, ut_name = ''PJ20 SPI0_CS0''\<rparr>,
      \<lparr>ut_port = PORT_J, ut_pin = 21, ut_name = ''PJ21 SPI0_CLK''\<rparr>,
      \<lparr>ut_port = PORT_J, ut_pin = 22, ut_name = ''PJ22 SPI0_MOSI''\<rparr>,
      \<lparr>ut_port = PORT_J, ut_pin = 23, ut_name = ''PJ23 SPI0_MISO''\<rparr>,
      \<lparr>ut_port = PORT_J, ut_pin = 24, ut_name = ''PJ24 SPI0_CS1''\<rparr>]"

definition kPinCount :: nat where
  "kPinCount = length kPins"

definition kPulseHalfPeriod :: u32 where
  "kPulseHalfPeriod = 60000"

definition kBurstGap :: u32 where
  "kBurstGap = 3000000"

text \<open>The counting loop of \<^verbatim>\<open>delay_cycles\<close>, from \<open>i\<close> on; \<open>pass\<close> is the time one turn takes.\<close>

function delay_loop :: "('e \<Rightarrow> 'e) \<Rightarrow> u32 \<Rightarrow> u32 \<Rightarrow> 'e \<Rightarrow> 'e" where
  "delay_loop pass i cycles e = (if i < cycles then delay_loop pass (i + 1) cycles (pass e) else e)"
  by pat_completeness auto
termination
proof (relation "measure (\<lambda>(pass, i, cycles, e). unat cycles - unat i)")
  fix pass :: "'e \<Rightarrow> 'e" and i cycles :: u32 and e :: 'e
  assume "i < cycles"
  then show "((pass, i + 1, cycles, pass e), pass, i, cycles, e) \<in> measure (\<lambda>(pass, i, cycles, e). unat cycles - unat i)"
    using unat_Suc_no_wrap [of i cycles] by (simp add: word_less_nat_alt)
qed simp

declare delay_loop.simps [simp del]

definition delay_cycles :: "('h \<Rightarrow> 'h) \<Rightarrow> u32 \<Rightarrow> ('h, 'x) env \<Rightarrow> ('h, 'x) env" where
  "delay_cycles pass cycles e = delay_loop (\<lambda>e. e\<lparr>hw := pass (hw e)\<rparr>) 0 cycles e"

fun pulse_loop :: "('h, 'x) platform \<Rightarrow> ('h \<Rightarrow> 'h) \<Rightarrow> u32 \<Rightarrow> u32 \<Rightarrow> nat \<Rightarrow> ('h, 'x) env \<Rightarrow> ('h, 'x) env" where
  "pulse_loop P pass port pin 0 e = e"
| "pulse_loop P pass port pin (Suc n) e =
     pulse_loop P pass port pin n
       (delay_cycles pass kPulseHalfPeriod (clear_pin P port pin
         (delay_cycles pass kPulseHalfPeriod (set_pin P port pin e))))"

definition smoke_pulse ::
    "('h, 'x) platform \<Rightarrow> ('h \<Rightarrow> 'h) \<Rightarrow> nat \<Rightarrow> ('h, 'x) tracing \<Rightarrow> ('h, 'x) tracing" where
  "smoke_pulse P pass i te =
     (let (t, e) = Trace_puts P (Some [CHR 0x0A]) (Trace_puts P (Some (ut_name (kPins ! i)))
            (Trace_puts P (Some ''[riscv] pulsing pin: '') te))
      in (t, delay_cycles pass kBurstGap
               (pulse_loop P pass (ut_port (kPins ! i)) (ut_pin (kPins ! i)) (i + 1) e)))"

definition smoke_sweep :: "('h, 'x) platform \<Rightarrow> ('h \<Rightarrow> 'h) \<Rightarrow> ('h, 'x) tracing \<Rightarrow> ('h, 'x) tracing" where
  "smoke_sweep P pass te = fold (smoke_pulse P pass) [0 ..< kPinCount] te"

definition smoke_init :: "('h, 'x) platform \<Rightarrow> ('h, 'x) tracing \<Rightarrow> ('h, 'x) tracing" where
  "smoke_init P te =
     (let (t, e) = Trace_puts P
            (Some (''[riscv] platform smoke test starting pin pulse sweep'' @ [CHR 0x0A])) (Trace_init P te)
      in (t, fold (\<lambda>i e. clear_pin P (ut_port (kPins ! i)) (ut_pin (kPins ! i))
               (configure_pin P (ut_port (kPins ! i)) (ut_pin (kPins ! i)) OUTPUT e)) [0 ..< kPinCount] e))"

text \<open>The program: the sweep is repeated for ever; \<open>smoke_main\<close> runs \<open>n\<close> sweeps.\<close>

definition smoke_main ::
    "('h, 'x) platform \<Rightarrow> ('h \<Rightarrow> 'h) \<Rightarrow> nat \<Rightarrow> ('h, 'x) tracing \<Rightarrow> ('h, 'x) tracing" where
  "smoke_main P pass n te = (smoke_sweep P pass ^^ n) (smoke_init P te)"

subsection \<open>A probe on every pin\<close>

text \<open>The registers of the three ports as the manual of the chip places them, and what they put on the pins: a
  pin is driven when its four mode bits say output, at the level of its bit of the data register.\<close>

type_synonym levels = "u32 \<times> nat \<Rightarrow> bool option"

definition probed_ports :: "u32 set" where
  "probed_ports = {PORT_L, PORT_M, PORT_J}"

definition pin_bank :: "u32 \<Rightarrow> u32" where
  "pin_bank port = (if port = PORT_L then 0x07022000 else if port = PORT_M then 0x07022030 else 0x020001B0)"

definition data_addr :: "u32 \<Rightarrow> u32" where
  "data_addr port = pin_bank port + 0x10"

definition mode_addr :: "u32 \<Rightarrow> nat \<Rightarrow> u32" where
  "mode_addr port k = pin_bank port + 4 * of_nat k"

definition is_output :: "(u32 \<Rightarrow> 'h \<Rightarrow> u32) \<Rightarrow> 'h \<Rightarrow> u32 \<Rightarrow> nat \<Rightarrow> bool" where
  "is_output peek h port n \<longleftrightarrow> take_bit 4 (drop_bit (4 * (n mod 8)) (peek (mode_addr port (n div 8)) h)) = 1"

definition pin_levels :: "(u32 \<Rightarrow> 'h \<Rightarrow> u32) \<Rightarrow> 'h \<Rightarrow> levels" where
  "pin_levels peek h =
     (\<lambda>(port, n). if port \<in> probed_ports \<and> n < 32 \<and> is_output peek h port n
        then Some (bit (peek (data_addr port) h) n) else None)"

text \<open>The registers are storage, text goes elsewhere, and \<open>wave\<close> records the levels once per turn of the delay
  loop.\<close>

locale pin_probe = word_memory P peek A
  for P :: "('h, 'x) platform" and peek :: "u32 \<Rightarrow> 'h \<Rightarrow> u32" and A :: "u32 set" +
  fixes pass :: "'h \<Rightarrow> 'h"
    and wave :: "'h \<Rightarrow> levels list"
  assumes data_register: "port \<in> probed_ports \<Longrightarrow> data_addr port \<in> A"
    and mode_register: "port \<in> probed_ports \<Longrightarrow> k < 4 \<Longrightarrow> mode_addr port k \<in> A"
    and pass_keeps: "a \<in> A \<Longrightarrow> peek a (pass h) = peek a h"
    and pass_wave: "wave (pass h) = wave h @ [pin_levels peek h]"
    and wr_wave: "a \<in> A \<Longrightarrow> wave (bus_wr P a v h) = wave h"
    and text_keeps: "a \<in> A \<Longrightarrow> peek a (bus_wr8 P c b h) = peek a h"
    and text_wave: "wave (bus_wr8 P c b h) = wave h"

text \<open>What the probes should see: pin \<open>i\<close> of the table goes up and down \<open>i + 1\<close> times, 60000 turns each, and
  then rests for 3000000 turns; the other pins stay as they are.\<close>

definition tested :: "nat \<Rightarrow> u32 \<times> nat" where
  "tested i = (ut_port (kPins ! i), unat (ut_pin (kPins ! i)))"

definition burst_wave :: "levels \<Rightarrow> u32 \<times> nat \<Rightarrow> nat \<Rightarrow> levels list" where
  "burst_wave L pp n = concat (replicate n (replicate 60000 (L(pp \<mapsto> True)) @ replicate 60000 (L(pp \<mapsto> False))))"

definition pin_wave :: "levels \<Rightarrow> nat \<Rightarrow> levels list" where
  "pin_wave L i = burst_wave L (tested i) (i + 1) @ replicate 3000000 (L(tested i \<mapsto> False))"

definition sweep_wave :: "levels \<Rightarrow> levels list" where
  "sweep_wave L = concat (map (pin_wave L) [0 ..< 15])"

text \<open>All tested pins driven low.\<close>

definition all_low :: "levels \<Rightarrow> levels" where
  "all_low L = (\<lambda>pp. if pp \<in> tested ` {0 ..< 15} then Some False else L pp)"

text \<open>Pins the comment of the source reserves for Linux.\<close>

definition linux_pins :: "(u32 \<times> nat) set" where
  "linux_pins = {(PORT_L, 0), (PORT_L, 1), (PORT_L, 4), (PORT_L, 5), (PORT_L, 7), (PORT_L, 8),
     (PORT_L, 11), (PORT_M, 1)}"

subsection \<open>Example data\<close>

text \<open>A memory with a probe: the simulated memory and the levels recorded so far.\<close>

definition probe_platform :: "(sim_hw \<times> levels list, sim_ax) platform" where
  "probe_platform =
     \<lparr>bus_rd = (\<lambda>a h. (words (fst h) a, h)),
      bus_wr = (\<lambda>a v h. (bus_wr sim_platform a v (fst h), snd h)),
      bus_wr8 = (\<lambda>a v h. (bus_wr8 sim_platform a v (fst h), snd h)),
      csr_rd = (\<lambda>c h. (csrs (fst h) c, h)), csr_set = (\<lambda>c m h. (csr_set sim_platform c m (fst h), snd h)),
      disable_interrupts_save_flags = disable_interrupts_save_flags sim_platform,
      restore_interrupts_flags = restore_interrupts_flags sim_platform,
      taccess = taccess sim_platform, isr_post = isr_post sim_platform,
      timer_service_init = timer_service_init sim_platform,
      timer_service_tick = timer_service_tick sim_platform,
      timer_service_sleep_ms = timer_service_sleep_ms sim_platform\<rparr>"

definition probe_peek :: "u32 \<Rightarrow> sim_hw \<times> levels list \<Rightarrow> u32" where
  "probe_peek a h = words (fst h) a"

definition probe_pass :: "sim_hw \<times> levels list \<Rightarrow> sim_hw \<times> levels list" where
  "probe_pass h = (fst h, snd h @ [pin_levels probe_peek h])"

definition probe_env :: "(sim_hw \<times> levels list, sim_ax) env" where
  "probe_env = \<lparr>hw = (hw sim_env, []), ax = ax sim_env, ram = ram sim_env\<rparr>"

interpretation probe: pin_probe probe_platform probe_peek UNIV probe_pass snd
  by unfold_locales (simp_all add: probe_platform_def probe_pass_def probe_peek_def pin_levels_def
      is_output_def)

subsection \<open>Lemmas\<close>

lemma concat_replicate_Suc: "concat (replicate (Suc n) xs) = concat (replicate n xs) @ xs"
  by (induction n) simp_all

lemma delay_loop_turns: "delay_loop pass i cycles e = (pass ^^ (unat cycles - unat i)) e"
proof (induction pass i cycles e rule: delay_loop.induct)
  case (1 pass i cycles e)
  show ?case
  proof (cases "i < cycles")
    case True
    then have "unat cycles - unat i = Suc (unat cycles - unat (i + 1))"
      using unat_Suc_no_wrap [OF True] by (simp add: word_less_nat_alt)
    with True 1 show ?thesis by (simp add: delay_loop.simps [of pass i] funpow_swap1)
  next
    case False
    then show ?thesis by (simp add: delay_loop.simps [of pass i] word_less_nat_alt)
  qed
qed

lemma delay_cycles_turns:
  "delay_cycles pass cycles e = e\<lparr>hw := (pass ^^ unat cycles) (hw e)\<rparr>"
proof -
  have "((\<lambda>e. e\<lparr>hw := pass (hw e)\<rparr>) ^^ n) e = e\<lparr>hw := (pass ^^ n) (hw e)\<rparr>" for n
    by (induction n) simp_all
  then show ?thesis by (simp add: delay_cycles_def delay_loop_turns)
qed

lemma kPins_facts:
  "length kPins = 15" "kPinCount = 15"
  "i < 15 \<Longrightarrow> ut_port (kPins ! i) \<in> probed_ports \<and> ut_pin (kPins ! i) < 32"
  "inj_on tested {0 ..< 15}" "tested ` {0 ..< 15} \<inter> linux_pins = {}"
proof -
  show n: "length kPins = 15" by (simp add: kPins_def)
  then show "kPinCount = 15" by (simp add: kPinCount_def)
  let ?f = "\<lambda>p. (ut_port p, unat (ut_pin p))"
  have f: "map ?f kPins = [(PORT_L, 2), (PORT_L, 3), (PORT_L, 6), (PORT_L, 9), (PORT_L, 10), (PORT_L, 12),
      (PORT_L, 13), (PORT_M, 0), (PORT_M, 4), (PORT_M, 5), (PORT_J, 20), (PORT_J, 21), (PORT_J, 22),
      (PORT_J, 23), (PORT_J, 24)]"
    by (simp add: kPins_def)
  have "\<forall>pp \<in> set (map ?f kPins). fst pp \<in> probed_ports \<and> snd pp < 32"
    unfolding f by (simp add: probed_ports_def)
  then show "i < 15 \<Longrightarrow> ut_port (kPins ! i) \<in> probed_ports \<and> ut_pin (kPins ! i) < 32"
    using n by (simp add: word_less_nat_alt)
  have t: "tested i = map ?f kPins ! i" if "i < 15" for i using that n by (simp add: tested_def)
  have "distinct (map ?f kPins)" unfolding f by (simp add: PORT_L_def PORT_M_def PORT_J_def)
  then show "inj_on tested {0 ..< 15}"
    using n by (metis (no_types, lifting) t atLeastLessThan_iff inj_onI length_map nth_eq_iff_index_eq)
  have "set (map ?f kPins) \<inter> linux_pins = {}"
    unfolding f by (simp add: linux_pins_def PORT_L_def PORT_M_def PORT_J_def)
  moreover have "tested ` {0 ..< 15} \<subseteq> set (map ?f kPins)" using n t by (auto intro: nth_mem)
  ultimately show "tested ` {0 ..< 15} \<inter> linux_pins = {}" by blast
qed

lemma register_of_port:
  assumes "port \<in> probed_ports"
  shows "port_DATA port = data_addr port" and "port_CFG port (pin div 8) = mode_addr port (unat pin div 8)"
proof -
  have b: "get_port port = pin_bank port"
    using assms by (auto simp: probed_ports_def pin_bank_def get_port_def regs memory_map)
  then show "port_DATA port = data_addr port" by (simp add: port_DATA_def data_addr_def)
  have "pin div 8 = of_nat (unat pin div 8)" by (simp add: word_arith_nat_div)
  with b show "port_CFG port (pin div 8) = mode_addr port (unat pin div 8)"
    by (simp add: port_CFG_def mode_addr_def)
qed

lemma addr_inject:
  assumes "p \<in> probed_ports" and "q \<in> probed_ports"
  shows "data_addr p = data_addr q \<longleftrightarrow> p = q"
    and "k < 4 \<Longrightarrow> mode_addr p k \<noteq> data_addr q" and "k < 4 \<Longrightarrow> data_addr q \<noteq> mode_addr p k"
    and "k < 4 \<Longrightarrow> j < 4 \<Longrightarrow> mode_addr p k = mode_addr q j \<longleftrightarrow> p = q \<and> k = j"
proof -
  have four: "k = 0 \<or> k = 1 \<or> k = 2 \<or> k = 3" if "k < 4" for k :: nat using that by linarith
  show "data_addr p = data_addr q \<longleftrightarrow> p = q"
    using assms by (auto simp: probed_ports_def data_addr_def pin_bank_def regs)
  show d: "mode_addr p k \<noteq> data_addr q" if "k < 4"
    using assms four [OF that] by (auto simp: probed_ports_def mode_addr_def data_addr_def pin_bank_def regs)
  show "k < 4 \<Longrightarrow> data_addr q \<noteq> mode_addr p k" using d by metis
  show "mode_addr p k = mode_addr q j \<longleftrightarrow> p = q \<and> k = j" if "k < 4" "j < 4"
  proof -
    have all: "\<forall>p \<in> set [PORT_L, PORT_M, PORT_J]. \<forall>q \<in> set [PORT_L, PORT_M, PORT_J]. \<forall>k \<in> set [0 ..< 4].
      \<forall>j \<in> set [0 ..< 4]. mode_addr p k = mode_addr q j \<longleftrightarrow> p = q \<and> k = j"
      by code_simp
    show ?thesis by (rule all [rule_format]) (use assms that in \<open>simp_all add: probed_ports_def\<close>)
  qed
qed

lemma is_output_bits:
  "is_output peek h port n \<longleftrightarrow>
    (\<forall>j<4. bit (peek (mode_addr port (n div 8)) h) (4 * (n mod 8) + j) = (j = 0))"
proof -
  have "take_bit 4 (drop_bit k w) = 1 \<longleftrightarrow> (\<forall>j<4. bit w (k + j) = (j = 0))" for k and w :: u32
  proof -
    have "(\<forall>n<32. (n < 4 \<and> f n) = (n = 0)) \<longleftrightarrow> (\<forall>j<4. f j = (j = 0))" for f :: "nat \<Rightarrow> bool"
    proof (rule iffI; intro allI impI)
      fix j :: nat
      assume a: "\<forall>n<32. (n < 4 \<and> f n) = (n = 0)" and "j < 4"
      then show "f j = (j = 0)" using a [rule_format, of j] by simp
    next
      fix n :: nat
      assume a: "\<forall>j<4. f j = (j = 0)" and "n < 32"
      then show "(n < 4 \<and> f n) = (n = 0)" using a [rule_format, of n] by auto
    qed
    then show ?thesis by (subst bit_eq_iff) (simp add: bit_take_bit_iff bit_drop_bit_eq bit_1_iff)
  qed
  then show ?thesis by (simp add: is_output_def)
qed

lemma pin_levels_eqI:
  assumes "\<And>port. port \<in> probed_ports \<Longrightarrow> peek (data_addr port) h' = peek (data_addr port) h"
    and "\<And>port k. port \<in> probed_ports \<Longrightarrow> k < 4 \<Longrightarrow> peek (mode_addr port k) h' = peek (mode_addr port k) h"
  shows "pin_levels peek h' = pin_levels peek h"
proof -
  have "pin_levels peek h' (port, n) = pin_levels peek h (port, n)" for port n
    using assms(1) [of port] assms(2) [of port "n div 8"]
    by (cases "port \<in> probed_ports \<and> n < 32") (auto simp: pin_levels_def is_output_def)
  then show ?thesis by (intro ext) (metis surj_pair)
qed

context pin_probe
begin

abbreviation levels :: "('h, 'x) env \<Rightarrow> levels" where
  "levels e \<equiv> pin_levels peek (hw e)"

lemma text_invisible:
  "levels (snd (emit P s te)) = levels (snd te)" "wave (hw (snd (emit P s te))) = wave (hw (snd te))"
proof -
  have "peek a (hw (snd (emit P s te))) = peek a (hw (snd te))" if "a \<in> A" for a
    using emit_keeps_words [of peek a P s te] text_keeps [OF that] by simp
  then show "levels (snd (emit P s te)) = levels (snd te)"
    by (intro pin_levels_eqI) (auto simp: data_register mode_register)
  show "wave (hw (snd (emit P s te))) = wave (hw (snd te))"
    by (rule emit_keeps_words [of "\<lambda>_. wave"]) (rule text_wave)
qed

lemma register_sets: "port \<in> probed_ports \<Longrightarrow> pin < 32 \<Longrightarrow> {port_DATA port, port_CFG port (pin div 8)} \<subseteq> A"
  by (simp add: register_of_port data_register mode_register word_less_nat_alt)

text \<open>A store to the data register of one port that changes one bit.\<close>

lemma data_bit:
  assumes "port \<in> probed_ports" and "n < 32" and "levels e (port, n) \<noteq> None"
    and "\<And>i. i < 32 \<Longrightarrow> bit (peek (data_addr port) (hw e')) i =
      (if i = n then b else bit (peek (data_addr port) (hw e)) i)"
    and "\<And>a. a \<in> A \<Longrightarrow> a \<noteq> data_addr port \<Longrightarrow> peek a (hw e') = peek a (hw e)"
  shows "levels e' = (levels e)((port, n) \<mapsto> b)"
proof -
  have m: "peek (mode_addr q (i div 8)) (hw e') = peek (mode_addr q (i div 8)) (hw e)"
    if "q \<in> probed_ports" "i < 32" for q i
    using assms(5) [of "mode_addr q (i div 8)"] that assms(1) mode_register addr_inject(2) [of q port "i div 8"]
    by simp
  have d: "peek (data_addr q) (hw e') = peek (data_addr q) (hw e)" if "q \<in> probed_ports" "q \<noteq> port" for q
    using assms(5) [of "data_addr q"] that assms(1) data_register addr_inject(1) [of q port] by simp
  have "levels e' (q, i) = ((levels e)((port, n) \<mapsto> b)) (q, i)" for q i
    using assms(1-3) assms(4) [of i] m [of q i] d [of q]
    by (cases "q = port") (auto simp: pin_levels_def is_output_def split: if_splits)
  then show ?thesis by (intro ext) (metis surj_pair)
qed

lemma set_pin_level:
  assumes "port \<in> probed_ports" and "pin < 32" and "levels e (port, unat pin) \<noteq> None"
  shows "levels (set_pin P port pin e) = (levels e)((port, unat pin) \<mapsto> True)"
    and "wave (hw (set_pin P port pin e)) = wave (hw e)"
proof -
  note t = pin_operations_touch_one_pin [OF word_memory_axioms register_sets [OF assms(1,2)] assms(2)]
  have p: "unat pin < 32" using assms(2) by (simp add: word_less_nat_alt)
  show "levels (set_pin P port pin e) = (levels e)((port, unat pin) \<mapsto> True)"
  proof (rule data_bit [OF assms(1) p assms(3)])
    show "bit (peek (data_addr port) (hw (set_pin P port pin e))) i =
        (if i = unat pin then True else bit (peek (data_addr port) (hw e)) i)" if "i < 32" for i
      using t [OF that, of e INPUT] by (simp add: register_of_port [OF assms(1)])
    show "peek a (hw (set_pin P port pin e)) = peek a (hw e)" if "a \<in> A" "a \<noteq> data_addr port" for a
      using that data_register [OF assms(1)]
      by (simp add: set_pin_def hw_masked_modify peek_mmio_modify register_of_port [OF assms(1)])
  qed
  show "wave (hw (set_pin P port pin e)) = wave (hw e)"
    using data_register [OF assms(1)] by (simp add: set_pin_def hw_masked_modify register_of_port [OF assms(1)]
        mmio_modify_def mmio_read_plain mmio_write_def wr_wave)
qed

lemma clear_pin_level:
  assumes "port \<in> probed_ports" and "pin < 32" and "levels e (port, unat pin) \<noteq> None"
  shows "levels (clear_pin P port pin e) = (levels e)((port, unat pin) \<mapsto> False)"
    and "wave (hw (clear_pin P port pin e)) = wave (hw e)"
proof -
  note t = pin_operations_touch_one_pin [OF word_memory_axioms register_sets [OF assms(1,2)] assms(2)]
  have p: "unat pin < 32" using assms(2) by (simp add: word_less_nat_alt)
  show "levels (clear_pin P port pin e) = (levels e)((port, unat pin) \<mapsto> False)"
  proof (rule data_bit [OF assms(1) p assms(3)])
    show "bit (peek (data_addr port) (hw (clear_pin P port pin e))) i =
        (if i = unat pin then False else bit (peek (data_addr port) (hw e)) i)" if "i < 32" for i
      using t [OF that, of e INPUT] by (simp add: register_of_port [OF assms(1)])
    show "peek a (hw (clear_pin P port pin e)) = peek a (hw e)" if "a \<in> A" "a \<noteq> data_addr port" for a
      using that data_register [OF assms(1)]
      by (simp add: clear_pin_def hw_masked_modify peek_mmio_modify register_of_port [OF assms(1)])
  qed
  show "wave (hw (clear_pin P port pin e)) = wave (hw e)"
    using data_register [OF assms(1)] by (simp add: clear_pin_def hw_masked_modify register_of_port [OF assms(1)]
        mmio_modify_def mmio_read_plain mmio_write_def wr_wave)
qed

text \<open>Configuring a pin as output drives it and leaves every other pin as it is.\<close>

lemma configure_output:
  assumes "port \<in> probed_ports" and "pin < 32"
  shows "levels (configure_pin P port pin OUTPUT e) (port, unat pin) \<noteq> None"
    and "pp \<noteq> (port, unat pin) \<Longrightarrow> levels (configure_pin P port pin OUTPUT e) pp = levels e pp"
    and "wave (hw (configure_pin P port pin OUTPUT e)) = wave (hw e)"
proof -
  let ?k = "unat pin div 8" and ?e = "configure_pin P port pin OUTPUT e"
  have p: "unat pin < 32" "?k < 4" using assms(2) by (simp_all add: word_less_nat_alt)
  have A: "mode_addr port ?k \<in> A" by (rule mode_register [OF assms(1) p(2)])
  have bits: "bit (peek (mode_addr port ?k) (hw ?e)) n = (if n div 4 = unat pin mod 8 then n mod 4 = 0
      else bit (peek (mode_addr port ?k) (hw e)) n)" if "n < 32" for n
    using pin_operations_touch_one_pin [OF word_memory_axioms register_sets [OF assms] assms(2) that, of e OUTPUT]
    by (simp add: register_of_port(2) [OF assms(1)] bit_1_iff)
  have other: "peek a (hw ?e) = peek a (hw e)" if "a \<in> A" "a \<noteq> mode_addr port ?k" for a
    using that A by (simp add: configure_pin_def peek_mmio_modify register_of_port(2) [OF assms(1)])
  have "is_output peek (hw ?e) port (unat pin)"
    unfolding is_output_bits using bits [of "4 * (unat pin mod 8) + j" for j] by auto
  then show "levels ?e (port, unat pin) \<noteq> None" using assms(1) p by (simp add: pin_levels_def)
  have keep: "levels ?e (q, n) = levels e (q, n)" if "(q, n) \<noteq> (port, unat pin)" "q \<in> probed_ports" "n < 32" for q n
  proof -
    have nk: "n div 8 < 4" using that(3) by simp
    have "bit (peek (mode_addr q (n div 8)) (hw ?e)) (4 * (n mod 8) + j) =
        bit (peek (mode_addr q (n div 8)) (hw e)) (4 * (n mod 8) + j)" if "j < 4" for j
    proof (cases "q = port \<and> n div 8 = ?k")
      case True
      then have "n mod 8 \<noteq> unat pin mod 8"
        using \<open>(q, n) \<noteq> (port, unat pin)\<close> div_mult_mod_eq [of n 8] div_mult_mod_eq [of "unat pin" 8] by auto
      then show ?thesis using True bits [of "4 * (n mod 8) + j"] that by simp
    next
      case False
      then have "mode_addr q (n div 8) \<noteq> mode_addr port ?k"
        using addr_inject(4) [OF \<open>q \<in> probed_ports\<close> assms(1) nk p(2)] by auto
      then show ?thesis using other [OF mode_register [OF \<open>q \<in> probed_ports\<close> nk]] by simp
    qed
    moreover have "peek (data_addr q) (hw ?e) = peek (data_addr q) (hw e)"
      using other [OF data_register [OF that(2)]] addr_inject(3) [OF assms(1) that(2) p(2)] by simp
    ultimately show ?thesis by (simp add: pin_levels_def is_output_bits)
  qed
  have "levels ?e (q, n) = levels e (q, n)" if "(q, n) \<noteq> (port, unat pin)" for q n
    using keep [OF that] by (cases "q \<in> probed_ports \<and> n < 32") (auto simp: pin_levels_def)
  then show "pp \<noteq> (port, unat pin) \<Longrightarrow> levels ?e pp = levels e pp" by (cases pp) simp
  show "wave (hw ?e) = wave (hw e)"
    using A by (simp add: configure_pin_def register_of_port(2) [OF assms(1)] mmio_modify_def mmio_read_plain
        mmio_write_def wr_wave)
qed

lemma delay_wave:
  "levels (delay_cycles pass n e) = levels e"
  "wave (hw (delay_cycles pass n e)) = wave (hw e) @ replicate (unat n) (levels e)"
proof -
  have keep: "pin_levels peek ((pass ^^ k) h) = pin_levels peek h" for k h
  proof (induction k)
    case (Suc k)
    have "pin_levels peek (pass h) = pin_levels peek h" for h
      by (intro pin_levels_eqI) (simp_all add: pass_keeps data_register mode_register)
    with Suc show ?case by simp
  qed simp
  have "wave ((pass ^^ k) h) = wave h @ replicate k (pin_levels peek h)" for k h
    by (induction k) (simp_all add: pass_wave keep replicate_append_same)
  then show "levels (delay_cycles pass n e) = levels e"
    "wave (hw (delay_cycles pass n e)) = wave (hw e) @ replicate (unat n) (levels e)"
    by (simp_all add: delay_cycles_turns keep)
qed

lemma pulse_loop_wave:
  assumes "port \<in> probed_ports" and "pin < 32" and "levels e (port, unat pin) = Some False"
  shows "levels (pulse_loop P pass port pin n e) = levels e \<and>
    wave (hw (pulse_loop P pass port pin n e)) = wave (hw e) @ burst_wave (levels e) (port, unat pin) n"
  using assms(3)
proof (induction n arbitrary: e)
  case 0
  show ?case by (simp add: burst_wave_def)
next
  case (Suc n)
  let ?pp = "(port, unat pin)" and ?L = "levels e"
  let ?e1 = "delay_cycles pass kPulseHalfPeriod (set_pin P port pin e)"
  let ?e2 = "delay_cycles pass kPulseHalfPeriod (clear_pin P port pin ?e1)"
  have n: "unat kPulseHalfPeriod = 60000" by (simp add: kPulseHalfPeriod_def)
  have up: "levels ?e1 = ?L(?pp \<mapsto> True)" "wave (hw ?e1) = wave (hw e) @ replicate 60000 (?L(?pp \<mapsto> True))"
    using Suc.prems set_pin_level [OF assms(1,2), of e] by (simp_all add: delay_wave n)
  have same: "?L(?pp \<mapsto> False) = ?L" using Suc.prems by (simp add: fun_upd_idem)
  have down: "levels ?e2 = ?L" "wave (hw ?e2) = wave (hw ?e1) @ replicate 60000 ?L"
    using up(1) clear_pin_level [OF assms(1,2), of ?e1] by (simp_all add: delay_wave n same)
  show ?case using Suc.IH [of ?e2] Suc.prems up down same by (simp add: burst_wave_def)
qed

lemma smoke_pulse_wave:
  assumes "i < 15" and "levels (snd te) (tested i) = Some False"
  shows "levels (snd (smoke_pulse P pass i te)) = levels (snd te) \<and>
    wave (hw (snd (smoke_pulse P pass i te))) = wave (hw (snd te)) @ pin_wave (levels (snd te)) i"
proof -
  define te1 where "te1 = Trace_puts P (Some [CHR 0x0A]) (Trace_puts P (Some (ut_name (kPins ! i)))
            (Trace_puts P (Some ''[riscv] pulsing pin: '') te))"
  have te1: "levels (snd te1) = levels (snd te)" "wave (hw (snd te1)) = wave (hw (snd te))"
    by (simp_all add: te1_def puts_emits text_invisible)
  let ?e = "pulse_loop P pass (ut_port (kPins ! i)) (ut_pin (kPins ! i)) (i + 1) (snd te1)"
  have "levels ?e = levels (snd te)" "wave (hw ?e) = wave (hw (snd te)) @ burst_wave (levels (snd te)) (tested i) (i + 1)"
    using pulse_loop_wave [of "ut_port (kPins ! i)" "ut_pin (kPins ! i)" "snd te1" "i + 1"] kPins_facts(3) [OF assms(1)]
      assms(2) te1 by (simp_all add: tested_def)
  moreover have "snd (smoke_pulse P pass i te) = delay_cycles pass kBurstGap ?e"
    by (simp add: smoke_pulse_def te1_def [symmetric] case_prod_beta Let_def)
  moreover have "(levels (snd te))(tested i \<mapsto> False) = levels (snd te)" using assms(2) by (simp add: fun_upd_idem)
  ultimately show ?thesis by (simp add: delay_wave pin_wave_def kBurstGap_def)
qed

lemma smoke_sweep_wave:
  assumes "\<forall>i<15. levels (snd te) (tested i) = Some False"
  shows "levels (snd (smoke_sweep P pass te)) = levels (snd te) \<and>
    wave (hw (snd (smoke_sweep P pass te))) = wave (hw (snd te)) @ sweep_wave (levels (snd te))"
proof -
  have "levels (snd (fold (smoke_pulse P pass) is te)) = levels (snd te) \<and>
    wave (hw (snd (fold (smoke_pulse P pass) is te))) = wave (hw (snd te)) @ concat (map (pin_wave (levels (snd te))) is)"
    if "set is \<subseteq> {0 ..< 15}" "\<forall>i<15. levels (snd te) (tested i) = Some False" for "is" te
    using that by (induction "is" arbitrary: te) (simp_all add: smoke_pulse_wave)
  from this [of "[0 ..< 15]", OF _ assms] show ?thesis
    by (simp add: smoke_sweep_def kPins_facts(2) sweep_wave_def)
qed

lemma smoke_init_wave:
  "levels (snd (smoke_init P te)) = all_low (levels (snd te)) \<and>
    wave (hw (snd (smoke_init P te))) = wave (hw (snd te))"
proof -
  let ?clear = "\<lambda>i e. clear_pin P (ut_port (kPins ! i)) (ut_pin (kPins ! i))
      (configure_pin P (ut_port (kPins ! i)) (ut_pin (kPins ! i)) OUTPUT e)"
  have one: "levels (?clear i e) = (levels e)(tested i \<mapsto> False)" "wave (hw (?clear i e)) = wave (hw e)"
    if "i < 15" for i e
  proof -
    note p = kPins_facts(3) [OF that, THEN conjunct1] kPins_facts(3) [OF that, THEN conjunct2]
    show "levels (?clear i e) = (levels e)(tested i \<mapsto> False)"
      using clear_pin_level(1) [OF p configure_output(1) [OF p]] configure_output(2) [OF p]
      by (auto simp: tested_def)
    show "wave (hw (?clear i e)) = wave (hw e)"
      using clear_pin_level(2) [OF p configure_output(1) [OF p]] configure_output(3) [OF p] by simp
  qed
  have all: "levels (fold ?clear [0 ..< n] e) = (\<lambda>pp. if pp \<in> tested ` {0 ..< n} then Some False else levels e pp) \<and>
      wave (hw (fold ?clear [0 ..< n] e)) = wave (hw e)" if "n \<le> 15" for n e
    using that by (induction n) (auto simp: one atLeast0_lessThan_Suc)
  define te1 where "te1 = Trace_puts P
      (Some (''[riscv] platform smoke test starting pin pulse sweep'' @ [CHR 0x0A])) (Trace_init P te)"
  have wiped: "a \<in> A \<Longrightarrow> peek a (hw (fold (\<lambda>i. mmio_write8 P (trace_buffer + of_nat i) 0) is e)) = peek a (hw e)"
    "wave (hw (fold (\<lambda>i. mmio_write8 P (trace_buffer + of_nat i) 0) is e)) = wave (hw e)" for a e "is"
    by (induction "is" arbitrary: e) (simp_all add: mmio_write8_def text_keeps text_wave)
  have "levels (snd te1) = levels (snd te)" "wave (hw (snd te1)) = wave (hw (snd te))"
    by (auto simp: te1_def puts_emits text_invisible Trace_init_def case_prod_beta Let_def wiped
        data_register mode_register intro: pin_levels_eqI)
  moreover have "snd (smoke_init P te) = fold ?clear [0 ..< 15] (snd te1)"
    by (simp add: smoke_init_def te1_def case_prod_beta Let_def kPins_facts(2))
  ultimately show ?thesis using all [of 15 "snd te1"] by (simp add: all_low_def fun_eq_iff)
qed

lemma smoke_main_wave:
  "levels (snd (smoke_main P pass n te)) = all_low (levels (snd te)) \<and>
    wave (hw (snd (smoke_main P pass n te))) =
      wave (hw (snd te)) @ concat (replicate n (sweep_wave (all_low (levels (snd te)))))"
proof (induction n)
  case 0
  then show ?case using smoke_init_wave by (simp add: smoke_main_def)
next
  case (Suc n)
  let ?te = "smoke_main P pass n te"
  have "smoke_main P pass (Suc n) te = smoke_sweep P pass ?te" by (simp add: smoke_main_def)
  moreover have "\<forall>i<15. levels (snd ?te) (tested i) = Some False" using Suc by (simp add: all_low_def)
  ultimately show ?case
    using smoke_sweep_wave [of ?te] Suc by (simp add: concat_replicate_Suc del: replicate_Suc)
qed

end

subsection \<open>Properties\<close>

text \<open>C35. The program identifies every pin it owns: whatever the pins did before, the levels on all of them
  during \<open>n\<close> sweeps are \<open>n\<close> times the same picture.  In it every pin of the table in turn goes up and down
  one time more often than its position, 60000 turns of the delay loop each, and rests low for
  3000000 turns, while the other pins of the table are driven low and the levels of all remaining
  pins are those before the program.  The pins are distinct, so the counts tell them apart, and none is one of those
  reserved for Linux, so these are left alone.\<close>

theorem smoke_test_identifies_pins:
  assumes "pin_probe P peek A pass wave"
  shows "wave (hw (snd (smoke_main P pass n te))) = wave (hw (snd te)) @
      concat (replicate n (sweep_wave (all_low (pin_levels peek (hw (snd te)))))) \<and>
    pin_levels peek (hw (snd (smoke_main P pass n te))) = all_low (pin_levels peek (hw (snd te))) \<and>
    inj_on tested {0 ..< 15} \<and> tested ` {0 ..< 15} \<inter> linux_pins = {}"
  using pin_probe.smoke_main_wave [OF assms, of n te] kPins_facts(4,5) by simp

theorem smoke_test_identifies_pins_witness:
  "snd (hw (snd (smoke_main probe_platform probe_pass 2 (trace_static, probe_env)))) =
    sweep_wave (all_low (\<lambda>_. None)) @ sweep_wave (all_low (\<lambda>_. None))"
proof -
  have "pin_levels probe_peek (hw probe_env) = (\<lambda>_. None)"
    by (auto simp: pin_levels_def is_output_def probe_peek_def probe_env_def sim_env_def)
  then show ?thesis
    using smoke_test_identifies_pins [OF probe.pin_probe_axioms, of 2 "(trace_static, probe_env)"]
    by (simp add: numeral_2_eq_2 probe_env_def)
qed

end
