(* ===== verification/Hello_World.thy ===== *)
theory Hello_World
  imports Gpio Hal_Boot
begin

text \<open>
  \<^verbatim>\<open>apps/hello_world/src/main.cpp\<close>: two coroutines that toggle a pin and sleep.  A run of the event loop
  is the list of coroutines the dispatcher resumes; which ones and when is up to the AbstractX timer
  service.  A call of \<^verbatim>\<open>printf\<close> is recorded as its format and its arguments.
\<close>

subsection \<open>State and operations\<close>

record hello_world =
  hello_count :: u32
  hello_timer :: HardwareTimer
  hello_stdout :: "(string \<times> u32 list) list"

definition hello_world_static :: hello_world where
  "hello_world_static = \<lparr>hello_count = 0, hello_timer = HardwareTimer_static, hello_stdout = []\<rparr>"

definition printf :: "string \<Rightarrow> u32 list \<Rightarrow> hello_world \<Rightarrow> hello_world" where
  "printf fmt args s = s\<lparr>hello_stdout := hello_stdout s @ [(fmt, args)]\<rparr>"

text \<open>One iteration of each coroutine, up to its suspension; \<open>self\<close> is its handle.\<close>

definition heartbeat_coro ::
    "('h, 'x) platform \<Rightarrow> handle \<Rightarrow> hello_world \<times> ('h, 'x) env \<Rightarrow> (hello_world \<times> ('h, 'x) env) option" where
  "heartbeat_coro P self se =
     (let (s, e) = se; e1 = toggle_pin P 0 10 e in
      do {
        (now, e2) \<leftarrow> get_time_us P (hello_timer s) e1;
        let s1 = printf (''[E907/E902] AbstractX Heartbeat #%lu (Time: %lu us)'' @ [CHR 0x0A])
                   [hello_count s, now] s;
        Some (s1\<lparr>hello_count := hello_count s + 1\<rparr>, sleep_ms P 1000 self e2)
      })"

definition sensor_loop_coro ::
    "('h, 'x) platform \<Rightarrow> handle \<Rightarrow> hello_world \<times> ('h, 'x) env \<Rightarrow> (hello_world \<times> ('h, 'x) env) option" where
  "sensor_loop_coro P self se = (let (s, e) = se in Some (s, sleep_ms P 10 self (toggle_pin P 0 11 e)))"

datatype hello_coro = Heartbeat | Sensor_loop

fun hello_resume ::
    "('h, 'x) platform \<Rightarrow> (hello_coro \<Rightarrow> handle) \<Rightarrow> hello_coro \<Rightarrow> hello_world \<times> ('h, 'x) env \<Rightarrow>
     (hello_world \<times> ('h, 'x) env) option" where
  "hello_resume P frame Heartbeat se = heartbeat_coro P (frame Heartbeat) se"
| "hello_resume P frame Sensor_loop se = sensor_loop_coro P (frame Sensor_loop) se"

text \<open>\<open>main\<close> up to the event loop, and the event loop for a list of resumptions; \<open>False\<close> is the endless
  wait after a failed handshake.\<close>

fun hello_events ::
    "('h, 'x) platform \<Rightarrow> (hello_coro \<Rightarrow> handle) \<Rightarrow> hello_coro list \<Rightarrow> hello_world \<times> ('h, 'x) env \<Rightarrow>
     (hello_world \<times> ('h, 'x) env) option" where
  "hello_events P frame [] se = Some se"
| "hello_events P frame (c # cs) se = do { se1 \<leftarrow> hello_resume P frame c se; hello_events P frame cs se1 }"

definition hello_main ::
    "('h, 'x) platform \<Rightarrow> (hello_coro \<Rightarrow> handle) \<Rightarrow> hello_coro list \<Rightarrow> hello_world \<times> ('h, 'x) env \<Rightarrow>
     (bool \<times> hello_world \<times> ('h, 'x) env) option" where
  "hello_main P frame cs se =
     (let (s, e) = se in
      do {
        (ok, t, e1) \<leftarrow> initialize_from_linux_clock_configuration P 1000 (hello_timer s) e;
        let s1 = s\<lparr>hello_timer := t\<rparr>;
        if \<not> ok then Some (False, s1, e1)
        else do {
          let e2 = configure_pin P 0 11 OUTPUT (configure_pin P 0 10 OUTPUT e1);
          let s2 = printf (''=== Allwinner T527/A733 AbstractX Coprocessor Booted ==='' @ [CHR 0x0A]) [] s1;
          se3 \<leftarrow> hello_events P frame (Heartbeat # Sensor_loop # cs) (s2, e2);
          Some (True, se3)
        }
      })"

subsection \<open>Lemmas\<close>

definition pin_line :: "(u32 \<Rightarrow> 'h \<Rightarrow> u32) \<Rightarrow> nat \<Rightarrow> ('h, 'x) env \<Rightarrow> bool" where
  "pin_line peek n e = bit (peek (port_DATA 0) (hw e)) n"

lemma pin_line_sleep [simp]: "pin_line peek n (sleep_ms P ms h e) = pin_line peek n e"
  by (simp add: pin_line_def sleep_ms_def)

lemma pin_line_toggle:
  assumes "word_memory P peek A" and "port_DATA 0 \<in> A" and "n < 32" and "unat pin < 32"
  shows "pin_line peek n (toggle_pin P 0 pin e) = ((n = unat pin) \<noteq> pin_line peek n e)"
proof -
  have "bit (push_bit (unat pin) (1 :: u32)) n \<longleftrightarrow> n = unat pin"
    using assms(4) unfolding bit_push_bit_1 by auto
  then show ?thesis
    using assms(2) unfolding pin_line_def toggle_pin_def hw_masked_modify
      word_memory.peek_mmio_modify [OF assms(1,2,2)]
    by (simp only: bit_xor_iff if_True refl) auto
qed

lemma hello_resume_spec:
  assumes "word_memory P peek A" and "port_DATA 0 \<in> A" and "n < 32"
    and "\<And>c h. peek (port_DATA 0) (snd (csr_rd P c h)) = peek (port_DATA 0) h"
    and "hello_resume P frame c (s, e) = Some (s', e')"
  shows "hello_count s' = (if c = Heartbeat then hello_count s + 1 else hello_count s)"
    and "hello_timer s' = hello_timer s"
    and "pin_line peek n e' =
      ((c = Heartbeat \<and> n = 10 \<or> c = Sensor_loop \<and> n = 11) \<noteq> pin_line peek n e)"
proof -
  note t = pin_line_toggle [OF assms(1-3)]
  show "hello_count s' = (if c = Heartbeat then hello_count s + 1 else hello_count s)"
    and "hello_timer s' = hello_timer s"
    using assms(5) by (cases c; auto simp: heartbeat_coro_def sensor_loop_coro_def printf_def bind_eq_Some_conv Let_def)+
  show "pin_line peek n e' = ((c = Heartbeat \<and> n = 10 \<or> c = Sensor_loop \<and> n = 11) \<noteq> pin_line peek n e)"
  proof (cases c)
    case Heartbeat
    then obtain now e2 where g: "get_time_us P (hello_timer s) (toggle_pin P 0 10 e) = Some (now, e2)"
      and e': "e' = sleep_ms P 1000 (frame Heartbeat) e2"
      using assms(5) by (auto simp: heartbeat_coro_def bind_eq_Some_conv Let_def)
    have "pin_line peek n e2 = pin_line peek n (toggle_pin P 0 10 e)"
      using get_time_us_hw [OF g, of "peek (port_DATA 0)"] assms(4) by (simp add: pin_line_def)
    with t [of 10 e] Heartbeat e' show ?thesis by simp
  next
    case Sensor_loop
    with assms(5) t [of 11 e] show ?thesis by (auto simp: sensor_loop_coro_def)
  qed
qed

lemma hello_resume_returns:
  "(\<And>e. get_time_us P (hello_timer s) e \<noteq> None) \<Longrightarrow> \<exists>s' e'. hello_resume P frame c (s, e) = Some (s', e')"
proof -
  assume g: "\<And>e. get_time_us P (hello_timer s) e \<noteq> None"
  obtain now e2 where "get_time_us P (hello_timer s) (toggle_pin P 0 10 e) = Some (now, e2)" using g by fastforce
  then show ?thesis by (cases c) (simp_all add: heartbeat_coro_def sensor_loop_coro_def Let_def)
qed

subsection \<open>Properties\<close>

text \<open>The pins show which coroutine ran: for every list of resumptions the event loop gets through it, the
  heartbeat counter counts the heartbeats, pin 10 of port A has toggled once per heartbeat, pin 11
  once per sensor round, and no other pin of the port has changed.\<close>

theorem hello_pins_follow_coroutines:
  assumes "word_memory P peek A" and "port_DATA 0 \<in> A"
    and "\<And>c h. peek (port_DATA 0) (snd (csr_rd P c h)) = peek (port_DATA 0) h"
    and "\<And>e. get_time_us P (hello_timer s) e \<noteq> None"
  shows "\<exists>s' e'. hello_events P frame cs (s, e) = Some (s', e') \<and>
    hello_count s' = hello_count s + of_nat (count_list cs Heartbeat) \<and>
    (\<forall>n \<in> {0 ..< 32}. pin_line peek n e' =
      (pin_line peek n e \<noteq> (n = 10 \<and> odd (count_list cs Heartbeat) \<or> n = 11 \<and> odd (count_list cs Sensor_loop))))"
  using assms(4)
proof (induction cs arbitrary: s e)
  case Nil
  then show ?case by simp
next
  case (Cons c cs)
  obtain s1 e1 where r: "hello_resume P frame c (s, e) = Some (s1, e1)"
    using hello_resume_returns [OF Cons.prems, where frame = frame and c = c and e = e] by blast
  note one = hello_resume_spec [OF assms(1,2) _ assms(3) r]
  have "\<And>e. get_time_us P (hello_timer s1) e \<noteq> None" using Cons.prems one(2) [of 0] by simp
  from Cons.IH [OF this, of e1] obtain s' e' where IH: "hello_events P frame cs (s1, e1) = Some (s', e')"
    "hello_count s' = hello_count s1 + of_nat (count_list cs Heartbeat)"
    "\<forall>n \<in> {0 ..< 32}. pin_line peek n e' =
      (pin_line peek n e1 \<noteq> (n = 10 \<and> odd (count_list cs Heartbeat) \<or> n = 11 \<and> odd (count_list cs Sensor_loop)))"
    by blast
  have "hello_events P frame (c # cs) (s, e) = Some (s', e')" using r IH(1) by simp
  moreover have "hello_count s' = hello_count s + of_nat (count_list (c # cs) Heartbeat)"
    using IH(2) one(1) [of 0] by simp
  moreover have "pin_line peek n e' = (pin_line peek n e \<noteq>
      (n = 10 \<and> odd (count_list (c # cs) Heartbeat) \<or> n = 11 \<and> odd (count_list (c # cs) Sensor_loop)))" if "n < 32" for n
  proof -
    have "pin_line peek n e' = (pin_line peek n e1 \<noteq>
        (n = 10 \<and> odd (count_list cs Heartbeat) \<or> n = 11 \<and> odd (count_list cs Sensor_loop)))"
      using IH(3) that by simp
    then show ?thesis unfolding one(3) [OF that] by (cases c; cases "n = 10"; cases "n = 11"; auto)
  qed
  ultimately show ?case by auto
qed

theorem hello_pins_follow_coroutines_witness:
  "\<exists>s' e'. hello_events sim_platform (\<lambda>_. 1) [Heartbeat, Sensor_loop, Sensor_loop] (hello_world_static, sim_env) = Some (s', e') \<and>
     hello_count s' = 1 \<and> bit (words (hw e') (port_DATA 0)) 10 \<and> \<not> bit (words (hw e') (port_DATA 0)) 11"
  using hello_pins_follow_coroutines [OF sim.word_memory_axioms, of hello_world_static "\<lambda>_. 1"
      "[Heartbeat, Sensor_loop, Sensor_loop]" sim_env]
  by (fastforce simp: sim_get_time_us pin_line_def hello_world_static_def sim_env_def)

end
