(* ===== verification/Fault_Test.thy ===== *)
theory Fault_Test
  imports Trap_Handler
begin

text \<open>
  \<^verbatim>\<open>apps/fault_test/src/main.cpp\<close>: the program stores to an unaligned address, and if the core accepts
  the store, executes an illegal instruction.  What the core does is a parameter: \<open>store_trap\<close> gives the
  hardware state after the trap of a store, or nothing when the store is carried out; \<open>illegal_trap\<close>
  the state after the trap of the illegal instruction.  Both lead to the trap handler of the HAL.
\<close>

subsection \<open>The program\<close>

definition fault_test_puts ::
    "('h, 'x) platform \<Rightarrow> string \<Rightarrow> firmware \<times> ('h, 'x) env \<Rightarrow> firmware \<times> ('h, 'x) env" where
  "fault_test_puts P text fe =
     (let (f, e) = fe; (t, e1) = Trace_puts P (Some (text @ [CHR 0x0A])) (fw_trace f, e)
      in (f\<lparr>fw_trace := t\<rparr>, e1))"

definition fault_test_main ::
    "('h, 'x) pin_callback \<Rightarrow> ('h, 'x) platform \<Rightarrow> (u32 \<Rightarrow> u32 \<Rightarrow> 'h \<Rightarrow> 'h option) \<Rightarrow> ('h \<Rightarrow> 'h) \<Rightarrow>
     firmware \<times> ('h, 'x) env \<Rightarrow> (trap_outcome \<times> firmware \<times> ('h, 'x) env) option" where
  "fault_test_main call P store_trap illegal_trap fe =
     (let (f0, e0) = fe; (t, e1) = Trace_init P (fw_trace f0, e0);
          (f3, e3) =
            fault_test_puts P ''[riscv] fault_test: triggering controlled exception (unaligned store)''
              (fault_test_puts P ''[riscv] fault_test: boot successful, trace initialized'' (f0\<lparr>fw_trace := t\<rparr>, e1))
      in case store_trap 0x00000001 0xDEADBEEF (hw e3) of
           Some h \<Rightarrow> riscv_trap_handler call P (f3, e3\<lparr>hw := h\<rparr>)
         | None \<Rightarrow>
             (let e4 = mmio_write P 0x00000001 0xDEADBEEF e3
              in riscv_trap_handler call P (f3, e4\<lparr>hw := illegal_trap (hw e4)\<rparr>)))"

text \<open>The state of the core after a trap with one of the given causes.\<close>

definition trapped :: "('h, 'x) platform \<Rightarrow> u32 set \<Rightarrow> 'h \<Rightarrow> bool" where
  "trapped P causes h \<longleftrightarrow> fst (csr_rd P Mcause h) \<in> causes"

subsection \<open>Lemmas\<close>

lemma fatal_trap_record:
  assumes "word_memory P peek A" and "status_words \<subseteq> A" and "trapped P causes (hw e)"
    and "\<forall>c \<in> causes. c AND kInterruptBit = 0"
  shows "\<exists>f' e' h mcause. mcause \<in> causes \<and> riscv_trap_handler call P (f, e) = Some (Halted, f', e') \<and>
    hw e' = bus_wr P (msgbox_reg MSGBOX_BASE MSG_QUEUE 0 0) kFirmwareCrashDoorbell h \<and>
    Status_is_valid (observe_status peek h) \<and> st_state (observe_status peek h) = State_code Crashed \<and>
    st_mcause (observe_status peek h) = mcause"
proof -
  obtain mcause h1 where c: "csr_rd P Mcause (hw e) = (mcause, h1)" by fastforce
  obtain mepc h2 where p: "csr_rd P Mepc h1 = (mepc, h2)" by fastforce
  obtain mtval h3 where v: "csr_rd P Mtval h2 = (mtval, h3)" by fastforce
  have m: "mcause \<in> causes" "mcause AND kInterruptBit = 0" using assms(3,4) c by (auto simp: trapped_def)
  obtain t e4 where run: "riscv_trap_handler call P (f, e) = Some (Halted, f\<lparr>fw_trace := t\<rparr>,
      ring_doorbell_to_linux P kFirmwareCrashDoorbell (publish P (crash_status mcause mepc mtval (fw_timer f)) e4))"
    and obs: "observe_status peek (hw (publish P (crash_status mcause mepc mtval (fw_timer f)) e4)) =
      crash_status mcause mepc mtval (fw_timer f)"
    by (rule fatal_trap_effect [OF assms(1,2) c m(2) p v, where f = f and call = call])
  let ?e = "publish P (crash_status mcause mepc mtval (fw_timer f)) e4"
  show ?thesis
    by (rule exI [of _ "f\<lparr>fw_trace := t\<rparr>"], rule exI [of _ "ring_doorbell_to_linux P kFirmwareCrashDoorbell ?e"],
        rule exI [of _ "hw ?e"], rule exI [of _ mcause])
      (simp add: run obs m(1) hw_ring_doorbell crash_status_valid crash_status_fields)
qed

subsection \<open>Properties\<close>

text \<open>C28. The fault test always ends in a crash report: whether the core traps the unaligned store or only the
  illegal instruction after it, the firmware halts, and when the crash doorbell rings, the shared
  record is valid, its state is crashed and its cause is a misaligned or faulting store or an
  illegal instruction.\<close>

theorem fault_test_reports_crash:
  assumes "word_memory P peek A" and "status_words \<subseteq> A"
    and "\<And>a v h h'. store_trap a v h = Some h' \<Longrightarrow> trapped P {6, 7} h'"
    and "\<And>h. trapped P {2} (illegal_trap h)"
  shows "\<exists>f' e' h. fault_test_main call P store_trap illegal_trap (f, e) = Some (Halted, f', e') \<and>
    hw e' = bus_wr P (msgbox_reg MSGBOX_BASE MSG_QUEUE 0 0) 0xA3 h \<and>
    Status_is_valid (observe_status peek h) \<and> st_state (observe_status peek h) = State_code Crashed \<and>
    st_mcause (observe_status peek h) \<in> {2, 6, 7}"
proof -
  obtain f3 e3 where pre: "fault_test_main call P store_trap illegal_trap (f, e) =
      (case store_trap 0x00000001 0xDEADBEEF (hw e3) of
         Some h \<Rightarrow> riscv_trap_handler call P (f3, e3\<lparr>hw := h\<rparr>)
       | None \<Rightarrow> (let e4 = mmio_write P 0x00000001 0xDEADBEEF e3
            in riscv_trap_handler call P (f3, e4\<lparr>hw := illegal_trap (hw e4)\<rparr>)))"
    unfolding fault_test_main_def Let_def case_prod_beta by blast
  have k: "kFirmwareCrashDoorbell = 0xA3" by (simp add: kFirmwareCrashDoorbell_def)
  show ?thesis
  proof (cases "store_trap 0x00000001 0xDEADBEEF (hw e3)")
    case None
    have "\<forall>c \<in> {2 :: u32}. c AND kInterruptBit = 0" by (simp add: kInterruptBit_def)
    from fatal_trap_record [OF assms(1,2) _ this, of "(mmio_write P 1 0xDEADBEEF e3)\<lparr>hw :=
        illegal_trap (hw (mmio_write P 1 0xDEADBEEF e3))\<rparr>" call f3] assms(4)
    show ?thesis unfolding pre None by (auto simp: Let_def k)
  next
    case (Some h)
    have "\<forall>c \<in> {6, 7 :: u32}. c AND kInterruptBit = 0" by (simp add: kInterruptBit_def)
    from fatal_trap_record [OF assms(1,2) _ this, of "e3\<lparr>hw := h\<rparr>" call f3] assms(3) [OF Some]
    show ?thesis unfolding pre Some by (auto simp: k)
  qed
qed

theorem fault_test_reports_crash_witness:
  "\<exists>f' e'. fault_test_main no_callback sim_platform (\<lambda>a v h. Some (h\<lparr>csrs := (csrs h)(Mcause := 6, Mtval := a)\<rparr>))
     (\<lambda>h. h\<lparr>csrs := (csrs h)(Mcause := 2)\<rparr>) (firmware_static, sim_env) = Some (Halted, f', e')"
  using fault_test_reports_crash [OF sim.word_memory_axioms subset_UNIV,
      of "\<lambda>a v h. Some (h\<lparr>csrs := (csrs h)(Mcause := 6, Mtval := a)\<rparr>)" "\<lambda>h. h\<lparr>csrs := (csrs h)(Mcause := 2)\<rparr>"
      no_callback firmware_static sim_env]
  by (force simp: trapped_def)

end
