(* ===== verification/Imu_Demo.thy ===== *)
theory Imu_Demo
  imports Hal_Prelude
begin

text \<open>
  \<^verbatim>\<open>apps/linux_imu_demo/src/main.cpp\<close>: a host program with two threads that share one ring.  The main
  thread queues a request and then polls for replies for ever; the worker thread, which stands for
  the coprocessor, serves one request.  \<open>head\<close> and \<open>tail\<close> are shared by the requests and the
  replies.  The operations here are whole rounds of the threads; \<open>Imu_Threads\<close> has their single
  statements.  The banner that \<open>main\<close> prints first is left out; an array access out of range
  (never reached from the initial state) is undefined in the source and unspecified here.
\<close>

subsection \<open>Data\<close>

definition kRingCapacity :: u32 where
  "kRingCapacity = 16"

definition kPayloadBytes :: u32 where
  "kPayloadBytes = 32"

record ImuReadRequest =
  rq_msg_id :: u32
  rq_device_id :: u32
  rq_reg_addr :: u32
  rq_length :: u32
  rq_payload_slot :: u32
  rq_timestamp_us :: u32

record ImuReadReply =
  rp_msg_id :: u32
  rp_device_id :: u32
  rp_status :: u32
  rp_length :: u32
  rp_payload_slot :: u32
  rp_timestamp_us :: u32

definition ImuReadRequest_zero :: ImuReadRequest where
  "ImuReadRequest_zero = \<lparr>rq_msg_id = 0, rq_device_id = 0, rq_reg_addr = 0, rq_length = 0,
     rq_payload_slot = 0, rq_timestamp_us = 0\<rparr>"

definition ImuReadReply_zero :: ImuReadReply where
  "ImuReadReply_zero = \<lparr>rp_msg_id = 0, rp_device_id = 0, rp_status = 0, rp_length = 0,
     rp_payload_slot = 0, rp_timestamp_us = 0\<rparr>"

text \<open>The lines the program prints, with their arguments.\<close>

datatype demo_line =
    Ring_full
  | Issued u32 u32 u32 u32
  | Received ImuReadReply "u8 list"

record demo =
  dm_head :: u32
  dm_tail :: u32
  dm_requests :: "ImuReadRequest list"
  dm_replies :: "ImuReadReply list"
  dm_slots :: "u8 list list"
  dm_out :: "demo_line list"

definition demo_static :: demo where
  "demo_static =
     \<lparr>dm_head = 0, dm_tail = 0, dm_requests = replicate 16 ImuReadRequest_zero,
      dm_replies = replicate 16 ImuReadReply_zero, dm_slots = replicate 16 (replicate 32 0), dm_out = []\<rparr>"

subsection \<open>Operations\<close>

definition imu_payload :: "ImuReadRequest \<Rightarrow> u8 list" where
  "imu_payload req =
     [0x12, 0x34, 0x56, 0x78, ucast (rq_reg_addr req AND 0xFF), ucast (drop_bit 8 (rq_reg_addr req) AND 0xFF),
      0x01, 0x02] @ replicate 24 0"

definition imu_reply :: "ImuReadRequest \<Rightarrow> ImuReadReply" where
  "imu_reply req =
     \<lparr>rp_msg_id = rq_msg_id req, rp_device_id = rq_device_id req, rp_status = 0, rp_length = rq_length req,
      rp_payload_slot = rq_payload_slot req, rp_timestamp_us = rq_timestamp_us req\<rparr>"

definition simulate_riscv_io_processor :: "ImuReadRequest \<Rightarrow> demo \<Rightarrow> demo" where
  "simulate_riscv_io_processor req s =
     (let s1 = s\<lparr>dm_slots := (dm_slots s)[unat (rq_payload_slot req mod kRingCapacity) := imu_payload req]\<rparr>;
          tail = dm_tail s1;
          next = (tail + 1) mod kRingCapacity
      in s1\<lparr>dm_replies := (dm_replies s1)[unat tail := imu_reply req], dm_tail := next\<rparr>)"

definition enqueue_request :: "ImuReadRequest \<Rightarrow> demo \<Rightarrow> demo" where
  "enqueue_request req s =
     (let head = dm_head s; next = (head + 1) mod kRingCapacity
      in if next = dm_tail s then s\<lparr>dm_out := dm_out s @ [Ring_full]\<rparr>
         else s\<lparr>dm_requests := (dm_requests s)[unat head := req], dm_head := next,
                dm_out := dm_out s @ [Issued (rq_msg_id req) (rq_reg_addr req) (rq_length req) (rq_payload_slot req)]\<rparr>)"

text \<open>One round of \<^verbatim>\<open>read_reply_loop\<close>; with equal indices the thread sleeps and tries again.\<close>

definition read_reply :: "demo \<Rightarrow> demo" where
  "read_reply s =
     (let tail = dm_tail s; head = dm_head s
      in if tail = head then s
         else
           (let reply = dm_replies s ! unat tail;
                payload = dm_slots s ! unat (rp_payload_slot reply mod kRingCapacity)
            in s\<lparr>dm_out := dm_out s @ [Received reply (take 4 payload)],
                 dm_tail := (tail + 1) mod kRingCapacity\<rparr>))"

text \<open>The worker thread: one round.\<close>

definition io_worker :: "demo \<Rightarrow> demo" where
  "io_worker s =
     (let head = dm_head s; tail = dm_tail s
      in if head \<noteq> tail
         then (simulate_riscv_io_processor (dm_requests s ! unat tail) s)\<lparr>dm_head := (tail + 1) mod kRingCapacity\<rparr>
         else s)"

definition demo_request :: ImuReadRequest where
  "demo_request = \<lparr>rq_msg_id = 1, rq_device_id = 0x69, rq_reg_addr = 0x75, rq_length = 8,
     rq_payload_slot = 0, rq_timestamp_us = 123456\<rparr>"

text \<open>\<open>main\<close>: the request is queued, the main thread runs \<open>m\<close> rounds before the worker and \<open>n\<close> after it.\<close>

definition demo_main :: "nat \<Rightarrow> nat \<Rightarrow> demo" where
  "demo_main m n = (read_reply ^^ n) (io_worker ((read_reply ^^ m) (enqueue_request demo_request demo_static)))"

subsection \<open>Invariant\<close>

definition demo_inv :: "demo \<Rightarrow> bool" where
  "demo_inv s \<longleftrightarrow> dm_head s < 16 \<and> dm_tail s < 16 \<and> length (dm_requests s) = 16 \<and>
     length (dm_replies s) = 16 \<and> length (dm_slots s) = 16 \<and> (\<forall>b \<in> set (dm_slots s). length b = 32)"

definition pending_requests :: "demo \<Rightarrow> nat" where
  "pending_requests s = (unat (dm_head s) + 16 - unat (dm_tail s)) mod 16"

subsection \<open>Lemmas\<close>

lemma mod_16_less: "(x :: u32) mod 16 < 16"
  by (simp add: word_less_nat_alt unat_mod)

lemma unat_next: "x < 16 \<Longrightarrow> unat ((x + 1 :: u32) mod 16) = (unat x + 1) mod 16"
  by (simp add: unat_mod unat_word_ariths(1) word_less_nat_alt)

lemma length_imu_payload: "length (imu_payload req) = 32"
  by (simp add: imu_payload_def)

lemma demo_inv_static: "demo_inv demo_static"
  by (simp add: demo_inv_def demo_static_def)

lemma demo_inv_enqueue: "demo_inv s \<Longrightarrow> demo_inv (enqueue_request req s)"
  by (simp add: demo_inv_def enqueue_request_def Let_def kRingCapacity_def mod_16_less)

lemma demo_inv_read_reply: "demo_inv s \<Longrightarrow> demo_inv (read_reply s)"
  by (simp add: demo_inv_def read_reply_def Let_def kRingCapacity_def mod_16_less)

lemma demo_inv_simulate: "demo_inv s \<Longrightarrow> demo_inv (simulate_riscv_io_processor req s)"
  by (auto simp: demo_inv_def simulate_riscv_io_processor_def Let_def kRingCapacity_def mod_16_less
      length_imu_payload dest!: set_update_subset_insert [THEN subsetD])

lemma demo_inv_io_worker: "demo_inv s \<Longrightarrow> demo_inv (io_worker s)"
  using demo_inv_simulate [of s] by (auto simp: io_worker_def Let_def demo_inv_def kRingCapacity_def mod_16_less)

lemma read_reply_idle: "dm_tail s = dm_head s \<Longrightarrow> (read_reply ^^ n) s = s"
  by (induction n) (simp_all add: read_reply_def)

lemma rp_payload_slot_zero: "rp_payload_slot ImuReadReply_zero = 0"
  by (simp add: ImuReadReply_zero_def)

text \<open>The first round after the request takes the reply slot the worker has not filled.\<close>

lemma read_reply_early:
  "(read_reply ^^ Suc m) (enqueue_request demo_request demo_static) =
    (enqueue_request demo_request demo_static)\<lparr>dm_tail := 1,
      dm_out := [Issued 1 0x75 8 0, Received ImuReadReply_zero (replicate 4 0)]\<rparr>"
proof -
  have "read_reply (enqueue_request demo_request demo_static) =
    (enqueue_request demo_request demo_static)\<lparr>dm_tail := 1,
      dm_out := [Issued 1 0x75 8 0, Received ImuReadReply_zero (replicate 4 0)]\<rparr>" (is "?l = ?r")
    by (simp add: read_reply_def enqueue_request_def demo_request_def demo_static_def kRingCapacity_def rp_payload_slot_zero)
  moreover have "dm_tail ?r = dm_head ?r"
    by (simp add: enqueue_request_def demo_request_def demo_static_def kRingCapacity_def)
  ultimately show ?thesis by (simp only: funpow_Suc_right o_apply read_reply_idle)
qed

lemma io_worker_first:
  "dm_tail (io_worker (enqueue_request demo_request demo_static)) = 1"
  "dm_head (io_worker (enqueue_request demo_request demo_static)) = 1"
  "dm_out (io_worker (enqueue_request demo_request demo_static)) = [Issued 1 0x75 8 0]"
  by (simp_all add: io_worker_def simulate_riscv_io_processor_def enqueue_request_def demo_request_def
      demo_static_def kRingCapacity_def)

lemma next_cases: "h < 16 \<Longrightarrow> (h + 1) mod 16 = (if h = 15 then 0 else h + 1 :: nat)"
  by auto

lemma pending_cases:
  assumes "unat (dm_head s) < 16" and "unat (dm_tail s) < 16"
  shows "pending_requests s = (if unat (dm_tail s) \<le> unat (dm_head s) then unat (dm_head s) - unat (dm_tail s)
    else unat (dm_head s) + 16 - unat (dm_tail s))"
proof (cases "unat (dm_tail s) \<le> unat (dm_head s)")
  case True
  then have "unat (dm_head s) + 16 - unat (dm_tail s) = unat (dm_head s) - unat (dm_tail s) + 16" by simp
  then have "pending_requests s = (unat (dm_head s) - unat (dm_tail s)) mod 16"
    by (simp only: pending_requests_def mod_add_self2)
  with True assms show ?thesis by simp
next
  case False
  with assms show ?thesis by (simp add: pending_requests_def)
qed

subsection \<open>Properties\<close>

text \<open>The reply of the demo never reaches the reader: both sides use the same tail index, so when the
  worker runs before the reader has looked, it advances the tail past its own reply and the reader
  sees an empty ring for ever; when the reader looks first, it prints a zero reply from a slot nobody
  has written, and the worker finds nothing to do.  In no order of
  whole rounds is the reply with message number 1 received.  (\<open>Imu_Threads\<close> has the interleavings
  of single statements, in some of which it is.)\<close>

theorem imu_demo_loses_reply:
  "dm_out (demo_main 0 n) = [Issued 1 0x75 8 0] \<and>
   dm_out (demo_main (Suc m) n) = [Issued 1 0x75 8 0, Received ImuReadReply_zero (replicate 4 0)] \<and>
   dm_replies (demo_main 0 n) ! 0 = imu_reply demo_request"
proof -
  let ?s = "enqueue_request demo_request demo_static"
  have "demo_main 0 n = io_worker ?s"
    using read_reply_idle [of "io_worker ?s" n] by (simp add: demo_main_def io_worker_first)
  moreover have "dm_replies (io_worker ?s) ! 0 = imu_reply demo_request"
    by (simp add: io_worker_def simulate_riscv_io_processor_def enqueue_request_def demo_request_def
      demo_static_def kRingCapacity_def imu_reply_def)
  moreover have "demo_main (Suc m) n = ?s\<lparr>dm_tail := 1, dm_out := [Issued 1 0x75 8 0, Received ImuReadReply_zero (replicate 4 0)]\<rparr>"
  proof -
    let ?r = "?s\<lparr>dm_tail := 1, dm_out := [Issued 1 0x75 8 0, Received ImuReadReply_zero (replicate 4 0)]\<rparr>"
    have idle: "dm_tail ?r = dm_head ?r"
      by (simp add: enqueue_request_def demo_request_def demo_static_def kRingCapacity_def)
    then have "io_worker ?r = ?r" by (simp add: io_worker_def)
    then show ?thesis unfolding demo_main_def read_reply_early using read_reply_idle [OF idle] by simp
  qed
  ultimately show ?thesis by (simp add: io_worker_first)
qed

text \<open>The ring never overflows and its indices stay in range: every operation keeps the invariant; a
  request is stored and counted exactly when fewer than 15 are pending, and otherwise only the
  message about the full ring is printed.\<close>

theorem imu_ring_bounded:
  assumes "demo_inv s"
  shows "demo_inv (enqueue_request req s) \<and> demo_inv (read_reply s) \<and> demo_inv (io_worker s) \<and>
    (if pending_requests s < 15
     then pending_requests (enqueue_request req s) = pending_requests s + 1 \<and>
       dm_requests (enqueue_request req s) ! unat (dm_head s) = req
     else enqueue_request req s = s\<lparr>dm_out := dm_out s @ [Ring_full]\<rparr>)"
proof -
  let ?h = "unat (dm_head s)" and ?t = "unat (dm_tail s)"
  have b: "?h < 16" "?t < 16" and len: "length (dm_requests s) = 16" and h: "dm_head s < 16"
    using assms by (simp_all add: demo_inv_def word_less_nat_alt)
  have full: "(dm_head s + 1) mod 16 = dm_tail s \<longleftrightarrow> (?h + 1) mod 16 = ?t"
    using unat_next [OF h] by (simp add: word_unat_eq_iff)
  have p: "(?h + 1) mod 16 = ?t \<longleftrightarrow> pending_requests s = 15" and lt: "pending_requests s < 16"
    using b pending_cases [of s] next_cases [OF b(1)] by (auto split: if_splits)
  have "pending_requests (enqueue_request req s) = pending_requests s + 1" if "pending_requests s < 15"
  proof -
    let ?s = "enqueue_request req s"
    have i: "unat (dm_head ?s) = (?h + 1) mod 16" "dm_tail ?s = dm_tail s"
      using that full p unat_next [OF h] by (simp_all add: enqueue_request_def Let_def kRingCapacity_def)
    have "pending_requests ?s = (if ?t \<le> (?h + 1) mod 16 then (?h + 1) mod 16 - ?t else (?h + 1) mod 16 + 16 - ?t)"
      using pending_cases [of ?s] b i by simp
    then show ?thesis using that b pending_cases [of s] next_cases [OF b(1)] by (auto split: if_splits)
  qed
  moreover have "dm_requests (enqueue_request req s) ! ?h = req" if "pending_requests s < 15"
    using that full p b len by (simp add: enqueue_request_def Let_def kRingCapacity_def)
  moreover have "enqueue_request req s = s\<lparr>dm_out := dm_out s @ [Ring_full]\<rparr>" if "\<not> pending_requests s < 15"
    using that full p lt by (simp add: enqueue_request_def Let_def kRingCapacity_def)
  ultimately show ?thesis
    using assms demo_inv_enqueue [of s] demo_inv_read_reply [of s] demo_inv_io_worker [of s] by simp
qed

theorem imu_ring_bounded_witness:
  "pending_requests (enqueue_request demo_request demo_static) = 1"
  using imu_ring_bounded [OF demo_inv_static, of demo_request]
  by (simp add: pending_requests_def demo_static_def)

end
