(* ===== verification/Imu_Threads.thy ===== *)
theory Imu_Threads
  imports Imu_Demo
begin

text \<open>
  The two threads of \<^verbatim>\<open>apps/linux_imu_demo/src/main.cpp\<close> statement by statement.  Each load and store of the
  shared indices, of a ring entry and of a payload byte is one step; the copy of a ring entry, the
  \<^verbatim>\<open>memset\<close> and the formatted output are one step each.  A run is any interleaving of the steps of the
  reader, which never ends, with those of the worker.
\<close>

subsection \<open>Threads\<close>

text \<open>The next statement of a thread, with its local variables.\<close>

datatype reader =
    R_tail
  | R_head u32
  | R_reply u32
  | R_print u32 ImuReadReply
  | R_store u32

datatype worker =
    W_head
  | W_tail u32
  | W_queued u32
  | W_memset u32 ImuReadRequest
  | W_byte nat u32 ImuReadRequest
  | W_load_tail u32 ImuReadRequest
  | W_reply u32 ImuReadRequest u32
  | W_store_tail u32 u32
  | W_publish u32
  | W_done

fun reader_step :: "reader \<Rightarrow> demo \<Rightarrow> reader \<times> demo" where
  "reader_step R_tail s = (R_head (dm_tail s), s)"
| "reader_step (R_head tail) s = (if tail = dm_head s then (R_tail, s) else (R_reply tail, s))"
| "reader_step (R_reply tail) s = (R_print tail (dm_replies s ! unat tail), s)"
| "reader_step (R_print tail reply) s =
     (R_store tail,
      s\<lparr>dm_out := dm_out s @ [Received reply (take 4 (dm_slots s ! unat (rp_payload_slot reply mod kRingCapacity)))]\<rparr>)"
| "reader_step (R_store tail) s = (R_tail, s\<lparr>dm_tail := (tail + 1) mod kRingCapacity\<rparr>)"

definition set_payload :: "ImuReadRequest \<Rightarrow> (u8 list \<Rightarrow> u8 list) \<Rightarrow> demo \<Rightarrow> demo" where
  "set_payload req f s =
     (let i = unat (rq_payload_slot req mod kRingCapacity) in s\<lparr>dm_slots := (dm_slots s)[i := f (dm_slots s ! i)]\<rparr>)"

fun worker_step :: "worker \<Rightarrow> demo \<Rightarrow> worker \<times> demo" where
  "worker_step W_head s = (W_tail (dm_head s), s)"
| "worker_step (W_tail head) s = (if head \<noteq> dm_tail s then W_queued (dm_tail s) else W_done, s)"
| "worker_step (W_queued tail) s = (W_memset tail (dm_requests s ! unat tail), s)"
| "worker_step (W_memset tail req) s = (W_byte 0 tail req, set_payload req (\<lambda>slot. replicate (length slot) 0) s)"
| "worker_step (W_byte i tail req) s =
     (if i < 8 then (W_byte (Suc i) tail req, set_payload req (\<lambda>slot. slot[i := imu_payload req ! i]) s)
      else (W_load_tail tail req, s))"
| "worker_step (W_load_tail tail req) s = (W_reply tail req (dm_tail s), s)"
| "worker_step (W_reply tail req t) s = (W_store_tail tail t, s\<lparr>dm_replies := (dm_replies s)[unat t := imu_reply req]\<rparr>)"
| "worker_step (W_store_tail tail t) s = (W_publish tail, s\<lparr>dm_tail := (t + 1) mod kRingCapacity\<rparr>)"
| "worker_step (W_publish tail) s = (W_done, s\<lparr>dm_head := (tail + 1) mod kRingCapacity\<rparr>)"
| "worker_step W_done s = (W_done, s)"

type_synonym demo_threads = "reader \<times> worker \<times> demo"

inductive demo_step :: "demo_threads \<Rightarrow> demo_threads \<Rightarrow> bool" where
  reader: "reader_step r s = (r', s') \<Longrightarrow> demo_step (r, w, s) (r', w, s')"
| worker: "worker_step w s = (w', s') \<Longrightarrow> demo_step (r, w, s) (r, w', s')"

text \<open>\<open>main\<close> has queued the request and started the worker.\<close>

definition demo_start :: demo_threads where
  "demo_start = (R_tail, W_head, enqueue_request demo_request demo_static)"

text \<open>A run by a schedule: \<open>True\<close> is a step of the reader.\<close>

fun demo_run :: "bool list \<Rightarrow> demo_threads \<Rightarrow> demo_threads" where
  "demo_run [] x = x"
| "demo_run (b # bs) (r, w, s) =
     demo_run bs (if b then (let (r', s') = reader_step r s in (r', w, s'))
       else (let (w', s') = worker_step w s in (r, w', s')))"

fun received :: "demo_line list \<Rightarrow> ImuReadReply list" where
  "received [] = []"
| "received (Received reply bs # ls) = reply # received ls"
| "received (l # ls) = received ls"

subsection \<open>Invariant\<close>

abbreviation the_reply :: ImuReadReply where
  "the_reply \<equiv> imu_reply demo_request"

abbreviation no_replies :: "ImuReadReply list" where
  "no_replies \<equiv> replicate 16 ImuReadReply_zero"

text \<open>The worker before its store of the tail: its variables and the reply entries.\<close>

fun worker_ok :: "worker \<Rightarrow> u32 \<Rightarrow> bool" where
  "worker_ok (W_tail head) tail = (head = 1)"
| "worker_ok (W_queued t) tail = (t = 0)"
| "worker_ok (W_memset t req) tail = (t = 0 \<and> req = demo_request)"
| "worker_ok (W_byte i t req) tail = (i \<le> 8 \<and> t = 0 \<and> req = demo_request)"
| "worker_ok (W_load_tail t req) tail = (t = 0 \<and> req = demo_request)"
| "worker_ok (W_reply t req t') tail = (t = 0 \<and> req = demo_request \<and> (t' = 0 \<or> t' = 1 \<and> tail = 1))"
| "worker_ok (W_store_tail t t') tail = (t = 0 \<and> (t' = 0 \<or> t' = 1 \<and> tail = 1))"
| "worker_ok W_head tail = True"
| "worker_ok (W_publish t) tail = False"
| "worker_ok W_done tail = False"

definition replies_before :: "worker \<Rightarrow> ImuReadReply list" where
  "replies_before w = (case w of W_store_tail t t' \<Rightarrow> no_replies[unat t' := the_reply] | _ \<Rightarrow> no_replies)"

text \<open>The payload while the worker is at a statement.\<close>

fun payload_ok :: "worker \<Rightarrow> u8 list \<Rightarrow> bool" where
  "payload_ok (W_byte i t req) slot = (take i slot = take i (imu_payload demo_request) \<and> drop 8 slot = replicate 24 0)"
| "payload_ok (W_load_tail t req) slot = (slot = imu_payload demo_request)"
| "payload_ok (W_reply t req t') slot = (slot = imu_payload demo_request)"
| "payload_ok (W_store_tail t t') slot = (slot = imu_payload demo_request)"
| "payload_ok (W_publish t) slot = (slot = imu_payload demo_request)"
| "payload_ok _ slot = True"

definition line_ok :: "demo_line \<Rightarrow> bool" where
  "line_ok l = (case l of Received reply bs \<Rightarrow>
     length bs = 4 \<and> (reply = ImuReadReply_zero \<or> reply = the_reply \<and> bs = [0x12, 0x34, 0x56, 0x78]) | _ \<Rightarrow> True)"

text \<open>The reader while the tail is the one it has read, and after the worker has moved it from 0 to 1.\<close>

fun reader_first :: "reader \<Rightarrow> ImuReadReply list \<Rightarrow> (ImuReadReply \<Rightarrow> bool) \<Rightarrow> bool" where
  "reader_first R_tail got ok = (got = [])"
| "reader_first (R_head t) got ok = (t = 0 \<and> got = [])"
| "reader_first (R_reply t) got ok = (t = 0 \<and> got = [])"
| "reader_first (R_print t reply) got ok = (t = 0 \<and> got = [] \<and> ok reply)"
| "reader_first (R_store t) got ok = (t = 0 \<and> (\<exists>reply. got = [reply] \<and> ok reply))"

fun reader_idle :: "reader \<Rightarrow> bool" where
  "reader_idle R_tail = True"
| "reader_idle (R_head t) = (t = 1)"
| "reader_idle _ = False"

text \<open>The reader on its way round the ring, after the worker has moved the tail from 1 to 2.\<close>

definition rounds :: "u32 \<Rightarrow> nat" where
  "rounds tail = 1 + (unat tail + 14) mod 16"

fun reader_round :: "reader \<Rightarrow> u32 \<Rightarrow> ImuReadReply list \<Rightarrow> bool" where
  "reader_round R_tail tail got = (got = replicate (rounds tail) ImuReadReply_zero)"
| "reader_round (R_head t) tail got = ((t = tail \<or> t = 1) \<and> got = replicate (rounds tail) ImuReadReply_zero)"
| "reader_round (R_reply t) tail got = (t = tail \<and> t \<noteq> 1 \<and> got = replicate (rounds tail) ImuReadReply_zero)"
| "reader_round (R_print t reply) tail got =
     (t = tail \<and> t \<noteq> 1 \<and> reply = ImuReadReply_zero \<and> got = replicate (rounds tail) ImuReadReply_zero)"
| "reader_round (R_store t) tail got = (t = tail \<and> t \<noteq> 1 \<and> got = replicate (Suc (rounds tail)) ImuReadReply_zero)"

definition good_before :: "worker \<Rightarrow> ImuReadReply \<Rightarrow> bool" where
  "good_before w reply \<longleftrightarrow> reply = ImuReadReply_zero \<or> reply = the_reply \<and> (\<exists>t. w = W_store_tail t 0)"

definition good_after :: "ImuReadReply \<Rightarrow> bool" where
  "good_after reply \<longleftrightarrow> reply = ImuReadReply_zero \<or> reply = the_reply"

definition phase_before :: "demo_threads \<Rightarrow> bool" where
  "phase_before x =
     (case x of (r, w, s) \<Rightarrow>
        worker_ok w (dm_tail s) \<and> dm_replies s = replies_before w \<and> payload_ok w (dm_slots s ! 0) \<and>
        (dm_tail s = 0 \<and> reader_first r (received (dm_out s)) (good_before w) \<or>
         dm_tail s = 1 \<and> reader_idle r \<and> (\<exists>reply. received (dm_out s) = [reply] \<and> good_before w reply)))"

definition phase_served :: "demo_threads \<Rightarrow> bool" where
  "phase_served x =
     (case x of (r, w, s) \<Rightarrow>
        (w = W_publish 0 \<or> w = W_done) \<and> dm_tail s = 1 \<and>
        (dm_replies s = no_replies \<or>
         dm_replies s = no_replies[0 := the_reply] \<and> dm_slots s ! 0 = imu_payload demo_request) \<and>
        (reader_first r (received (dm_out s)) good_after \<or>
         reader_idle r \<and> (received (dm_out s) = [] \<or> (\<exists>reply. received (dm_out s) = [reply] \<and> good_after reply))))"

definition phase_round :: "demo_threads \<Rightarrow> bool" where
  "phase_round x =
     (case x of (r, w, s) \<Rightarrow>
        (w = W_publish 0 \<or> w = W_done) \<and> dm_replies s = no_replies[1 := the_reply] \<and>
        reader_round r (dm_tail s) (received (dm_out s)))"

definition common :: "demo_threads \<Rightarrow> bool" where
  "common x =
     (case x of (r, w, s) \<Rightarrow>
        demo_inv s \<and> dm_head s = 1 \<and> dm_requests s ! 0 = demo_request \<and> list_all line_ok (dm_out s) \<and>
        (\<forall>t. r = R_print t the_reply \<longrightarrow> dm_slots s ! 0 = imu_payload demo_request))"

definition threads_inv :: "demo_threads \<Rightarrow> bool" where
  "threads_inv x \<longleftrightarrow> common x \<and> (phase_before x \<or> phase_served x \<or> phase_round x)"

subsection \<open>Lemmas\<close>

lemma received_append: "received (ls @ ls') = received ls @ received ls'"
  by (induction ls rule: received.induct) simp_all

lemma the_reply_slot [simp]: "rp_payload_slot the_reply = 0" "the_reply \<noteq> ImuReadReply_zero" "ImuReadReply_zero \<noteq> the_reply"
  by (simp_all add: imu_reply_def demo_request_def ImuReadReply_zero_def)

lemma demo_request_slot [simp]: "rq_payload_slot demo_request = 0"
  by (simp add: demo_request_def)

lemma good_slot: "good_after reply \<Longrightarrow> rp_payload_slot reply = 0"
  by (auto simp: good_after_def rp_payload_slot_zero)

lemma threads_inv_start: "threads_inv demo_start"
  by (simp add: threads_inv_def common_def phase_before_def demo_start_def enqueue_request_def demo_static_def
      demo_inv_def kRingCapacity_def replies_before_def line_ok_def demo_request_def)

lemma rounds_next:
  assumes "t < 16" and "t \<noteq> (1 :: u32)"
  shows "rounds ((t + 1) mod 16) = Suc (rounds t)"
proof -
  have t: "unat t < 16" "unat t \<noteq> 1" using assms by (simp_all add: word_less_nat_alt word_unat_eq_iff)
  then show ?thesis
    unfolding rounds_def unat_next [OF assms(1)] using less_16_cases [OF t(1)] t(2)
    by (elim disjE) simp_all
qed

lemma rounds_bound: "rounds t \<le> 16"
  by (simp add: rounds_def)


lemma replies_before_0: "worker_ok w 0 \<Longrightarrow> good_before w (replies_before w ! 0)"
  by (cases w) (auto simp: replies_before_def good_before_def)

lemma worker_ok_later: "worker_ok w 0 \<Longrightarrow> worker_ok w 1"
  by (cases w) auto

text \<open>A complete reply in the ring means a complete payload.\<close>

lemma payload_before:
  "worker_ok w tail \<Longrightarrow> payload_ok w slot \<Longrightarrow> replies_before w ! 0 = the_reply \<Longrightarrow> slot = imu_payload demo_request"
  using the_reply_slot(2) by (cases w) (auto simp: replies_before_def)

lemma reader_before:
  assumes "common (r, w, s)" and "phase_before (r, w, s)" and "reader_step r s = (r', s')"
  shows "phase_before (r', w, s')"
proof (cases r)
  case (R_reply t)
  then show ?thesis
    using assms(2,3) replies_before_0 [of w] by (auto simp: phase_before_def)
qed (use assms worker_ok_later [of w] in \<open>auto simp: phase_before_def common_def received_append kRingCapacity_def split: if_splits\<close>)

lemma reader_served:
  assumes "common (r, w, s)" and "phase_served (r, w, s)" and "reader_step r s = (r', s')"
  shows "phase_served (r', w, s')"
  using assms
  by (cases r) (auto simp: phase_served_def common_def received_append kRingCapacity_def good_after_def split: if_splits)

lemma other_entries: "t < 16 \<Longrightarrow> t \<noteq> (1 :: u32) \<Longrightarrow> no_replies[1 := the_reply] ! unat t = ImuReadReply_zero"
  by (simp add: nth_list_update word_less_nat_alt word_unat_eq_iff)

lemma reader_on_round:
  assumes "common (r, w, s)" and "phase_round (r, w, s)" and "reader_step r s = (r', s')"
  shows "phase_round (r', w, s')"
proof -
  have t: "dm_tail s < 16" using assms(1) by (simp add: common_def demo_inv_def)
  show ?thesis
    using assms rounds_next [OF t] other_entries [OF t]
    by (cases r) (auto simp: phase_round_def common_def received_append kRingCapacity_def replicate_append_same
        split: if_splits)
qed

lemma reader_common:
  assumes "common (r, w, s)" and "phase_before (r, w, s) \<or> phase_served (r, w, s) \<or> phase_round (r, w, s)"
    and "reader_step r s = (r', s')"
  shows "common (r', w, s')"
proof (cases r)
  case (R_reply t)
  have "dm_tail s < 16" using assms(1) by (simp add: common_def demo_inv_def)
  then have "dm_slots s ! 0 = imu_payload demo_request" if "dm_replies s ! unat t = the_reply"
    using assms(2) that R_reply payload_before [of w] other_entries [of t] the_reply_slot(2)
    by (auto simp: phase_before_def phase_served_def phase_round_def)
  then show ?thesis using assms(1,3) R_reply by (auto simp: common_def)
next
  case (R_print t reply)
  have "length (dm_slots s ! 0) = 32" using assms(1) by (auto simp: common_def demo_inv_def)
  moreover have "good_after reply"
    using assms(2) R_print
    by (auto simp: phase_before_def phase_served_def phase_round_def good_before_def good_after_def)
  ultimately have "line_ok (Received reply (take 4 (dm_slots s ! unat (rp_payload_slot reply mod kRingCapacity))))"
    using assms(1) R_print
    by (auto simp: common_def line_ok_def good_after_def rp_payload_slot_zero kRingCapacity_def imu_payload_def)
  then show ?thesis using assms(1,3) R_print by (auto simp: common_def demo_inv_def)
qed (use assms in \<open>auto simp: common_def demo_inv_def kRingCapacity_def mod_16_less split: if_splits\<close>)

lemma set_payload_keeps [simp]:
  "dm_head (set_payload req f s) = dm_head s" "dm_tail (set_payload req f s) = dm_tail s"
  "dm_requests (set_payload req f s) = dm_requests s" "dm_replies (set_payload req f s) = dm_replies s"
  "dm_out (set_payload req f s) = dm_out s"
  by (simp_all add: set_payload_def Let_def)

lemma set_payload_slot:
  "length (dm_slots s) = 16 \<Longrightarrow> dm_slots (set_payload demo_request f s) ! 0 = f (dm_slots s ! 0)"
  by (simp add: set_payload_def kRingCapacity_def)

lemma payload_step:
  assumes "length slot = 32" and "i < 8" and "take i slot = take i (imu_payload demo_request)" and "drop 8 slot = replicate 24 0"
  shows "take (Suc i) (slot[i := imu_payload demo_request ! i]) = take (Suc i) (imu_payload demo_request)"
    and "drop 8 (slot[i := imu_payload demo_request ! i]) = replicate 24 0"
  using assms by (simp_all add: take_Suc_conv_app_nth take_update_cancel length_imu_payload)

lemma payload_complete:
  "take 8 slot = take 8 (imu_payload demo_request) \<Longrightarrow> drop 8 slot = replicate 24 0 \<Longrightarrow> slot = imu_payload demo_request"
  using append_take_drop_id [of 8 slot] by (simp add: imu_payload_def)

lemma reader_first_mono:
  "reader_first r got ok \<Longrightarrow> (\<And>x. ok x \<Longrightarrow> ok' x) \<Longrightarrow> reader_first r got ok'"
  by (cases r) auto

lemma before_keep:
  assumes "phase_before (r, w, s)" and "\<And>t t'. w \<noteq> W_store_tail t t'" and "worker_ok w' (dm_tail s)"
    and "dm_replies s' = replies_before w'" and "payload_ok w' (dm_slots s' ! 0)"
    and "dm_tail s' = dm_tail s" and "dm_out s' = dm_out s"
  shows "phase_before (r, w', s')"
proof -
  have "good_before w x \<Longrightarrow> good_before w' x" for x using assms(2) by (auto simp: good_before_def)
  then show ?thesis
    using assms(1,3-) reader_first_mono [of r _ "good_before w" "good_before w'"] by (auto simp: phase_before_def)
qed

text \<open>The store of the tail ends the first phase.\<close>

lemma worker_moves_tail:
  assumes "common (r, W_store_tail t t', s)" and "phase_before (r, W_store_tail t t', s)"
    and "worker_step (W_store_tail t t') s = (w', s')"
  shows "phase_served (r, w', s') \<or> phase_round (r, w', s')"
proof (cases "t' = 0")
  case True
  have "good_before (W_store_tail t t') x \<Longrightarrow> good_after x" for x by (auto simp: good_before_def good_after_def)
  then have "phase_served (r, w', s')"
    using True assms(2,3) reader_first_mono [of r _ "good_before (W_store_tail t t')" good_after]
    by (auto simp: phase_before_def phase_served_def replies_before_def kRingCapacity_def)
  then show ?thesis by simp
next
  case False
  then have "t' = 1" "dm_tail s = 1" "reader_idle r" "received (dm_out s) = [ImuReadReply_zero]"
    "dm_replies s = no_replies[1 := the_reply]" "t = 0"
    using assms(2) by (auto simp: phase_before_def replies_before_def good_before_def)
  then have "phase_round (r, w', s')"
    using assms(3) by (cases r) (auto simp: phase_round_def rounds_def kRingCapacity_def)
  then show ?thesis by simp
qed

lemma worker_before:
  assumes "common (r, w, s)" and "phase_before (r, w, s)" and "worker_step w s = (w', s')"
  shows "phase_before (r, w', s') \<or> phase_served (r, w', s') \<or> phase_round (r, w', s')"
proof -
  have ok: "worker_ok w (dm_tail s)" "dm_replies s = replies_before w" "payload_ok w (dm_slots s ! 0)"
    "dm_tail s = 0 \<or> dm_tail s = 1"
    using assms(2) by (auto simp: phase_before_def)
  have base: "dm_head s = 1" "dm_requests s ! 0 = demo_request" "length (dm_slots s) = 16" "length (dm_slots s ! 0) = 32"
    using assms(1) by (auto simp: common_def demo_inv_def)
  note slot = set_payload_slot [OF base(3)]
  note keep = before_keep [OF assms(2), of w' s']
  show ?thesis
  proof (cases w)
    case (W_tail head)
    show ?thesis
    proof (cases "dm_tail s = 0")
      case False
      then have "phase_served (r, w', s')"
        using W_tail assms(2,3) ok
        by (auto simp: phase_before_def phase_served_def replies_before_def good_before_def good_after_def)
      then show ?thesis by simp
    qed (use W_tail assms(3) ok in \<open>intro disjI1 keep; auto simp: replies_before_def\<close>)
  next
    case (W_byte i t req)
    have done8: "dm_slots s ! 0 = imu_payload demo_request" if "\<not> i < 8"
      using W_byte ok that payload_complete [of "dm_slots s ! 0"] by auto
    show ?thesis
      using W_byte assms(3) ok slot payload_step [OF base(4), of i] done8
      by (intro disjI1 keep) (auto simp: replies_before_def split: if_splits)
  next
    case (W_store_tail t t')
    then show ?thesis using worker_moves_tail assms ok by blast
  qed (use ok assms(3) base slot in \<open>(intro disjI1 keep; auto simp: replies_before_def)+\<close>)
qed

lemma set_payload_inv:
  assumes "demo_inv s" and "\<And>slot. length slot = 32 \<Longrightarrow> length (f slot) = 32"
  shows "demo_inv (set_payload req f s)"
proof -
  have "unat (rq_payload_slot req mod 16) < 16" using mod_16_less [of "rq_payload_slot req"] by (simp add: word_less_nat_alt)
  then show ?thesis
    using assms by (auto simp: demo_inv_def set_payload_def kRingCapacity_def Let_def
        dest!: set_update_subset_insert [THEN subsetD])
qed

lemma worker_common:
  assumes "common (r, w, s)" and "phase_before (r, w, s) \<or> phase_served (r, w, s) \<or> phase_round (r, w, s)"
    and "worker_step w s = (w', s')"
  shows "common (r, w', s')"
proof -
  have inv: "demo_inv s" using assms(1) by (simp add: common_def)
  have early: "r \<noteq> R_print t the_reply" if "\<And>t t'. w \<noteq> W_store_tail t t'" "w \<noteq> W_publish 0" "w \<noteq> W_done" for t
    using assms(2) that by (auto simp: phase_before_def phase_served_def phase_round_def good_before_def)
  show ?thesis
  proof (cases w)
    case (W_memset t req)
    then show ?thesis using assms(1,3) early set_payload_inv [OF inv] by (auto simp: common_def)
  next
    case (W_byte i t req)
    then show ?thesis
      using assms(1,3) early set_payload_inv [OF inv] by (auto simp: common_def split: if_splits)
  next
    case (W_publish t)
    then have "t = 0" using assms(2) by (auto simp: phase_before_def phase_served_def phase_round_def)
    then show ?thesis using assms(1,3) W_publish by (auto simp: common_def demo_inv_def kRingCapacity_def)
  qed (use assms(1,3) in \<open>auto simp: common_def demo_inv_def kRingCapacity_def mod_16_less\<close>)
qed

lemma threads_inv_step:
  assumes "demo_step x y" and "threads_inv x"
  shows "threads_inv y"
  using assms(1)
proof cases
  case (reader r s r' s' w)
  then show ?thesis
    using assms(2) reader_common [of r w s r' s'] reader_before [of r w s r' s'] reader_served [of r w s r' s']
      reader_on_round [of r w s r' s'] by (auto simp: threads_inv_def)
next
  case (worker w s w' s' r)
  have late: "phase_served (r, w', s')" if "phase_served (r, w, s)"
    using that worker(3) assms(2) worker(1) by (auto simp: phase_served_def)
  have late': "phase_round (r, w', s')" if "phase_round (r, w, s)"
    using that worker(3) by (auto simp: phase_round_def)
  show ?thesis
    using assms(2) worker worker_common [of r w s w' s'] worker_before [of r w s w' s'] late late'
    by (auto simp: threads_inv_def)
qed

lemma threads_inv_reachable: "demo_step\<^sup>*\<^sup>* demo_start x \<Longrightarrow> threads_inv x"
  by (induction rule: rtranclp_induct) (auto intro: threads_inv_start threads_inv_step)

lemma demo_run_reachable: "demo_step\<^sup>*\<^sup>* x (demo_run bs x)"
proof (induction bs x rule: demo_run.induct)
  case (2 b bs r w s)
  let ?y = "if b then (let (r', s') = reader_step r s in (r', w, s')) else (let (w', s') = worker_step w s in (r, w', s'))"
  have "demo_step (r, w, s) ?y"
    by (cases "reader_step r s"; cases "worker_step w s") (auto intro: demo_step.intros)
  with 2 show ?case by (auto intro: converse_rtranclp_into_rtranclp)
qed simp

lemma outcome_reachable:
  assumes "received (dm_out (snd (snd (demo_run bs demo_start)))) = ls"
  shows "\<exists>r w s. demo_step\<^sup>*\<^sup>* demo_start (r, w, s) \<and> received (dm_out s) = ls"
proof -
  obtain r w s where x: "demo_run bs demo_start = (r, w, s)" by (metis prod.exhaust)
  then show ?thesis using assms demo_run_reachable [of demo_start bs] by auto
qed

text \<open>A run in which the reply arrives and one in which the reader goes round the whole ring.\<close>

lemma lucky_run:
  "received (dm_out (snd (snd (demo_run ([True, True] @ replicate 17 False @ [True, True, True]) demo_start)))) =
    [the_reply]"
  by code_simp

lemma unlucky_run:
  "received (dm_out (snd (snd (demo_run ([False, False] @ replicate 5 True @ replicate 15 False @ replicate 75 True)
      demo_start)))) = replicate 16 ImuReadReply_zero"
  by code_simp

text \<open>The rounds of the model with whole rounds are runs of these steps without a switch of the thread.\<close>

lemma reader_round_is_run:
  assumes "reader_step R_tail s = (r1, s1)" and "reader_step r1 s1 = (r2, s2)"
  shows "if dm_tail s = dm_head s then (r2, s2) = (R_tail, read_reply s)
    else \<exists>r3 s3 r4 s4. reader_step r2 s2 = (r3, s3) \<and> reader_step r3 s3 = (r4, s4) \<and>
      reader_step r4 s4 = (R_tail, read_reply s)"
  using assms by (auto simp: read_reply_def Let_def)

lemma outcome_of_round:
  assumes "threads_inv (r, w, s)" and "phase_round (r, w, s)"
  shows "length (received (dm_out s)) \<le> 16 \<and> set (received (dm_out s)) \<subseteq> {ImuReadReply_zero}"
proof -
  have t: "dm_tail s < 16" using assms(1) by (simp add: threads_inv_def common_def demo_inv_def)
  have "Suc (rounds (dm_tail s)) \<le> 16" if "dm_tail s \<noteq> 1"
    using rounds_next [OF t that] rounds_bound [of "(dm_tail s + 1) mod 16"] by simp
  then show ?thesis using assms(2) rounds_bound [of "dm_tail s"] by (cases r) (auto simp: phase_round_def)
qed

subsection \<open>Properties\<close>

text \<open>C40. The demo, statement by statement: in every interleaving of the two threads the indices stay inside
  the ring, and the reader prints either exactly the reply to the request, with the bytes of its
  payload, or only zero replies from entries nobody has written, at most sixteen of them, or nothing.
  Both extremes occur: the reply arrives when the reader has read the indices before the worker moves
  the tail; and when the worker reads the tail before and after a round of the reader, the tail overtakes
  the head and the reader goes round the whole ring.\<close>

theorem imu_demo_outcomes:
  assumes "demo_step\<^sup>*\<^sup>* demo_start (r, w, s)"
  shows "demo_inv s \<and>
    (received (dm_out s) = [imu_reply demo_request] \<or>
     length (received (dm_out s)) \<le> 16 \<and> set (received (dm_out s)) \<subseteq> {ImuReadReply_zero}) \<and>
    (\<forall>bs. Received (imu_reply demo_request) bs \<in> set (dm_out s) \<longrightarrow> bs = [0x12, 0x34, 0x56, 0x78]) \<and>
    (\<exists>r w s. demo_step\<^sup>*\<^sup>* demo_start (r, w, s) \<and> received (dm_out s) = [imu_reply demo_request]) \<and>
    (\<exists>r w s. demo_step\<^sup>*\<^sup>* demo_start (r, w, s) \<and> received (dm_out s) = replicate 16 ImuReadReply_zero)"
proof -
  have inv: "threads_inv (r, w, s)" by (rule threads_inv_reachable [OF assms])
  have small: "reader_first r got ok \<Longrightarrow> got = [] \<or> (\<exists>x. got = [x] \<and> ok x)" for got ok by (cases r) auto
  have "received (dm_out s) = [the_reply] \<or>
      length (received (dm_out s)) \<le> 16 \<and> set (received (dm_out s)) \<subseteq> {ImuReadReply_zero}"
    using inv small [of "received (dm_out s)" "good_before w"] small [of "received (dm_out s)" good_after]
      outcome_of_round [OF inv]
    by (auto simp: threads_inv_def phase_before_def phase_served_def good_before_def good_after_def)
  moreover have "demo_inv s" and "list_all line_ok (dm_out s)"
    using inv by (simp_all add: threads_inv_def common_def)
  moreover have "bs = [0x12, 0x34, 0x56, 0x78]" if "Received the_reply bs \<in> set (dm_out s)" for bs
    using \<open>list_all line_ok (dm_out s)\<close> that by (auto simp: list_all_iff line_ok_def dest!: bspec)
  ultimately show ?thesis
    using outcome_reachable [OF lucky_run] outcome_reachable [OF unlucky_run] by blast
qed

theorem imu_demo_outcomes_witness:
  "\<exists>r w s. demo_step\<^sup>*\<^sup>* demo_start (r, w, s) \<and> received (dm_out s) = [imu_reply demo_request]"
proof -
  have "demo_step\<^sup>*\<^sup>* demo_start (R_tail, W_head, enqueue_request demo_request demo_static)"
    by (simp add: demo_start_def)
  from imu_demo_outcomes [OF this] show ?thesis by blast
qed

end
