(* ===== verification/Barectf.thy ===== *)
theory Barectf
  imports Hw_Timer
begin

text \<open>
  \<^verbatim>\<open>third_party/barectf/barectf.c\<close> and \<^verbatim>\<open>barectf.h\<close>: binary event records in a packet buffer.  The buffer
  is ordinary memory; a record is written with \<^verbatim>\<open>memcpy\<close> at the current position, and when it does not
  fit, the packet header is filled in and the position is reset.  The packed header takes 36 bytes.
\<close>

subsection \<open>Data\<close>

definition CTF_MAGIC :: u32 where
  "CTF_MAGIC = 0xC1FC1FC1"

definition sizeof_packet_header :: u32 where
  "sizeof_packet_header = 36"

record barectf_packet_header =
  ph_magic :: u32
  ph_stream_id :: u32
  ph_packet_size :: u32
  ph_content_size :: u32
  ph_timestamp_begin :: u64
  ph_timestamp_end :: u64
  ph_packet_seq :: u32

datatype barectf_event_id = EV_TASK_SWITCH | EV_SPI_TRANSFER | EV_UART_FRAME | EV_IMU_SAMPLE

fun event_id_code :: "barectf_event_id \<Rightarrow> u8" where
  "event_id_code EV_TASK_SWITCH = 0"
| "event_id_code EV_SPI_TRANSFER = 1"
| "event_id_code EV_UART_FRAME = 2"
| "event_id_code EV_IMU_SAMPLE = 3"

record barectf_ctx =
  ctf_buf :: u32
  ctf_buf_size :: u32
  ctf_buf_pos :: u32
  ctf_packet_seq :: u32
  ctf_packet_start_time :: u64

subsection \<open>Operations\<close>

text \<open>The cycle counter is read with the same retry loop as in the timer driver.\<close>

definition ns_of_cycles :: "u64 \<Rightarrow> u64" where
  "ns_of_cycles cycles = (cycles * 5) div 3"

definition get_ns :: "('h, 'x) platform \<Rightarrow> ('h, 'x) env \<Rightarrow> (u64 \<times> ('h, 'x) env) option" where
  "get_ns P e = do { (cycles, e1) \<leftarrow> get_cycles P e; Some (ns_of_cycles cycles, e1) }"

definition memcpy :: "u32 \<Rightarrow> u8 list \<Rightarrow> ('h, 'x) env \<Rightarrow> ('h, 'x) env" where
  "memcpy a bs e = e\<lparr>ram := store_bytes a bs (ram e)\<rparr>"

definition bytes_of_u64 :: "u64 \<Rightarrow> u8 list" where
  "bytes_of_u64 v = bytes_of_u32 (ucast v) @ bytes_of_u32 (ucast (drop_bit 32 v))"

definition barectf_init ::
    "('h, 'x) platform \<Rightarrow> u32 \<Rightarrow> u32 \<Rightarrow> ('h, 'x) env \<Rightarrow> (barectf_ctx \<times> ('h, 'x) env) option" where
  "barectf_init P buffer buffer_size e =
     do {
       (now, e1) \<leftarrow> get_ns P e;
       Some (\<lparr>ctf_buf = buffer, ctf_buf_size = buffer_size, ctf_buf_pos = sizeof_packet_header,
              ctf_packet_seq = 0, ctf_packet_start_time = now\<rparr>, e1)
     }"

text \<open>The stores to the header, member by member.\<close>

definition barectf_flush_packet ::
    "('h, 'x) platform \<Rightarrow> barectf_ctx \<times> ('h, 'x) env \<Rightarrow> (barectf_ctx \<times> ('h, 'x) env) option" where
  "barectf_flush_packet P ce =
     (let (c, e) = ce in
      if ctf_buf_pos c \<le> sizeof_packet_header then Some (c, e)
      else do {
        let e1 = memcpy (ctf_buf c) (bytes_of_u32 CTF_MAGIC) e;
        let e2 = memcpy (ctf_buf c + 4) (bytes_of_u32 0) e1;
        let e3 = memcpy (ctf_buf c + 8) (bytes_of_u32 (ctf_buf_size c * 8)) e2;
        let e4 = memcpy (ctf_buf c + 12) (bytes_of_u32 (ctf_buf_pos c * 8)) e3;
        let e5 = memcpy (ctf_buf c + 16) (bytes_of_u64 (ctf_packet_start_time c)) e4;
        (end_time, e6) \<leftarrow> get_ns P e5;
        let e7 = memcpy (ctf_buf c + 24) (bytes_of_u64 end_time) e6;
        let e8 = memcpy (ctf_buf c + 32) (bytes_of_u32 (ctf_packet_seq c)) e7;
        (start, e9) \<leftarrow> get_ns P e8;
        Some (c\<lparr>ctf_packet_seq := ctf_packet_seq c + 1, ctf_buf_pos := sizeof_packet_header,
                ctf_packet_start_time := start\<rparr>, e9)
      })"

definition ensure_space ::
    "('h, 'x) platform \<Rightarrow> u32 \<Rightarrow> barectf_ctx \<times> ('h, 'x) env \<Rightarrow> (bool \<times> barectf_ctx \<times> ('h, 'x) env) option" where
  "ensure_space P len ce =
     do {
       (c, e) \<leftarrow> (if ctf_buf_pos (fst ce) + len > ctf_buf_size (fst ce)
                  then barectf_flush_packet P ce else Some ce);
       Some (ctf_buf_pos c + len \<le> ctf_buf_size c, c, e)
     }"

definition barectf_trace_task_switch ::
    "('h, 'x) platform \<Rightarrow> u32 \<Rightarrow> u32 \<Rightarrow> barectf_ctx \<times> ('h, 'x) env \<Rightarrow>
     (barectf_ctx \<times> ('h, 'x) env) option" where
  "barectf_trace_task_switch P task_id state ce =
     do {
       (ok, c, e) \<leftarrow> ensure_space P 16 ce;
       if \<not> ok then Some (c, e)
       else do {
         (ts, e1) \<leftarrow> get_ns P e;
         let p = ctf_buf c + ctf_buf_pos c;
         let e2 = memcpy p [event_id_code EV_TASK_SWITCH] e1;
         let e3 = memcpy (p + 1) (bytes_of_u64 ts) e2;
         let e4 = memcpy (p + 9) (take 2 (bytes_of_u32 task_id)) e3;
         let e5 = memcpy (p + 11) (take 1 (bytes_of_u32 state)) e4;
         Some (c\<lparr>ctf_buf_pos := ctf_buf_pos c + 12\<rparr>, e5)
       }
     }"

definition barectf_trace_spi_transfer ::
    "('h, 'x) platform \<Rightarrow> u32 \<Rightarrow> u32 \<Rightarrow> u32 \<Rightarrow> barectf_ctx \<times> ('h, 'x) env \<Rightarrow>
     (barectf_ctx \<times> ('h, 'x) env) option" where
  "barectf_trace_spi_transfer P cs_id len duration_ns ce =
     do {
       (ok, c, e) \<leftarrow> ensure_space P 20 ce;
       if \<not> ok then Some (c, e)
       else do {
         (ts, e1) \<leftarrow> get_ns P e;
         let p = ctf_buf c + ctf_buf_pos c;
         let e2 = memcpy p [event_id_code EV_SPI_TRANSFER] e1;
         let e3 = memcpy (p + 1) (bytes_of_u64 ts) e2;
         let e4 = memcpy (p + 9) (take 1 (bytes_of_u32 cs_id)) e3;
         let e5 = memcpy (p + 10) (bytes_of_u32 len) e4;
         let e6 = memcpy (p + 14) (bytes_of_u32 duration_ns) e5;
         Some (c\<lparr>ctf_buf_pos := ctf_buf_pos c + 18\<rparr>, e6)
       }
     }"

definition barectf_trace_uart_frame ::
    "('h, 'x) platform \<Rightarrow> u32 \<Rightarrow> u32 \<Rightarrow> barectf_ctx \<times> ('h, 'x) env \<Rightarrow>
     (barectf_ctx \<times> ('h, 'x) env) option" where
  "barectf_trace_uart_frame P len timeout_us ce =
     do {
       (ok, c, e) \<leftarrow> ensure_space P 20 ce;
       if \<not> ok then Some (c, e)
       else do {
         (ts, e1) \<leftarrow> get_ns P e;
         let p = ctf_buf c + ctf_buf_pos c;
         let e2 = memcpy p [event_id_code EV_UART_FRAME] e1;
         let e3 = memcpy (p + 1) (bytes_of_u64 ts) e2;
         let e4 = memcpy (p + 9) (bytes_of_u32 len) e3;
         let e5 = memcpy (p + 13) (bytes_of_u32 timeout_us) e4;
         Some (c\<lparr>ctf_buf_pos := ctf_buf_pos c + 17\<rparr>, e5)
       }
     }"

subsection \<open>Specification\<close>

datatype ctf_event = Task_switch u32 u32 | Spi_transfer u32 u32 u32 | Uart_frame u32 u32

fun trace_event :: "('h, 'x) platform \<Rightarrow> ctf_event \<Rightarrow> barectf_ctx \<times> ('h, 'x) env \<Rightarrow>
     (barectf_ctx \<times> ('h, 'x) env) option" where
  "trace_event P (Task_switch task_id state) ce = barectf_trace_task_switch P task_id state ce"
| "trace_event P (Spi_transfer cs_id len duration_ns) ce = barectf_trace_spi_transfer P cs_id len duration_ns ce"
| "trace_event P (Uart_frame len timeout_us) ce = barectf_trace_uart_frame P len timeout_us ce"

text \<open>The record of an event: its number, its time and its fields, some of them cut to fewer bytes.\<close>

fun event_record :: "u64 \<Rightarrow> ctf_event \<Rightarrow> u8 list" where
  "event_record ts (Task_switch task_id state) =
     0 # bytes_of_u64 ts @ take 2 (bytes_of_u32 task_id) @ take 1 (bytes_of_u32 state)"
| "event_record ts (Spi_transfer cs_id len duration_ns) =
     1 # bytes_of_u64 ts @ take 1 (bytes_of_u32 cs_id) @ bytes_of_u32 len @ bytes_of_u32 duration_ns"
| "event_record ts (Uart_frame len timeout_us) =
     2 # bytes_of_u64 ts @ bytes_of_u32 len @ bytes_of_u32 timeout_us"

fun event_space :: "ctf_event \<Rightarrow> u32" where
  "event_space (Task_switch task_id state) = 16"
| "event_space ev = 20"

definition header_image :: "barectf_packet_header \<Rightarrow> u8 list" where
  "header_image h =
     bytes_of_u32 (ph_magic h) @ bytes_of_u32 (ph_stream_id h) @ bytes_of_u32 (ph_packet_size h) @
     bytes_of_u32 (ph_content_size h) @ bytes_of_u64 (ph_timestamp_begin h) @
     bytes_of_u64 (ph_timestamp_end h) @ bytes_of_u32 (ph_packet_seq h)"

text \<open>The position is behind the header, and inside the buffer once an event was written; the size leaves
  room for the additions of the code.\<close>

definition ctf_inv :: "barectf_ctx \<Rightarrow> bool" where
  "ctf_inv c \<longleftrightarrow> 36 \<le> unat (ctf_buf_pos c) \<and> unat (ctf_buf_size c) < 4294967296 - 20 \<and>
     (unat (ctf_buf_pos c) \<le> unat (ctf_buf_size c) \<or> ctf_buf_pos c = 36)"

definition in_ctf_buffer :: "barectf_ctx \<Rightarrow> u32 \<Rightarrow> bool" where
  "in_ctf_buffer c a \<longleftrightarrow> a - ctf_buf c < ctf_buf_size c"

subsection \<open>Lemmas\<close>

lemma get_ns_ram: "get_ns P e = Some (t, e') \<Longrightarrow> ram e' = ram e"
  by (auto simp: get_ns_def bind_eq_Some_conv dest!: get_cycles_ram)

lemma store_bytes_append: "store_bytes a (xs @ ys) m = store_bytes (a + of_nat (length xs)) ys (store_bytes a xs m)"
  by (induction xs arbitrary: a m) (simp_all add: algebra_simps)

lemma memcpy_memcpy: "memcpy (a + of_nat (length xs)) ys (memcpy a xs e) = memcpy a (xs @ ys) e"
  by (simp add: memcpy_def store_bytes_append)

lemma memcpy_ram [simp]: "ram (memcpy a bs e) = store_bytes a bs (ram e)"
  by (simp add: memcpy_def)

lemma length_bytes [simp]: "length (bytes_of_u32 v) = 4" "length (bytes_of_u64 t) = 8"
  by (simp_all add: bytes_of_u32_def bytes_of_u64_def)

lemma u64_of_bytes_of_u64:
  "(let bs = bytes_of_u64 t in u64_of_halves (u32_of_bytes (bs ! 4) (bs ! 5) (bs ! 6) (bs ! 7))
     (u32_of_bytes (bs ! 0) (bs ! 1) (bs ! 2) (bs ! 3))) = t"
  by (simp add: bytes_of_u64_def bytes_of_u32_def u32_of_bytes_of_u32 u64_of_its_halves)

text \<open>The event functions are one scheme: make room, take the time, append the record.\<close>

text \<open>The fields of each record, stored one after the other, are the record.\<close>

lemma task_switch_bytes:
  "memcpy (p + 11) (take 1 (bytes_of_u32 state)) (memcpy (p + 9) (take 2 (bytes_of_u32 task_id))
      (memcpy (p + 1) (bytes_of_u64 ts) (memcpy p [0] e))) = memcpy p (event_record ts (Task_switch task_id state)) e"
  using memcpy_memcpy [of p "[0]" "bytes_of_u64 ts" e]
      memcpy_memcpy [of p "0 # bytes_of_u64 ts" "take 2 (bytes_of_u32 task_id)" e]
      memcpy_memcpy [of p "0 # bytes_of_u64 ts @ take 2 (bytes_of_u32 task_id)" "take 1 (bytes_of_u32 state)" e]
  by simp

lemma spi_transfer_bytes:
  "memcpy (p + 14) (bytes_of_u32 duration_ns) (memcpy (p + 10) (bytes_of_u32 len)
      (memcpy (p + 9) (take 1 (bytes_of_u32 cs_id)) (memcpy (p + 1) (bytes_of_u64 ts) (memcpy p [1] e)))) =
      memcpy p (event_record ts (Spi_transfer cs_id len duration_ns)) e"
  using memcpy_memcpy [of p "[1]" "bytes_of_u64 ts" e]
      memcpy_memcpy [of p "1 # bytes_of_u64 ts" "take 1 (bytes_of_u32 cs_id)" e]
      memcpy_memcpy [of p "1 # bytes_of_u64 ts @ take 1 (bytes_of_u32 cs_id)" "bytes_of_u32 len" e]
      memcpy_memcpy [of p "1 # bytes_of_u64 ts @ take 1 (bytes_of_u32 cs_id) @ bytes_of_u32 len" "bytes_of_u32 duration_ns" e]
  by simp

lemma uart_frame_bytes:
  "memcpy (p + 13) (bytes_of_u32 timeout_us) (memcpy (p + 9) (bytes_of_u32 len)
      (memcpy (p + 1) (bytes_of_u64 ts) (memcpy p [2] e))) = memcpy p (event_record ts (Uart_frame len timeout_us)) e"
  using memcpy_memcpy [of p "[2]" "bytes_of_u64 ts" e]
      memcpy_memcpy [of p "2 # bytes_of_u64 ts" "bytes_of_u32 len" e]
      memcpy_memcpy [of p "2 # bytes_of_u64 ts @ bytes_of_u32 len" "bytes_of_u32 timeout_us" e]
  by simp

lemma trace_event_scheme:
  "trace_event P ev ce =
     do {
       (ok, c, e) \<leftarrow> ensure_space P (event_space ev) ce;
       if \<not> ok then Some (c, e)
       else do {
         (ts, e1) \<leftarrow> get_ns P e;
         Some (c\<lparr>ctf_buf_pos := ctf_buf_pos c + of_nat (length (event_record ts ev))\<rparr>,
               memcpy (ctf_buf c + ctf_buf_pos c) (event_record ts ev) e1)
       }
     }"
proof (cases ev)
  case (Task_switch task_id state)
  have len: "length (event_record ts (Task_switch task_id state)) = 12" for ts by simp
  show ?thesis
    unfolding Task_switch trace_event.simps event_space.simps barectf_trace_task_switch_def Let_def event_id_code.simps
      task_switch_bytes len of_nat_numeral ..
next
  case (Spi_transfer cs_id len duration_ns)
  have len: "length (event_record ts (Spi_transfer cs_id len duration_ns)) = 18" for ts by simp
  show ?thesis
    unfolding Spi_transfer trace_event.simps event_space.simps barectf_trace_spi_transfer_def Let_def event_id_code.simps
      spi_transfer_bytes len of_nat_numeral ..
next
  case (Uart_frame len timeout_us)
  have len: "length (event_record ts (Uart_frame len timeout_us)) = 17" for ts by simp
  show ?thesis
    unfolding Uart_frame trace_event.simps event_space.simps barectf_trace_uart_frame_def Let_def event_id_code.simps
      uart_frame_bytes len of_nat_numeral ..
qed

text \<open>A flush with content: the header describes the packet, and only its 36 bytes are written.\<close>

lemma flush_packet_spec:
  assumes "36 < unat (ctf_buf_pos c)" and "\<And>e. get_ns P e \<noteq> None"
  obtains end_time start e' where
    "barectf_flush_packet P (c, e) = Some (c\<lparr>ctf_packet_seq := ctf_packet_seq c + 1,
       ctf_buf_pos := 36, ctf_packet_start_time := start\<rparr>, e')"
    and "ram e' = store_bytes (ctf_buf c) (header_image \<lparr>ph_magic = CTF_MAGIC, ph_stream_id = 0,
       ph_packet_size = ctf_buf_size c * 8, ph_content_size = ctf_buf_pos c * 8,
       ph_timestamp_begin = ctf_packet_start_time c, ph_timestamp_end = end_time,
       ph_packet_seq = ctf_packet_seq c\<rparr>) (ram e)"
proof -
  let ?b = "ctf_buf c"
  let ?w = "[bytes_of_u32 CTF_MAGIC, bytes_of_u32 0, bytes_of_u32 (ctf_buf_size c * 8), bytes_of_u32 (ctf_buf_pos c * 8),
    bytes_of_u64 (ctf_packet_start_time c)]"
  define e5 where "e5 = memcpy (?b + 16) (?w ! 4) (memcpy (?b + 12) (?w ! 3) (memcpy (?b + 8) (?w ! 2)
    (memcpy (?b + 4) (?w ! 1) (memcpy ?b (?w ! 0) e))))"
  obtain end_time e6 where t: "get_ns P e5 = Some (end_time, e6)" using assms(2) by fastforce
  define e8 where "e8 = memcpy (?b + 32) (bytes_of_u32 (ctf_packet_seq c)) (memcpy (?b + 24) (bytes_of_u64 end_time) e6)"
  obtain start e9 where u: "get_ns P e8 = Some (start, e9)" using assms(2) by fastforce
  have "\<not> ctf_buf_pos c \<le> 36" using assms(1) by (simp add: word_le_nat_alt)
  then have "barectf_flush_packet P (c, e) = Some (c\<lparr>ctf_packet_seq := ctf_packet_seq c + 1,
       ctf_buf_pos := 36, ctf_packet_start_time := start\<rparr>, e9)"
    using t u by (simp add: barectf_flush_packet_def sizeof_packet_header_def e5_def e8_def)
  moreover have "ram e9 = store_bytes ?b (concat ?w @ bytes_of_u64 end_time @ bytes_of_u32 (ctf_packet_seq c)) (ram e)"
    using get_ns_ram [OF t] get_ns_ram [OF u]
    by (simp add: e8_def e5_def store_bytes_append add.assoc)
  ultimately show thesis by (intro that) (simp_all add: header_image_def)
qed

lemma length_header_image [simp]: "length (header_image h) = 36"
  by (simp add: header_image_def)

text \<open>A store at an offset inside the buffer.\<close>

lemma store_bytes_in_buffer:
  assumes "unat p + length bs \<le> unat (ctf_buf_size c)" and "\<not> in_ctf_buffer c a"
  shows "store_bytes (ctf_buf c + p) bs m a = m a"
proof (rule store_bytes_outside)
  fix i assume i: "i < length bs"
  have "unat (p + of_nat i) = unat p + i"
    using i assms(1) unat_lt_2p32 [of "ctf_buf_size c"] by (simp add: unat_word_ariths(1) unat_of_nat)
  then have "in_ctf_buffer c (ctf_buf c + p + of_nat i)"
    using i assms(1) by (simp add: in_ctf_buffer_def word_less_nat_alt add.assoc)
  with assms(2) show "a \<noteq> ctf_buf c + p + of_nat i" by auto
qed

lemma event_record_length: "length (event_record ts ev) \<le> unat (event_space ev)" "event_record ts ev \<noteq> []"
  "unat (event_space ev) \<le> 20"
  by (cases ev; simp)+

text \<open>After \<^verbatim>\<open>ensure_space\<close> in a buffer that holds a header and an event.\<close>

lemma ensure_space_spec:
  assumes "ctf_inv c" and "\<And>e. get_ns P e \<noteq> None" and "56 \<le> unat (ctf_buf_size c)" and "unat len \<le> 20"
  obtains c1 e1 where "ensure_space P len (c, e) = Some (True, c1, e1)" and "ctf_buf c1 = ctf_buf c"
    and "ctf_buf_size c1 = ctf_buf_size c" and "\<forall>a. \<not> in_ctf_buffer c a \<longrightarrow> ram e1 a = ram e a"
    and "if unat (ctf_buf_pos c) + unat len \<le> unat (ctf_buf_size c) then c1 = c \<and> e1 = e
      else ctf_buf_pos c1 = 36 \<and> ctf_packet_seq c1 = ctf_packet_seq c + 1"
proof -
  have inv: "36 \<le> unat (ctf_buf_pos c)" "unat (ctf_buf_size c) < 4294967276" "unat (ctf_buf_pos c) \<le> unat (ctf_buf_size c)"
    using assms(1,3) by (auto simp: ctf_inv_def)
  then have add: "unat (ctf_buf_pos c + len) = unat (ctf_buf_pos c) + unat len"
    using assms(4) by (simp add: unat_word_ariths(1))
  show thesis
  proof (cases "unat (ctf_buf_pos c) + unat len \<le> unat (ctf_buf_size c)")
    case True
    then have "ensure_space P len (c, e) = Some (True, c, e)"
      using add by (simp add: ensure_space_def word_less_nat_alt word_le_nat_alt)
    then show thesis using True by (intro that [of c e]) simp_all
  next
    case False
    then have pos: "36 < unat (ctf_buf_pos c)" using assms(3,4) by linarith
    obtain end_time start e' where f: "barectf_flush_packet P (c, e) = Some (c\<lparr>ctf_packet_seq := ctf_packet_seq c + 1,
        ctf_buf_pos := 36, ctf_packet_start_time := start\<rparr>, e')"
      and r: "ram e' = store_bytes (ctf_buf c) (header_image \<lparr>ph_magic = CTF_MAGIC, ph_stream_id = 0,
        ph_packet_size = ctf_buf_size c * 8, ph_content_size = ctf_buf_pos c * 8,
        ph_timestamp_begin = ctf_packet_start_time c, ph_timestamp_end = end_time,
        ph_packet_seq = ctf_packet_seq c\<rparr>) (ram e)"
      using flush_packet_spec [OF pos assms(2)] .
    let ?c = "c\<lparr>ctf_packet_seq := ctf_packet_seq c + 1, ctf_buf_pos := 36, ctf_packet_start_time := start\<rparr>"
    have "unat (36 + len) = 36 + unat len" using assms(4) by (simp add: unat_word_ariths(1))
    then have "ensure_space P len (c, e) = Some (True, ?c, e')"
      using False add f assms(3,4) by (simp add: ensure_space_def word_less_nat_alt word_le_nat_alt)
    moreover have "ram e' a = ram e a" if "\<not> in_ctf_buffer c a" for a
      using store_bytes_in_buffer [of 0 _ c a "ram e", OF _ that] assms(3) by (simp add: r)
    ultimately show thesis using False by (intro that [of ?c e']) simp_all
  qed
qed

subsection \<open>Properties\<close>

text \<open>C38. Events are recorded inside the buffer: with room for a header and an event, every trace call
  returns, appends the complete record of the event with its time behind the previous one, or at the
  start of a new packet when it would not fit, and no byte outside the buffer changes.\<close>

theorem barectf_event_recorded:
  assumes "ctf_inv c" and "\<And>e. get_ns P e \<noteq> None" and "56 \<le> unat (ctf_buf_size c)"
    and "p = (if unat (ctf_buf_pos c) + unat (event_space ev) \<le> unat (ctf_buf_size c) then ctf_buf_pos c else 36)"
  shows "\<exists>c' e' ts. trace_event P ev (c, e) = Some (c', e') \<and> ctf_inv c' \<and>
    ctf_buf_pos c' = p + of_nat (length (event_record ts ev)) \<and>
    load_bytes (ctf_buf c + p) (length (event_record ts ev)) (ram e') = event_record ts ev \<and>
    ctf_packet_seq c' = ctf_packet_seq c + (if p = ctf_buf_pos c then 0 else 1) \<and>
    (\<forall>a. \<not> in_ctf_buffer c a \<longrightarrow> ram e' a = ram e a)"
proof -
  obtain c1 e1 where es: "ensure_space P (event_space ev) (c, e) = Some (True, c1, e1)" "ctf_buf c1 = ctf_buf c"
    "ctf_buf_size c1 = ctf_buf_size c" "\<forall>a. \<not> in_ctf_buffer c a \<longrightarrow> ram e1 a = ram e a"
    "if unat (ctf_buf_pos c) + unat (event_space ev) \<le> unat (ctf_buf_size c) then c1 = c \<and> e1 = e
      else ctf_buf_pos c1 = 36 \<and> ctf_packet_seq c1 = ctf_packet_seq c + 1"
    using ensure_space_spec [OF assms(1-3) event_record_length(3), of ev e] .
  obtain ts e2 where t: "get_ns P e1 = Some (ts, e2)" using assms(2) by fastforce
  let ?r = "event_record ts ev"
  have p: "ctf_buf_pos c1 = p" using es(5) assms(4) by (auto split: if_splits)
  have inv: "36 \<le> unat (ctf_buf_pos c)" "unat (ctf_buf_size c) < 4294967276" "unat (ctf_buf_pos c) \<le> unat (ctf_buf_size c)"
    using assms(1,3) by (auto simp: ctf_inv_def)
  have fits: "unat p + length ?r \<le> unat (ctf_buf_size c)" "36 \<le> unat p"
    using assms(3,4) event_record_length(1) [of ts ev] event_record_length(3) [of ev] inv by (auto split: if_splits)
  have pos': "unat (p + of_nat (length ?r)) = unat p + length ?r"
    using fits inv(2) by (simp add: unat_word_ariths(1) unat_of_nat)
  have run: "trace_event P ev (c, e) = Some (c1\<lparr>ctf_buf_pos := p + of_nat (length ?r)\<rparr>, memcpy (ctf_buf c + p) ?r e2)"
    using es(1,2) t p by (simp add: trace_event_scheme)
  have "load_bytes (ctf_buf c + p) (length ?r) (ram (memcpy (ctf_buf c + p) ?r e2)) = ?r"
    using load_store_bytes [of ?r "ctf_buf c + p" "ram e2"] event_record_length(1) [of ts ev] event_record_length(3) [of ev] by simp
  moreover have "ram (memcpy (ctf_buf c + p) ?r e2) a = ram e a" if "\<not> in_ctf_buffer c a" for a
    using store_bytes_in_buffer [OF fits(1) that] es(4) that get_ns_ram [OF t] by simp
  moreover have "ctf_inv (c1\<lparr>ctf_buf_pos := p + of_nat (length ?r)\<rparr>)"
    using fits inv es(3) pos' by (simp add: ctf_inv_def)
  moreover have "ctf_packet_seq c1 = ctf_packet_seq c + (if p = ctf_buf_pos c then 0 else 1)"
  proof (cases "unat (ctf_buf_pos c) + unat (event_space ev) \<le> unat (ctf_buf_size c)")
    case True
    then show ?thesis using es(5) assms(4) by simp
  next
    case False
    then have "ctf_buf_pos c \<noteq> 36" using assms(3) event_record_length(3) [of ev] by auto
    then show ?thesis using False es(5) assms(4) by simp
  qed
  ultimately show ?thesis unfolding run by auto
qed

theorem barectf_event_recorded_witness:
  "\<exists>c' e' ts. trace_event sim_platform (Task_switch 0x12345 2)
     (\<lparr>ctf_buf = 0x1000, ctf_buf_size = 64, ctf_buf_pos = 52, ctf_packet_seq = 0, ctf_packet_start_time = 0\<rparr>, sim_env) =
     Some (c', e') \<and> ctf_buf_pos c' = 48 \<and> ctf_packet_seq c' = 1"
proof -
  let ?c = "\<lparr>ctf_buf = 0x1000, ctf_buf_size = 64, ctf_buf_pos = 52, ctf_packet_seq = 0, ctf_packet_start_time = 0\<rparr>"
  have "get_ns sim_platform e \<noteq> None" for e :: "(sim_hw, sim_ax) env"
    by (simp add: get_ns_def get_cycles.simps csr_read_def)
  from barectf_event_recorded [of ?c sim_platform 36 "Task_switch 0x12345 2" sim_env, OF _ this]
  show ?thesis by (auto simp: ctf_inv_def)
qed

text \<open>A packet header describes its packet: flushing a packet with content fills in magic number, stream,
  both sizes in bits, the times and the sequence number, leaves the records behind the header as they
  were, and starts the next packet right behind the header of this one.\<close>

theorem barectf_flush_writes_header:
  assumes "ctf_inv c" and "36 < unat (ctf_buf_pos c)" and "\<And>e. get_ns P e \<noteq> None"
  shows "\<exists>c' e' h. barectf_flush_packet P (c, e) = Some (c', e') \<and> ctf_inv c' \<and>
    load_bytes (ctf_buf c) 36 (ram e') = header_image h \<and> ph_magic h = CTF_MAGIC \<and>
    ph_packet_size h = ctf_buf_size c * 8 \<and> ph_content_size h = ctf_buf_pos c * 8 \<and>
    ph_timestamp_begin h = ctf_packet_start_time c \<and> ph_packet_seq h = ctf_packet_seq c \<and>
    (\<forall>k. 36 \<le> k \<and> k < 4294967296 \<longrightarrow> ram e' (ctf_buf c + of_nat k) = ram e (ctf_buf c + of_nat k)) \<and>
    ctf_buf_pos c' = 36 \<and> ctf_packet_seq c' = ctf_packet_seq c + 1"
proof -
  obtain end_time start e' where f: "barectf_flush_packet P (c, e) = Some (c\<lparr>ctf_packet_seq := ctf_packet_seq c + 1,
      ctf_buf_pos := 36, ctf_packet_start_time := start\<rparr>, e')"
    and r: "ram e' = store_bytes (ctf_buf c) (header_image \<lparr>ph_magic = CTF_MAGIC, ph_stream_id = 0,
      ph_packet_size = ctf_buf_size c * 8, ph_content_size = ctf_buf_pos c * 8,
      ph_timestamp_begin = ctf_packet_start_time c, ph_timestamp_end = end_time,
      ph_packet_seq = ctf_packet_seq c\<rparr>) (ram e)"
    using flush_packet_spec [OF assms(2,3)] .
  define h where "h = \<lparr>ph_magic = CTF_MAGIC, ph_stream_id = 0,
      ph_packet_size = ctf_buf_size c * 8, ph_content_size = ctf_buf_pos c * 8,
      ph_timestamp_begin = ctf_packet_start_time c, ph_timestamp_end = end_time,
      ph_packet_seq = ctf_packet_seq c\<rparr>"
  have ram: "ram e' = store_bytes (ctf_buf c) (header_image h) (ram e)" using r by (simp add: h_def)
  have "load_bytes (ctf_buf c) 36 (ram e') = header_image h"
    using load_store_bytes [of "header_image h" "ctf_buf c" "ram e"] by (simp add: ram)
  moreover have "ram e' (ctf_buf c + of_nat k) = ram e (ctf_buf c + of_nat k)" if "36 \<le> k" "k < 4294967296" for k
    unfolding ram by (rule store_bytes_outside) (use that of_nat_u32_inject [of k] in auto)
  moreover have "ctf_inv (c\<lparr>ctf_packet_seq := ctf_packet_seq c + 1, ctf_buf_pos := 36, ctf_packet_start_time := start\<rparr>)"
    using assms(1) by (simp add: ctf_inv_def)
  ultimately show ?thesis unfolding f by (intro exI [of _ h] exI conjI) (auto simp: h_def)
qed

theorem barectf_flush_writes_header_witness:
  "\<exists>c' e' h. barectf_flush_packet sim_platform
     (\<lparr>ctf_buf = 0x1000, ctf_buf_size = 64, ctf_buf_pos = 48, ctf_packet_seq = 3, ctf_packet_start_time = 0\<rparr>, sim_env) =
     Some (c', e') \<and> load_bytes 0x1000 36 (ram e') = header_image h \<and> ph_content_size h = 384"
proof -
  let ?c = "\<lparr>ctf_buf = 0x1000, ctf_buf_size = 64, ctf_buf_pos = 48, ctf_packet_seq = 3, ctf_packet_start_time = 0\<rparr>"
  have "get_ns sim_platform e \<noteq> None" for e :: "(sim_hw, sim_ax) env"
    by (simp add: get_ns_def get_cycles.simps csr_read_def)
  from barectf_flush_writes_header [of ?c sim_platform sim_env, OF _ _ this]
  show ?thesis by (auto simp: ctf_inv_def)
qed

end
