(* ===== verification/Twi_Bus.thy ===== *)
theory Twi_Bus
  imports Twi
begin

text \<open>
  The TWI driver and its controller.  \<open>twi_ctl\<close> is the controller as its manual describes it: writing
  \<^verbatim>\<open>M_STA\<close> and \<^verbatim>\<open>M_STP\<close> requests a start and a stop condition, the interrupt flag is cleared by
  writing one and holds the bus while it is set, and the status says what happened last.
  \<open>ctl_next\<close> lets the controller go on until the next interrupt; what the addressed device does is an argument.
  \<open>ctl_wire\<close> lists what was on the bus.  The locale \<open>twi_controllers\<close> says that the registers of the three buses
  are those of three such controllers.

  A controller goes on between two runs of the handler and not within one: a byte takes longer on the bus than the
  handler runs.
\<close>

subsection \<open>The controller\<close>

datatype wire = StartCond | StopCond | SentByte u8 bool | ReceivedByte u8 bool

datatype bus_mode = Bus_idle | Bus_address | Bus_transmit | Bus_receive

text \<open>The flag of a byte on the bus is its acknowledge.  The device acknowledges or not and may send a byte, or the
  transfer breaks.\<close>

datatype device = Answer bool u8 | Broken | Arbitration_lost

record twi_ctl =
  ctl_ack :: bool
  ctl_int :: bool
  ctl_stp :: bool
  ctl_sta :: bool
  ctl_bus_en :: bool
  ctl_int_en :: bool
  ctl_data :: u8
  ctl_stat :: u32
  ctl_mode :: bus_mode
  ctl_wire :: "wire list"

definition cntr_value :: "twi_ctl \<Rightarrow> u32" where
  "cntr_value c =
     push_bit 2 (of_bool (ctl_ack c)) OR push_bit 3 (of_bool (ctl_int c)) OR push_bit 4 (of_bool (ctl_stp c)) OR
     push_bit 5 (of_bool (ctl_sta c)) OR push_bit 6 (of_bool (ctl_bus_en c)) OR push_bit 7 (of_bool (ctl_int_en c))"

text \<open>The two requests are set by writing one and cleared by the controller; the flag is cleared by writing one.\<close>

definition cntr_write :: "u32 \<Rightarrow> twi_ctl \<Rightarrow> twi_ctl" where
  "cntr_write v c = c\<lparr>ctl_ack := bit v 2, ctl_int := ctl_int c \<and> \<not> bit v 3, ctl_stp := ctl_stp c \<or> bit v 4,
     ctl_sta := ctl_sta c \<or> bit v 5, ctl_bus_en := bit v 6, ctl_int_en := bit v 7\<rparr>"

definition interrupt_with :: "u32 \<Rightarrow> twi_ctl \<Rightarrow> twi_ctl" where
  "interrupt_with st c = c\<lparr>ctl_int := True, ctl_stat := st\<rparr>"

definition on_wire :: "wire \<Rightarrow> twi_ctl \<Rightarrow> twi_ctl" where
  "on_wire x c = c\<lparr>ctl_wire := ctl_wire c @ [x]\<rparr>"

definition stop_if_requested :: "twi_ctl \<Rightarrow> twi_ctl" where
  "stop_if_requested c =
     (if ctl_stp c then on_wire StopCond (c\<lparr>ctl_stp := False, ctl_mode := Bus_idle, ctl_stat := 0xF8\<rparr>) else c)"

fun send_start :: "device \<Rightarrow> twi_ctl \<Rightarrow> twi_ctl" where
  "send_start (Answer ack v) c =
     interrupt_with (if ctl_mode c = Bus_idle then 0x08 else 0x10)
       (on_wire StartCond (c\<lparr>ctl_sta := False, ctl_mode := Bus_address\<rparr>))"
| "send_start Broken c = interrupt_with 0x00 (c\<lparr>ctl_sta := False\<rparr>)"
| "send_start Arbitration_lost c = interrupt_with 0x38 (c\<lparr>ctl_sta := False\<rparr>)"

fun transfer_byte :: "device \<Rightarrow> twi_ctl \<Rightarrow> twi_ctl" where
  "transfer_byte (Answer ack v) c =
     (case ctl_mode c of
        Bus_idle \<Rightarrow> c
      | Bus_address \<Rightarrow>
          on_wire (SentByte (ctl_data c) ack)
            (if bit (ctl_data c) 0
             then interrupt_with (if ack then 0x40 else 0x48) (c\<lparr>ctl_mode := Bus_receive\<rparr>)
             else interrupt_with (if ack then 0x18 else 0x20) (c\<lparr>ctl_mode := Bus_transmit\<rparr>))
      | Bus_transmit \<Rightarrow> on_wire (SentByte (ctl_data c) ack) (interrupt_with (if ack then 0x28 else 0x30) c)
      | Bus_receive \<Rightarrow>
          on_wire (ReceivedByte v (ctl_ack c))
            (interrupt_with (if ctl_ack c then 0x50 else 0x58) (c\<lparr>ctl_data := v\<rparr>)))"
| "transfer_byte Broken c = interrupt_with 0x00 c"
| "transfer_byte Arbitration_lost c = interrupt_with 0x38 c"

definition ctl_next :: "device \<Rightarrow> twi_ctl \<Rightarrow> twi_ctl" where
  "ctl_next d c =
     (if ctl_int c \<or> \<not> ctl_bus_en c then c
      else
        (let c1 = stop_if_requested c
         in if ctl_sta c1 then send_start d c1
            else if ctl_mode c1 = Bus_idle then c1 else transfer_byte d c1))"

text \<open>The bus once the requested conditions are on it.\<close>

definition wire_after :: "twi_ctl \<Rightarrow> wire list" where
  "wire_after c = ctl_wire c @ (if ctl_stp c then [StopCond] else []) @ (if ctl_sta c then [StartCond] else [])"

definition start_requested :: "twi_ctl \<Rightarrow> bool" where
  "start_requested c \<longleftrightarrow> ctl_sta c \<and> \<not> ctl_int c \<and> ctl_bus_en c \<and> ctl_int_en c \<and> (ctl_stp c \<or> ctl_mode c = Bus_idle)"

definition bus_at_rest :: "twi_ctl \<Rightarrow> bool" where
  "bus_at_rest c \<longleftrightarrow> \<not> ctl_sta c \<and> \<not> ctl_int c \<and> ctl_bus_en c \<and> ctl_int_en c \<and> (ctl_stp c \<or> ctl_mode c = Bus_idle)"

subsection \<open>The three buses\<close>

definition twi_bases :: "u32 set" where
  "twi_bases = {S_TWI0_BASE, S_TWI1_BASE, S_TWI2_BASE}"

locale twi_controllers = dispatcher P log
  for P :: "('h, 'x) platform" and log :: "'x \<Rightarrow> handle list" +
  fixes ctl :: "u32 \<Rightarrow> 'h \<Rightarrow> twi_ctl"
    and advance :: "u32 \<Rightarrow> device \<Rightarrow> 'h \<Rightarrow> 'h"
  assumes rd_cntr: "b \<in> twi_bases \<Longrightarrow> bus_rd P (b + TWI_CNTR) h = (v, h') \<Longrightarrow> v = cntr_value (ctl b h)"
    and rd_stat: "b \<in> twi_bases \<Longrightarrow> bus_rd P (b + TWI_STAT) h = (v, h') \<Longrightarrow> v = ctl_stat (ctl b h)"
    and rd_data: "b \<in> twi_bases \<Longrightarrow> bus_rd P (b + TWI_DATA) h = (v, h') \<Longrightarrow> ucast v = ctl_data (ctl b h)"
    and rd_keeps: "b \<in> twi_bases \<Longrightarrow> c \<in> twi_bases \<Longrightarrow> r \<in> {TWI_CNTR, TWI_STAT, TWI_DATA} \<Longrightarrow>
      bus_rd P (b + r) h = (v, h') \<Longrightarrow> ctl c h' = ctl c h"
    and wr_cntr: "b \<in> twi_bases \<Longrightarrow> c \<in> twi_bases \<Longrightarrow>
      ctl c (bus_wr P (b + TWI_CNTR) v h) = (if c = b then cntr_write v (ctl b h) else ctl c h)"
    and wr_data: "b \<in> twi_bases \<Longrightarrow> c \<in> twi_bases \<Longrightarrow>
      ctl c (bus_wr P (b + TWI_DATA) v h) = (if c = b then (ctl b h)\<lparr>ctl_data := ucast v\<rparr> else ctl c h)"
    and ctl_advance: "b \<in> twi_bases \<Longrightarrow> c \<in> twi_bases \<Longrightarrow>
      ctl c (advance b d h) = (if c = b then ctl_next d (ctl b h) else ctl c h)"

text \<open>The controller goes on until it interrupts, once per element of the list, and the handler runs each time.\<close>

fun twi_drive ::
    "('h, 'x) platform \<Rightarrow> (u32 \<Rightarrow> device \<Rightarrow> 'h \<Rightarrow> 'h) \<Rightarrow> u32 \<Rightarrow> device list \<Rightarrow> twi \<times> ('h, 'x) env \<Rightarrow>
     twi \<times> ('h, 'x) env" where
  "twi_drive P advance base [] se = se"
| "twi_drive P advance base (d # ds) (s, e) =
     twi_drive P advance base ds (TwiDriver_handle_isr P base s (e\<lparr>hw := advance base d (hw e)\<rparr>))"

text \<open>A transfer under way, and the controller after a transfer.\<close>

definition working :: "bus_mode \<Rightarrow> wire list \<Rightarrow> u8 \<Rightarrow> twi_ctl \<Rightarrow> bool" where
  "working m w d c \<longleftrightarrow> \<not> ctl_int c \<and> \<not> ctl_stp c \<and> \<not> ctl_sta c \<and> ctl_bus_en c \<and> ctl_int_en c \<and>
     ctl_mode c = m \<and> ctl_wire c = w \<and> ctl_data c = d"

definition released :: "TwiRequest list \<Rightarrow> wire list \<Rightarrow> twi_ctl \<Rightarrow> bool" where
  "released waiting w c \<longleftrightarrow>
     wire_after c = w @ [StopCond] @ (if waiting = [] then [] else [StartCond]) \<and>
     (if waiting = [] then bus_at_rest c else start_requested c)"

text \<open>The byte that addresses a device for writing or for reading.\<close>

definition address_byte :: "u8 \<Rightarrow> bool \<Rightarrow> u8" where
  "address_byte a read = push_bit 1 a OR (if read then 1 else 0)"

text \<open>The index and the buffer after a received byte.\<close>

definition received_index :: "TwiTransferState \<Rightarrow> u16" where
  "received_index st = (if ts_index st < tw_length (ts_request st) then ts_index st + 1 else ts_index st)"

definition received_ram :: "TwiTransferState \<Rightarrow> u8 \<Rightarrow> (u32 \<Rightarrow> u8) \<Rightarrow> (u32 \<Rightarrow> u8)" where
  "received_ram st v m =
     (if ts_index st < tw_length (ts_request st) then m(tw_buffer (ts_request st) + ucast (ts_index st) := v) else m)"

subsection \<open>Example data\<close>

text \<open>Three controllers and nothing else.\<close>

definition ctl_initial :: twi_ctl where
  "ctl_initial = \<lparr>ctl_ack = False, ctl_int = False, ctl_stp = False, ctl_sta = False, ctl_bus_en = True,
     ctl_int_en = True, ctl_data = 0, ctl_stat = 0xF8, ctl_mode = Bus_idle, ctl_wire = []\<rparr>"

definition twi_base_of :: "u32 \<Rightarrow> u32 option" where
  "twi_base_of a = find (\<lambda>b. a \<in> {b + TWI_CNTR, b + TWI_STAT, b + TWI_DATA}) [S_TWI0_BASE, S_TWI1_BASE, S_TWI2_BASE]"

definition twi_platform :: "(u32 \<Rightarrow> twi_ctl, sim_ax) platform" where
  "twi_platform =
     \<lparr>bus_rd = (\<lambda>a h. case twi_base_of a of None \<Rightarrow> (0, h)
        | Some b \<Rightarrow> (if a = b + TWI_CNTR then cntr_value (h b) else if a = b + TWI_STAT then ctl_stat (h b)
            else ucast (ctl_data (h b)), h)),
      bus_wr = (\<lambda>a v h. case twi_base_of a of None \<Rightarrow> h
        | Some b \<Rightarrow> (if a = b + TWI_CNTR then h(b := cntr_write v (h b))
            else if a = b + TWI_DATA then h(b := (h b)\<lparr>ctl_data := ucast v\<rparr>) else h)),
      bus_wr8 = (\<lambda>a v h. h), csr_rd = (\<lambda>c h. (0, h)), csr_set = (\<lambda>c m h. h),
      disable_interrupts_save_flags = disable_interrupts_save_flags sim_platform,
      restore_interrupts_flags = restore_interrupts_flags sim_platform,
      taccess = taccess sim_platform, isr_post = isr_post sim_platform,
      timer_service_init = timer_service_init sim_platform,
      timer_service_tick = timer_service_tick sim_platform,
      timer_service_sleep_ms = timer_service_sleep_ms sim_platform\<rparr>"

definition twi_advance :: "u32 \<Rightarrow> device \<Rightarrow> (u32 \<Rightarrow> twi_ctl) \<Rightarrow> (u32 \<Rightarrow> twi_ctl)" where
  "twi_advance b d h = h(b := ctl_next d (h b))"

definition twi_env :: "(u32 \<Rightarrow> twi_ctl, sim_ax) env" where
  "twi_env = \<lparr>hw = (\<lambda>_. ctl_initial), ax = ax sim_env, ram = (\<lambda>_. 0)(0x81000 := 0xAB, 0x81001 := 0xCD)\<rparr>"

definition example_twi :: "bool \<Rightarrow> u16 \<Rightarrow> TwiRequest" where
  "example_twi read n = \<lparr>tw_handle = 0x80200, tw_buffer = 0x81000, tw_length = n, tw_address = 0x68,
     tw_reg_addr = 0x3B, tw_is_read = read, tw_result = 0x80118\<rparr>"

subsection \<open>Lemmas\<close>

lemma twi_base_of_register:
  "b \<in> twi_bases \<Longrightarrow> r \<in> {TWI_CNTR, TWI_STAT, TWI_DATA} \<Longrightarrow> twi_base_of (b + r) = Some b"
  by (auto simp: twi_bases_def twi_base_of_def regs memory_map)

lemma twi_drive_append: "twi_drive P advance base (ds @ ds') se = twi_drive P advance base ds' (twi_drive P advance base ds se)"
  by (induction ds arbitrary: se) (auto, metis surj_pair twi_drive.simps(2))

lemma register_offsets [simp]:
  "TWI_STAT \<noteq> TWI_CNTR" "TWI_DATA \<noteq> TWI_CNTR" "TWI_DATA \<noteq> TWI_STAT"
  by (simp_all add: regs)

interpretation twi_sim: twi_controllers twi_platform posted "\<lambda>b h. h b" twi_advance
  by unfold_locales
    (auto simp: twi_platform_def twi_advance_def sim_access_def twi_base_of_register split: if_splits)

lemma cntr_bits [simp]:
  "bit (cntr_value c) 2 = ctl_ack c" "bit (cntr_value c) 3 = ctl_int c" "bit (cntr_value c) 4 = ctl_stp c"
  "bit (cntr_value c) 5 = ctl_sta c" "bit (cntr_value c) 6 = ctl_bus_en c" "bit (cntr_value c) 7 = ctl_int_en c"
  by (simp_all add: cntr_value_def bit_or_iff bit_push_bit_iff bit_0)

lemma cntr_flag [simp]: "cntr_value c AND CNTR_INT_FLAG = 0 \<longleftrightarrow> \<not> ctl_int c"
proof -
  have "cntr_value c AND push_bit 3 1 = 0 \<longleftrightarrow> \<not> bit (cntr_value c) 3"
    by (simp add: bit_iff_and_push_bit_not_eq_0 flip: push_bit_of_1)
  then show ?thesis by (simp add: CNTR_INT_FLAG_def)
qed

text \<open>The five stores of the driver to \<^verbatim>\<open>CNTR\<close>; each also writes back the flag it has read, and so clears it.\<close>

lemma cntr_modify [simp]:
  "cntr_write (cntr_value c OR CNTR_M_STA) c = c\<lparr>ctl_int := False, ctl_sta := True\<rparr>"
  "cntr_write (cntr_value c OR CNTR_M_STP) c = c\<lparr>ctl_int := False, ctl_stp := True\<rparr>"
  "cntr_write (cntr_value c OR CNTR_INT_FLAG) c = c\<lparr>ctl_int := False\<rparr>"
  "cntr_write (cntr_value c OR CNTR_ACK) c = c\<lparr>ctl_int := False, ctl_ack := True\<rparr>"
  "cntr_write (cntr_value c AND NOT CNTR_ACK) c = c\<lparr>ctl_int := False, ctl_ack := False\<rparr>"
  by (simp_all add: cntr_write_def regs bit_or_iff bit_and_iff bit_not_iff)

text \<open>The first byte of a phase is built from the address and the direction.\<close>

lemma address_byte_bits:
  "ucast (push_bit 1 (ucast a :: u32) OR (if r then 1 else 0)) = address_byte a r"
  "bit (address_byte a r) 0 = r"
proof -
  show "ucast (push_bit 1 (ucast a :: u32) OR (if r then 1 else 0)) = address_byte a r"
    unfolding address_byte_def
    by (rule bit_word_eqI, simp only: bit_ucast_iff bit_or_iff bit_push_bit_iff)
      (auto simp: bit_ucast_iff bit_1_iff)
  show "bit (address_byte a r) 0 = r"
    unfolding address_byte_def by (simp only: bit_or_iff bit_push_bit_iff) simp
qed

lemma address_byte_ucast [simp]:
  "ucast (ucast a * 2 OR (1 :: u32)) = address_byte a True" "ucast (ucast a * 2 :: u32) = address_byte a False"
  using address_byte_bits(1) [of a True] address_byte_bits(1) [of a False] by simp_all

lemma last_byte_next: "((ucast i + 1 :: u32) \<ge> ucast (n :: u16)) = (unat n \<le> Suc (unat (i :: u16)))"
proof -
  have "unat i < 65536" "unat n < 65536" using unsigned_less [of i] unsigned_less [of n] by simp_all
  then show ?thesis
    by (simp add: word_le_nat_alt unat_ucast_mod unat_word_ariths)
qed

lemma released_finish:
  assumes "\<not> ctl_sta c" and "ctl_bus_en c" and "ctl_int_en c"
  shows "released waiting (ctl_wire c) (c\<lparr>ctl_int := False, ctl_stp := True, ctl_sta := waiting \<noteq> []\<rparr>)"
  using assms by (simp add: released_def wire_after_def bus_at_rest_def start_requested_def)

context twi_controllers
begin

lemma ctl_read [simp]:
  assumes "b \<in> twi_bases" and "c \<in> twi_bases" and "r \<in> {TWI_CNTR, TWI_STAT, TWI_DATA}"
  shows "ctl c (hw (snd (mmio_read P (b + r) e))) = ctl c (hw e)"
  using rd_keeps [OF assms] by (cases "bus_rd P (b + r) (hw e)") (simp add: mmio_read_def)

lemma ctl_modify:
  assumes "b \<in> twi_bases" and "c \<in> twi_bases"
  shows "ctl c (hw (mmio_modify P (b + TWI_CNTR) f e)) =
    (if c = b then cntr_write (f (cntr_value (ctl b (hw e)))) (ctl b (hw e)) else ctl c (hw e))"
proof -
  obtain v h' where r: "bus_rd P (b + TWI_CNTR) (hw e) = (v, h')" by fastforce
  have "v = cntr_value (ctl b (hw e))" "ctl b h' = ctl b (hw e)" "ctl c h' = ctl c (hw e)"
    using rd_cntr [OF assms(1) r] rd_keeps [OF assms(1) _ _ r] assms by auto
  then show ?thesis
    using r by (simp add: mmio_modify_def mmio_read_def mmio_write_def wr_cntr [OF assms])
qed

lemma ctl_write_data:
  assumes "b \<in> twi_bases" and "c \<in> twi_bases"
  shows "ctl c (hw (mmio_write P (b + TWI_DATA) v e)) =
    (if c = b then (ctl b (hw e))\<lparr>ctl_data := ucast v\<rparr> else ctl c (hw e))"
  by (simp add: mmio_write_def wr_data [OF assms])

lemmas ctl_store = ctl_modify ctl_write_data

text \<open>The handler on a controller that shows the flag, and on one that does not.\<close>

lemma handle_flagged:
  assumes "base \<in> twi_bases" and "ctl_int (ctl base (hw e))"
  obtains e2 where "\<And>c. c \<in> twi_bases \<Longrightarrow> ctl c (hw e2) = ctl c (hw e)" and "ax e2 = ax e" and "ram e2 = ram e"
    and "TwiDriver_handle_isr P base s e =
      (let (returned, s1, e3) = twi_dispatch P base (ctl_stat (ctl base (hw e))) s e2
       in if returned then (s1, e3)
          else (s1, mmio_modify P (base + TWI_CNTR) (\<lambda>c. c OR CNTR_INT_FLAG) e3))"
proof -
  obtain v1 h1 where r1: "bus_rd P (base + TWI_CNTR) (hw e) = (v1, h1)" by fastforce
  obtain v2 h2 where r2: "bus_rd P (base + TWI_STAT) h1 = (v2, h2)" by fastforce
  have c: "ctl c h1 = ctl c (hw e)" "ctl c h2 = ctl c (hw e)" if "c \<in> twi_bases" for c
    using rd_keeps [OF assms(1) that _ r1] rd_keeps [OF assms(1) that _ r2] by simp_all
  have "v1 AND CNTR_INT_FLAG \<noteq> 0" "v2 = ctl_stat (ctl base (hw e))"
    using rd_cntr [OF assms(1) r1] rd_stat [OF assms(1) r2] assms c(1) [OF assms(1)] by simp_all
  then show thesis
    using r1 r2 c
    by (intro that [of "e\<lparr>hw := h2\<rparr>"])
      (simp_all add: TwiDriver_handle_isr_def mmio_read_def case_prod_beta Let_def)
qed

lemma handle_unflagged:
  assumes "base \<in> twi_bases" and "\<not> ctl_int (ctl base (hw e))"
    and "TwiDriver_handle_isr P base s e = (s', e')"
  shows "s' = s" and "c \<in> twi_bases \<Longrightarrow> ctl c (hw e') = ctl c (hw e)" and "ax e' = ax e" and "ram e' = ram e"
proof -
  obtain v h1 where r: "bus_rd P (base + TWI_CNTR) (hw e) = (v, h1)" by fastforce
  then have "v AND CNTR_INT_FLAG = 0" using rd_cntr [OF assms(1) r] assms(2) by simp
  then have "s' = s" "e' = e\<lparr>hw := h1\<rparr>" using assms(3) r by (auto simp: TwiDriver_handle_isr_def mmio_read_def)
  then show "s' = s" "c \<in> twi_bases \<Longrightarrow> ctl c (hw e') = ctl c (hw e)" "ax e' = ax e" "ram e' = ram e"
    using rd_keeps [OF assms(1) _ _ r] by simp_all
qed

lemma finish_outcome:
  assumes "base \<in> twi_bases" and "twi_inv base s" and "twi_finish P base result s e = (s', e')"
  shows "after_finish base (ts_request (state_for base s)) (q_list (twi_queue_for base s)) s'"
    and "ctl base (hw e') = (ctl base (hw e))\<lparr>ctl_int := False, ctl_stp := True,
      ctl_sta := ctl_sta (ctl base (hw e)) \<or> q_list (twi_queue_for base s) \<noteq> []\<rparr>"
    and "ram e' = stored_result (ts_request (state_for base s)) result (ram e)"
    and "log (ax e') = log (ax e) @ resumed (ts_request (state_for base s))"
proof -
  let ?q = "twi_queue_for base s" and ?r = "ts_request (state_for base s)"
  have inv: "dq_inv ?q" using assms(2) by (simp add: twi_inv_def)
  have *: "after_finish base ?r (q_list ?q) s' \<and> ctl base (hw e') = (ctl base (hw e))\<lparr>ctl_int := False, ctl_stp := True,
        ctl_sta := ctl_sta (ctl base (hw e)) \<or> q_list ?q \<noteq> []\<rparr> \<and>
      ram e' = stored_result ?r result (ram e) \<and> log (ax e') = log (ax e) @ resumed ?r"
  proof (cases "q_list ?q")
    case Nil
    then obtain q' where "pop_from_isr TwiRequest_default ?q = (False, TwiRequest_default, q')"
      "dq_inv q'" "q_list q' = []"
      using dq.deq_empty [OF inv] by blast
    with assms(1,3) Nil show ?thesis
      by (auto simp: twi_finish_def Let_def after_finish_def twi_inv_def stored_result_def
          resumed_def store_u8_def ctl_store)
  next
    case (Cons r rs)
    then obtain q' where "pop_from_isr TwiRequest_default ?q = (True, r, q')"
      "dq_inv q'" "q_list q' = rs"
      using dq.deq_Cons [OF inv] by blast
    with assms(1,3) Cons show ?thesis
      by (auto simp: twi_finish_def Let_def after_finish_def twi_inv_def stored_result_def
          resumed_def store_u8_def twi_begin_def begun_def ctl_store)
  qed
  then show "after_finish base ?r (q_list ?q) s'"
    "ctl base (hw e') = (ctl base (hw e))\<lparr>ctl_int := False, ctl_stp := True,
      ctl_sta := ctl_sta (ctl base (hw e)) \<or> q_list ?q \<noteq> []\<rparr>"
    "ram e' = stored_result ?r result (ram e)" "log (ax e') = log (ax e) @ resumed ?r" by auto
qed

text \<open>The handler for each status, with the flag shown.\<close>

lemma isr_address:
  assumes "base \<in> twi_bases" and "ctl_int (ctl base (hw e))"
    and "ctl_stat (ctl base (hw e)) = STAT_START \<or> ctl_stat (ctl base (hw e)) = STAT_REPEAT_START"
  shows "\<exists>e'. TwiDriver_handle_isr P base s e = (s, e') \<and> ax e' = ax e \<and> ram e' = ram e \<and>
    ctl base (hw e') = (ctl base (hw e))\<lparr>ctl_int := False, ctl_data := address_byte (ts_address (state_for base s))
      (ts_phase_is_read (state_for base s))\<rparr>"
  by (rule handle_flagged [OF assms(1,2), where s = s])
    (use assms(1,3) in \<open>auto simp: twi_dispatch_def Let_def ctl_store\<close>)

lemma isr_register:
  assumes "base \<in> twi_bases" and "ctl_int (ctl base (hw e))" and "ctl_stat (ctl base (hw e)) = STAT_ADDR_W_ACK"
    and "\<not> ts_sent_reg_addr (state_for base s)"
  shows "\<exists>e'. TwiDriver_handle_isr P base s e =
      (set_state_for base ((state_for base s)\<lparr>ts_sent_reg_addr := True\<rparr>) s, e') \<and> ax e' = ax e \<and> ram e' = ram e \<and>
    ctl base (hw e') = (ctl base (hw e))\<lparr>ctl_int := False, ctl_data := ts_reg_addr (state_for base s)\<rparr>"
  by (rule handle_flagged [OF assms(1,2), where s = s])
    (use assms(1,3,4) in \<open>auto simp: twi_dispatch_def Let_def ctl_store\<close>)

lemma isr_repeat_start:
  assumes "base \<in> twi_bases" and "ctl_int (ctl base (hw e))" and "ctl_stat (ctl base (hw e)) = STAT_DATA_TX_ACK"
    and "tw_is_read (ts_request (state_for base s))" and "ts_sent_reg_addr (state_for base s)"
    and "ts_index (state_for base s) = 0"
  shows "\<exists>e'. TwiDriver_handle_isr P base s e =
      (set_state_for base ((state_for base s)\<lparr>ts_phase_is_read := True\<rparr>) s, e') \<and> ax e' = ax e \<and> ram e' = ram e \<and>
    ctl base (hw e') = (ctl base (hw e))\<lparr>ctl_int := False, ctl_sta := True\<rparr>"
  by (rule handle_flagged [OF assms(1,2), where s = s])
    (use assms(1,3-) in \<open>auto simp: twi_dispatch_def Let_def ctl_store\<close>)

lemma isr_read_address:
  assumes "base \<in> twi_bases" and "ctl_int (ctl base (hw e))" and "ctl_stat (ctl base (hw e)) = STAT_ADDR_R_ACK"
  shows "\<exists>e'. TwiDriver_handle_isr P base s e = (s, e') \<and> ax e' = ax e \<and> ram e' = ram e \<and>
    ctl base (hw e') = (ctl base (hw e))\<lparr>ctl_int := False, ctl_ack := True\<rparr>"
  by (rule handle_flagged [OF assms(1,2), where s = s])
    (use assms(1,3) in \<open>auto simp: twi_dispatch_def Let_def ctl_store\<close>)

lemma isr_send_byte:
  assumes "base \<in> twi_bases" and "ctl_int (ctl base (hw e))" and "ctl_stat (ctl base (hw e)) = STAT_DATA_TX_ACK"
    and "\<not> tw_is_read (ts_request (state_for base s))"
    and "ts_index (state_for base s) < tw_length (ts_request (state_for base s))"
  shows "\<exists>e'. TwiDriver_handle_isr P base s e =
      (set_state_for base ((state_for base s)\<lparr>ts_index := ts_index (state_for base s) + 1\<rparr>) s, e') \<and>
    ax e' = ax e \<and> ram e' = ram e \<and>
    ctl base (hw e') = (ctl base (hw e))\<lparr>ctl_int := False,
      ctl_data := ram e (tw_buffer (ts_request (state_for base s)) + ucast (ts_index (state_for base s)))\<rparr>"
  by (rule handle_flagged [OF assms(1,2), where s = s])
    (use assms(1,3-) in \<open>auto simp: twi_dispatch_def write_next_byte_def Let_def ctl_store\<close>)

lemma isr_send_done:
  assumes "base \<in> twi_bases" and "twi_inv base s" and "ctl_int (ctl base (hw e))"
    and "ctl_stat (ctl base (hw e)) = STAT_DATA_TX_ACK" and "\<not> tw_is_read (ts_request (state_for base s))"
    and "ts_index (state_for base s) = tw_length (ts_request (state_for base s))"
  shows "\<exists>s' e'. TwiDriver_handle_isr P base s e = (s', e') \<and>
    after_finish base (ts_request (state_for base s)) (q_list (twi_queue_for base s)) s' \<and>
    ctl base (hw e') = (ctl base (hw e))\<lparr>ctl_int := False, ctl_stp := True,
      ctl_sta := ctl_sta (ctl base (hw e)) \<or> q_list (twi_queue_for base s) \<noteq> []\<rparr> \<and>
    ram e' = stored_result (ts_request (state_for base s)) Ok (ram e) \<and>
    log (ax e') = log (ax e) @ resumed (ts_request (state_for base s))"
proof (rule handle_flagged [OF assms(1,3), where s = s])
  fix e2
  assume same: "\<And>c. c \<in> twi_bases \<Longrightarrow> ctl c (hw e2) = ctl c (hw e)" "ax e2 = ax e" "ram e2 = ram e"
    and isr: "TwiDriver_handle_isr P base s e =
      (let (returned, s1, e3) = twi_dispatch P base (ctl_stat (ctl base (hw e))) s e2
       in if returned then (s1, e3) else (s1, mmio_modify P (base + TWI_CNTR) (\<lambda>c. c OR CNTR_INT_FLAG) e3))"
  obtain s' e3 where f: "twi_finish P base Ok s e2 = (s', e3)" by fastforce
  have "twi_dispatch P base STAT_DATA_TX_ACK s e2 = (False, s', e3)"
    using assms(5,6) f by (simp add: twi_dispatch_def write_next_byte_def Let_def)
  then show ?thesis
    using isr same assms(1,4) finish_outcome [OF assms(1,2) f] by (simp add: ctl_store)
qed

lemma read_next_byte_effect:
  assumes "base \<in> twi_bases" and "read_next_byte P base s e = (s', e')"
  shows "s' = set_state_for base ((state_for base s)\<lparr>ts_index := received_index (state_for base s)\<rparr>) s"
    and "ax e' = ax e"
    and "ram e' = received_ram (state_for base s) (ctl_data (ctl base (hw e))) (ram e)"
    and "ctl base (hw e') =
      (if unat (tw_length (ts_request (state_for base s))) \<le> Suc (unat (received_index (state_for base s)))
       then (ctl base (hw e))\<lparr>ctl_int := False, ctl_ack := False\<rparr> else ctl base (hw e))"
proof -
  obtain v h' where r: "bus_rd P (base + TWI_DATA) (hw e) = (v, h')" by fastforce
  have v: "ucast v = ctl_data (ctl base (hw e))" "ctl base h' = ctl base (hw e)"
    using rd_data [OF assms(1) r] rd_keeps [OF assms(1,1) _ r] by simp_all
  show "s' = set_state_for base ((state_for base s)\<lparr>ts_index := received_index (state_for base s)\<rparr>) s"
    "ax e' = ax e" "ram e' = received_ram (state_for base s) (ctl_data (ctl base (hw e))) (ram e)"
    "ctl base (hw e') =
      (if unat (tw_length (ts_request (state_for base s))) \<le> Suc (unat (received_index (state_for base s)))
       then (ctl base (hw e))\<lparr>ctl_int := False, ctl_ack := False\<rparr> else ctl base (hw e))"
    using assms r v
    by (auto simp: read_next_byte_def mmio_read_def Let_def store_u8_def received_index_def received_ram_def
        last_byte_next ctl_store split: if_splits)
qed

lemma isr_receive:
  assumes "base \<in> twi_bases" and "ctl_int (ctl base (hw e))" and "ctl_stat (ctl base (hw e)) = STAT_DATA_RX_ACK"
  shows "\<exists>e'. TwiDriver_handle_isr P base s e =
      (set_state_for base ((state_for base s)\<lparr>ts_index := received_index (state_for base s)\<rparr>) s, e') \<and> ax e' = ax e \<and>
    ram e' = received_ram (state_for base s) (ctl_data (ctl base (hw e))) (ram e) \<and>
    ctl base (hw e') = (ctl base (hw e))\<lparr>ctl_int := False, ctl_ack := ctl_ack (ctl base (hw e)) \<and>
      Suc (unat (received_index (state_for base s))) < unat (tw_length (ts_request (state_for base s)))\<rparr>"
proof (rule handle_flagged [OF assms(1,2), where s = s])
  fix e2
  assume same: "\<And>c. c \<in> twi_bases \<Longrightarrow> ctl c (hw e2) = ctl c (hw e)" "ax e2 = ax e" "ram e2 = ram e"
    and isr: "TwiDriver_handle_isr P base s e =
      (let (returned, s1, e3) = twi_dispatch P base (ctl_stat (ctl base (hw e))) s e2
       in if returned then (s1, e3) else (s1, mmio_modify P (base + TWI_CNTR) (\<lambda>c. c OR CNTR_INT_FLAG) e3))"
  obtain s' e3 where r: "read_next_byte P base s e2 = (s', e3)" by fastforce
  then have "twi_dispatch P base STAT_DATA_RX_ACK s e2 = (False, s', e3)" by (simp add: twi_dispatch_def)
  then show ?thesis
    using isr same assms(1,3) read_next_byte_effect [OF assms(1) r] by (simp add: ctl_store not_le)
qed

lemma isr_receive_last:
  assumes "base \<in> twi_bases" and "twi_inv base s" and "ctl_int (ctl base (hw e))"
    and "ctl_stat (ctl base (hw e)) = STAT_DATA_RX_NACK"
  shows "\<exists>s' e'. TwiDriver_handle_isr P base s e = (s', e') \<and>
    after_finish base (ts_request (state_for base s)) (q_list (twi_queue_for base s)) s' \<and>
    (\<exists>ack. ctl base (hw e') = (ctl base (hw e))\<lparr>ctl_int := False, ctl_ack := ack, ctl_stp := True,
      ctl_sta := ctl_sta (ctl base (hw e)) \<or> q_list (twi_queue_for base s) \<noteq> []\<rparr>) \<and>
    ram e' = stored_result (ts_request (state_for base s)) Ok
      (received_ram (state_for base s) (ctl_data (ctl base (hw e))) (ram e)) \<and>
    log (ax e') = log (ax e) @ resumed (ts_request (state_for base s))"
proof (rule handle_flagged [OF assms(1,3), where s = s])
  fix e2
  assume same: "\<And>c. c \<in> twi_bases \<Longrightarrow> ctl c (hw e2) = ctl c (hw e)" "ax e2 = ax e" "ram e2 = ram e"
    and isr: "TwiDriver_handle_isr P base s e =
      (let (returned, s1, e3) = twi_dispatch P base (ctl_stat (ctl base (hw e))) s e2
       in if returned then (s1, e3) else (s1, mmio_modify P (base + TWI_CNTR) (\<lambda>c. c OR CNTR_INT_FLAG) e3))"
  obtain s1 e3 where r: "read_next_byte P base s e2 = (s1, e3)" by fastforce
  note b = read_next_byte_effect [OF assms(1) r]
  obtain s' e4 where f: "twi_finish P base Ok s1 e3 = (s', e4)" by fastforce
  have "twi_dispatch P base STAT_DATA_RX_NACK s e2 = (True, s', e4)" using r f by (simp add: twi_dispatch_def)
  moreover have inv: "twi_inv base s1" using assms(2) b(1) by simp
  moreover have "\<exists>ack. ctl base (hw e3)\<lparr>ctl_int := False\<rparr> = (ctl base (hw e))\<lparr>ctl_int := False, ctl_ack := ack\<rparr>"
    using b(4) same(1) [OF assms(1)] by (cases "ctl base (hw e)") (auto split: if_splits)
  then obtain ack where "ctl base (hw e3)\<lparr>ctl_int := False\<rparr> = (ctl base (hw e))\<lparr>ctl_int := False, ctl_ack := ack\<rparr>" by blast
  then have "ctl base (hw e4) = (ctl base (hw e))\<lparr>ctl_int := False, ctl_ack := ack, ctl_stp := True,
      ctl_sta := ctl_sta (ctl base (hw e)) \<or> q_list (twi_queue_for base s) \<noteq> []\<rparr>"
    using finish_outcome(2) [OF assms(1) inv f] b(1)
    by (cases "ctl base (hw e)"; cases "ctl base (hw e3)") simp
  ultimately show ?thesis
    using isr same assms(1,4) b finish_outcome [OF assms(1) inv f] by auto
qed

text \<open>A status outside the protocol ends the transfer with an error.\<close>

lemma isr_error:
  assumes "base \<in> twi_bases" and "twi_inv base s" and "ctl_int (ctl base (hw e))"
    and "ctl_stat (ctl base (hw e)) \<notin> {STAT_START, STAT_REPEAT_START, STAT_ADDR_W_ACK, STAT_DATA_TX_ACK,
      STAT_ADDR_R_ACK, STAT_DATA_RX_ACK, STAT_DATA_RX_NACK}"
  shows "\<exists>s' e'. TwiDriver_handle_isr P base s e = (s', e') \<and>
    after_finish base (ts_request (state_for base s)) (q_list (twi_queue_for base s)) s' \<and>
    ctl base (hw e') = (ctl base (hw e))\<lparr>ctl_int := False, ctl_stp := True,
      ctl_sta := ctl_sta (ctl base (hw e)) \<or> q_list (twi_queue_for base s) \<noteq> []\<rparr> \<and>
    ram e' = stored_result (ts_request (state_for base s))
      (if ctl_stat (ctl base (hw e)) = STAT_BUS_ERROR then BusError else Nack) (ram e) \<and>
    log (ax e') = log (ax e) @ resumed (ts_request (state_for base s))"
proof (rule handle_flagged [OF assms(1,3), where s = s])
  fix e2
  let ?st = "ctl_stat (ctl base (hw e))"
  assume same: "\<And>c. c \<in> twi_bases \<Longrightarrow> ctl c (hw e2) = ctl c (hw e)" "ax e2 = ax e" "ram e2 = ram e"
    and isr: "TwiDriver_handle_isr P base s e =
      (let (returned, s1, e3) = twi_dispatch P base ?st s e2
       in if returned then (s1, e3) else (s1, mmio_modify P (base + TWI_CNTR) (\<lambda>c. c OR CNTR_INT_FLAG) e3))"
  obtain s' e3 where f: "twi_finish P base (if ?st = STAT_BUS_ERROR then BusError else Nack) s e2 = (s', e3)" by fastforce
  then have "twi_dispatch P base ?st s e2 = (True, s', e3)"
    using assms(4) by (auto simp: twi_dispatch_def Let_def)
  then show ?thesis
    using isr same assms(1) finish_outcome [OF assms(1,2) f] by simp
qed

text \<open>The controller goes on and the handler runs: one lemma per phase of a transfer.\<close>

lemma advanced: "base \<in> twi_bases \<Longrightarrow> ctl base (hw (e\<lparr>hw := advance base d (hw e)\<rparr>)) = ctl_next d (ctl base (hw e))"
  by (simp add: ctl_advance)

lemma drive_start:
  assumes "base \<in> twi_bases" and "start_requested (ctl base (hw e))"
  shows "\<exists>e'. TwiDriver_handle_isr P base s (e\<lparr>hw := advance base (Answer a v) (hw e)\<rparr>) = (s, e') \<and>
    ax e' = ax e \<and> ram e' = ram e \<and>
    working Bus_address (wire_after (ctl base (hw e)))
      (address_byte (ts_address (state_for base s)) (ts_phase_is_read (state_for base s))) (ctl base (hw e'))"
proof -
  let ?c = "ctl base (hw e)" and ?e = "e\<lparr>hw := advance base (Answer a v) (hw e)\<rparr>"
  have c: "ctl base (hw ?e) = ?c\<lparr>ctl_stp := False, ctl_sta := False, ctl_mode := Bus_address, ctl_int := True,
      ctl_stat := 0x08, ctl_wire := wire_after ?c\<rparr>"
    using assms(2) unfolding advanced [OF assms(1)]
    by (cases ?c) (auto simp: start_requested_def ctl_next_def stop_if_requested_def on_wire_def interrupt_with_def
        wire_after_def)
  show ?thesis
    using isr_address [OF assms(1), of ?e s] assms(2) unfolding c
    by (auto simp: working_def start_requested_def STAT_START_def)
qed

lemma drive_repeated_start:
  assumes "base \<in> twi_bases" and "working Bus_transmit w d c" and "ctl base (hw e) = c\<lparr>ctl_sta := True\<rparr>"
  shows "\<exists>e'. TwiDriver_handle_isr P base s (e\<lparr>hw := advance base (Answer a v) (hw e)\<rparr>) = (s, e') \<and>
    ax e' = ax e \<and> ram e' = ram e \<and>
    working Bus_address (w @ [StartCond])
      (address_byte (ts_address (state_for base s)) (ts_phase_is_read (state_for base s))) (ctl base (hw e'))"
proof -
  let ?e = "e\<lparr>hw := advance base (Answer a v) (hw e)\<rparr>"
  have c: "ctl base (hw ?e) = c\<lparr>ctl_sta := False, ctl_mode := Bus_address, ctl_int := True,
      ctl_stat := 0x10, ctl_wire := w @ [StartCond]\<rparr>"
    using assms(2) unfolding advanced [OF assms(1)] assms(3)
    by (cases c) (auto simp: working_def ctl_next_def stop_if_requested_def on_wire_def interrupt_with_def)
  show ?thesis
    using isr_address [OF assms(1), of ?e s] assms(2) unfolding c
    by (auto simp: working_def STAT_REPEAT_START_def)
qed

lemma working_next:
  assumes "working m w d c" and "m \<noteq> Bus_idle"
  shows "ctl_next (Answer a v) c =
    (case m of
       Bus_address \<Rightarrow> if bit d 0
         then c\<lparr>ctl_mode := Bus_receive, ctl_int := True, ctl_stat := if a then 0x40 else 0x48, ctl_wire := w @ [SentByte d a]\<rparr>
         else c\<lparr>ctl_mode := Bus_transmit, ctl_int := True, ctl_stat := if a then 0x18 else 0x20, ctl_wire := w @ [SentByte d a]\<rparr>
     | Bus_receive \<Rightarrow> c\<lparr>ctl_data := v, ctl_int := True, ctl_stat := if ctl_ack c then 0x50 else 0x58,
         ctl_wire := w @ [ReceivedByte v (ctl_ack c)]\<rparr>
     | _ \<Rightarrow> c\<lparr>ctl_int := True, ctl_stat := if a then 0x28 else 0x30, ctl_wire := w @ [SentByte d a]\<rparr>)"
  using assms
  by (cases c; cases m)
    (auto simp: working_def ctl_next_def stop_if_requested_def on_wire_def interrupt_with_def)

lemma drive_register:
  assumes "base \<in> twi_bases" and "working Bus_address w d (ctl base (hw e))" and "\<not> bit d 0"
    and "\<not> ts_sent_reg_addr (state_for base s)"
  shows "\<exists>e'. TwiDriver_handle_isr P base s (e\<lparr>hw := advance base (Answer True v) (hw e)\<rparr>) =
      (set_state_for base ((state_for base s)\<lparr>ts_sent_reg_addr := True\<rparr>) s, e') \<and> ax e' = ax e \<and> ram e' = ram e \<and>
    working Bus_transmit (w @ [SentByte d True]) (ts_reg_addr (state_for base s)) (ctl base (hw e'))"
proof -
  let ?e = "e\<lparr>hw := advance base (Answer True v) (hw e)\<rparr>"
  have "ctl base (hw ?e) = (ctl base (hw e))\<lparr>ctl_mode := Bus_transmit, ctl_int := True, ctl_stat := 0x18,
      ctl_wire := w @ [SentByte d True]\<rparr>"
    using assms(3) by (simp add: ctl_advance [OF assms(1,1)] working_next [OF assms(2)])
  then show ?thesis
    using isr_register [OF assms(1) _ _ assms(4), of ?e] assms(2) by (auto simp: working_def STAT_ADDR_W_ACK_def)
qed

lemma drive_read_address:
  assumes "base \<in> twi_bases" and "working Bus_address w d (ctl base (hw e))" and "bit d 0"
  shows "\<exists>e'. TwiDriver_handle_isr P base s (e\<lparr>hw := advance base (Answer True v) (hw e)\<rparr>) = (s, e') \<and>
    ax e' = ax e \<and> ram e' = ram e \<and>
    working Bus_receive (w @ [SentByte d True]) d (ctl base (hw e')) \<and> ctl_ack (ctl base (hw e'))"
proof -
  let ?e = "e\<lparr>hw := advance base (Answer True v) (hw e)\<rparr>"
  have "ctl base (hw ?e) = (ctl base (hw e))\<lparr>ctl_mode := Bus_receive, ctl_int := True, ctl_stat := 0x40,
      ctl_wire := w @ [SentByte d True]\<rparr>"
    using assms(3) by (simp add: ctl_advance [OF assms(1,1)] working_next [OF assms(2)])
  then show ?thesis
    using isr_read_address [OF assms(1), of ?e s] assms(2) by (auto simp: working_def STAT_ADDR_R_ACK_def)
qed

lemma advanced_transmit:
  assumes "base \<in> twi_bases" and "working Bus_transmit w d (ctl base (hw e))"
  shows "ctl base (hw (e\<lparr>hw := advance base (Answer True v) (hw e)\<rparr>)) =
    (ctl base (hw e))\<lparr>ctl_int := True, ctl_stat := STAT_DATA_TX_ACK, ctl_wire := w @ [SentByte d True]\<rparr>"
  by (simp add: ctl_advance [OF assms(1,1)] working_next [OF assms(2)] STAT_DATA_TX_ACK_def)

lemma drive_request_read:
  assumes "base \<in> twi_bases" and "working Bus_transmit w d (ctl base (hw e))"
    and "tw_is_read (ts_request (state_for base s))" and "ts_sent_reg_addr (state_for base s)"
    and "ts_index (state_for base s) = 0"
  shows "\<exists>e' c. TwiDriver_handle_isr P base s (e\<lparr>hw := advance base (Answer True v) (hw e)\<rparr>) =
      (set_state_for base ((state_for base s)\<lparr>ts_phase_is_read := True\<rparr>) s, e') \<and> ax e' = ax e \<and> ram e' = ram e \<and>
    working Bus_transmit (w @ [SentByte d True]) d c \<and> ctl base (hw e') = c\<lparr>ctl_sta := True\<rparr>"
  using isr_repeat_start [OF assms(1) _ _ assms(3-5), of "e\<lparr>hw := advance base (Answer True v) (hw e)\<rparr>"] assms(2)
    advanced_transmit [OF assms(1,2), of v]
  by (auto simp: working_def intro!: exI [of _ "(ctl base (hw e))\<lparr>ctl_stat := STAT_DATA_TX_ACK, ctl_wire := w @ [SentByte d True]\<rparr>"])

lemma drive_send_byte:
  assumes "base \<in> twi_bases" and "working Bus_transmit w d (ctl base (hw e))"
    and "\<not> tw_is_read (ts_request (state_for base s))"
    and "ts_index (state_for base s) < tw_length (ts_request (state_for base s))"
  shows "\<exists>e'. TwiDriver_handle_isr P base s (e\<lparr>hw := advance base (Answer True v) (hw e)\<rparr>) =
      (set_state_for base ((state_for base s)\<lparr>ts_index := ts_index (state_for base s) + 1\<rparr>) s, e') \<and>
    ax e' = ax e \<and> ram e' = ram e \<and>
    working Bus_transmit (w @ [SentByte d True])
      (ram e (tw_buffer (ts_request (state_for base s)) + ucast (ts_index (state_for base s)))) (ctl base (hw e'))"
  using isr_send_byte [OF assms(1) _ _ assms(3,4), of "e\<lparr>hw := advance base (Answer True v) (hw e)\<rparr>"] assms(2)
    advanced_transmit [OF assms(1,2), of v]
  by (auto simp: working_def)

lemma drive_send_done:
  assumes "base \<in> twi_bases" and "working Bus_transmit w d (ctl base (hw e))" and "twi_inv base s"
    and "\<not> tw_is_read (ts_request (state_for base s))"
    and "ts_index (state_for base s) = tw_length (ts_request (state_for base s))"
  shows "\<exists>s' e'. TwiDriver_handle_isr P base s (e\<lparr>hw := advance base (Answer True v) (hw e)\<rparr>) = (s', e') \<and>
    after_finish base (ts_request (state_for base s)) (q_list (twi_queue_for base s)) s' \<and>
    released (q_list (twi_queue_for base s)) (w @ [SentByte d True]) (ctl base (hw e')) \<and>
    ram e' = stored_result (ts_request (state_for base s)) Ok (ram e) \<and>
    log (ax e') = log (ax e) @ resumed (ts_request (state_for base s))"
proof -
  let ?c = "(ctl base (hw e))\<lparr>ctl_int := True, ctl_stat := STAT_DATA_TX_ACK, ctl_wire := w @ [SentByte d True]\<rparr>"
  have "\<not> ctl_sta ?c" "ctl_bus_en ?c" "ctl_int_en ?c" using assms(2) by (simp_all add: working_def)
  note released_finish [OF this, of "q_list (twi_queue_for base s)"]
  then show ?thesis
    using isr_send_done [OF assms(1,3) _ _ assms(4,5), of "e\<lparr>hw := advance base (Answer True v) (hw e)\<rparr>"] assms(2)
      advanced_transmit [OF assms(1,2), of v]
    by (auto simp: working_def)
qed

lemma drive_receive:
  assumes "base \<in> twi_bases" and "working Bus_receive w d (ctl base (hw e))" and "ctl_ack (ctl base (hw e))"
  shows "\<exists>e'. TwiDriver_handle_isr P base s (e\<lparr>hw := advance base (Answer a v) (hw e)\<rparr>) =
      (set_state_for base ((state_for base s)\<lparr>ts_index := received_index (state_for base s)\<rparr>) s, e') \<and> ax e' = ax e \<and>
    ram e' = received_ram (state_for base s) v (ram e) \<and>
    working Bus_receive (w @ [ReceivedByte v True]) v (ctl base (hw e')) \<and>
    ctl_ack (ctl base (hw e')) = (Suc (unat (received_index (state_for base s))) <
      unat (tw_length (ts_request (state_for base s))))"
proof -
  let ?e = "e\<lparr>hw := advance base (Answer a v) (hw e)\<rparr>"
  have "ctl base (hw ?e) = (ctl base (hw e))\<lparr>ctl_data := v, ctl_int := True, ctl_stat := 0x50,
      ctl_wire := w @ [ReceivedByte v True]\<rparr>"
    using assms(3) by (simp add: ctl_advance [OF assms(1,1)] working_next [OF assms(2)])
  then show ?thesis
    using isr_receive [OF assms(1), of ?e s] assms(2,3) by (auto simp: working_def STAT_DATA_RX_ACK_def)
qed

lemma drive_receive_last:
  assumes "base \<in> twi_bases" and "working Bus_receive w d (ctl base (hw e))" and "\<not> ctl_ack (ctl base (hw e))"
    and "twi_inv base s"
  shows "\<exists>s' e'. TwiDriver_handle_isr P base s (e\<lparr>hw := advance base (Answer a v) (hw e)\<rparr>) = (s', e') \<and>
    after_finish base (ts_request (state_for base s)) (q_list (twi_queue_for base s)) s' \<and>
    released (q_list (twi_queue_for base s)) (w @ [ReceivedByte v False]) (ctl base (hw e')) \<and>
    ram e' = stored_result (ts_request (state_for base s)) Ok (received_ram (state_for base s) v (ram e)) \<and>
    log (ax e') = log (ax e) @ resumed (ts_request (state_for base s))"
proof -
  let ?e = "e\<lparr>hw := advance base (Answer a v) (hw e)\<rparr>"
  let ?c = "(ctl base (hw e))\<lparr>ctl_data := v, ctl_int := True, ctl_stat := 0x58, ctl_wire := w @ [ReceivedByte v False]\<rparr>"
  have c: "ctl base (hw ?e) = ?c"
    using assms(3) by (simp add: ctl_advance [OF assms(1,1)] working_next [OF assms(2)])
  then obtain s' e' ack where r: "TwiDriver_handle_isr P base s ?e = (s', e')"
    "after_finish base (ts_request (state_for base s)) (q_list (twi_queue_for base s)) s'"
    "ctl base (hw e') = ?c\<lparr>ctl_int := False, ctl_ack := ack, ctl_stp := True,
      ctl_sta := ctl_sta ?c \<or> q_list (twi_queue_for base s) \<noteq> []\<rparr>"
    "ram e' = stored_result (ts_request (state_for base s)) Ok (received_ram (state_for base s) v (ram e))"
    "log (ax e') = log (ax e) @ resumed (ts_request (state_for base s))"
    using isr_receive_last [OF assms(1,4), of ?e] by (auto simp: STAT_DATA_RX_NACK_def)
  then show ?thesis
    using assms(2) by (simp add: working_def released_def wire_after_def bus_at_rest_def start_requested_def)
qed

lemma tx_run:
  assumes "base \<in> twi_bases" and "working Bus_transmit w d (ctl base (hw e))" and "twi_inv base s"
    and "\<not> tw_is_read (ts_request (state_for base s))"
    and "unat (ts_index (state_for base s)) + n = unat (tw_length (ts_request (state_for base s)))"
    and "length vs = Suc n"
  shows "\<exists>s' e'. twi_drive P advance base (map (Answer True) vs) (s, e) = (s', e') \<and>
    after_finish base (ts_request (state_for base s)) (q_list (twi_queue_for base s)) s' \<and>
    released (q_list (twi_queue_for base s)) (w @ map (\<lambda>b. SentByte b True) (d # load_bytes
      (tw_buffer (ts_request (state_for base s)) + ucast (ts_index (state_for base s))) n (ram e))) (ctl base (hw e')) \<and>
    ram e' = stored_result (ts_request (state_for base s)) Ok (ram e) \<and>
    log (ax e') = log (ax e) @ resumed (ts_request (state_for base s))"
  using assms(2-)
proof (induction n arbitrary: s e w d vs)
  case 0
  then obtain v where v: "vs = [v]" by (auto simp: length_Suc_conv)
  have "ts_index (state_for base s) = tw_length (ts_request (state_for base s))"
    using 0 by (simp add: word_unat_eq_iff)
  then show ?case using drive_send_done [OF assms(1) 0(1-3), of v] v by auto
next
  case (Suc n)
  let ?st = "state_for base s"
  obtain v vs' where v: "vs = v # vs'" "length vs' = Suc n" using Suc.prems(5) by (auto simp: length_Suc_conv)
  have lt: "ts_index ?st < tw_length (ts_request ?st)"
    using Suc.prems(4) by (simp add: word_less_nat_alt)
  note next_index = ucast_index_Suc [OF lt]
  let ?s1 = "set_state_for base (?st\<lparr>ts_index := ts_index ?st + 1\<rparr>) s"
  obtain e1 where e1: "TwiDriver_handle_isr P base s (e\<lparr>hw := advance base (Answer True v) (hw e)\<rparr>) = (?s1, e1)"
    "ax e1 = ax e" "ram e1 = ram e" "working Bus_transmit (w @ [SentByte d True])
      (ram e (tw_buffer (ts_request ?st) + ucast (ts_index ?st))) (ctl base (hw e1))"
    using drive_send_byte [OF assms(1) Suc.prems(1,3) lt, of v] by blast
  show ?case
    using Suc.IH [OF e1(4), of ?s1 vs'] Suc.prems(2-4) next_index e1(1-3) v by (auto simp: add.assoc)
qed

lemma received_index_step:
  assumes "ts_index st < tw_length (ts_request st)"
  shows "unat (received_index st) = Suc (unat (ts_index st))"
    and "(ucast (received_index st) :: u32) = ucast (ts_index st) + 1"
  using ucast_index_Suc [OF assms] assms by (simp_all add: received_index_def)

text \<open>The bytes after the first one: the acknowledge is off as soon as one byte is missing.\<close>

lemma rx_run:
  assumes "base \<in> twi_bases" and "working Bus_receive w d (ctl base (hw e))" and "twi_inv base s"
    and "unat (ts_index (state_for base s)) \<le> unat (tw_length (ts_request (state_for base s)))"
    and "ctl_ack (ctl base (hw e)) =
      (Suc (unat (ts_index (state_for base s))) < unat (tw_length (ts_request (state_for base s))))"
    and "length vs = max 1 (unat (tw_length (ts_request (state_for base s))) - unat (ts_index (state_for base s)))"
  shows "\<exists>s' e'. twi_drive P advance base (map (Answer True) vs) (s, e) = (s', e') \<and>
    after_finish base (ts_request (state_for base s)) (q_list (twi_queue_for base s)) s' \<and>
    released (q_list (twi_queue_for base s))
      (w @ map (\<lambda>v. ReceivedByte v True) (butlast vs) @ [ReceivedByte (last vs) False]) (ctl base (hw e')) \<and>
    ram e' = stored_result (ts_request (state_for base s)) Ok (store_bytes (tw_buffer
      (ts_request (state_for base s)) + ucast (ts_index (state_for base s)))
      (take (unat (tw_length (ts_request (state_for base s))) - unat (ts_index (state_for base s))) vs) (ram e)) \<and>
    log (ax e') = log (ax e) @ resumed (ts_request (state_for base s))"
  using assms(2-)
proof (induction vs arbitrary: s e w d)
  case Nil
  then show ?case by simp
next
  case (Cons v vs)
  let ?st = "state_for base s" and ?n = "unat (tw_length (ts_request (state_for base s)))"
  show ?case
  proof (cases "Suc (unat (ts_index ?st)) < ?n")
    case False
    then have "length (v # vs) \<le> 1" unfolding Cons.prems(5) by simp
    then have "vs = []" by simp
    moreover have "\<not> ctl_ack (ctl base (hw e))" using Cons.prems(4) False by simp
    note drive_receive_last [OF assms(1) Cons.prems(1) this Cons.prems(2), of True v]
    moreover have "received_ram ?st v (ram e) =
        store_bytes (tw_buffer (ts_request ?st) + ucast (ts_index ?st)) (take (?n - unat (ts_index ?st)) [v]) (ram e)"
      using False Cons.prems(3)
      by (cases "ts_index ?st < tw_length (ts_request ?st)") (auto simp: received_ram_def word_less_nat_alt fun_upd_def)
    ultimately show ?thesis by auto
  next
    case True
    then have lt: "ts_index ?st < tw_length (ts_request ?st)" by (simp add: word_less_nat_alt)
    note next_index = received_index_step [OF lt]
    let ?s1 = "set_state_for base (?st\<lparr>ts_index := received_index ?st\<rparr>) s"
    have "ctl_ack (ctl base (hw e))" using Cons.prems(4) True by simp
    then obtain e1 where e1: "TwiDriver_handle_isr P base s (e\<lparr>hw := advance base (Answer True v) (hw e)\<rparr>) = (?s1, e1)"
      "ax e1 = ax e" "ram e1 = received_ram ?st v (ram e)"
      "working Bus_receive (w @ [ReceivedByte v True]) v (ctl base (hw e1))"
      "ctl_ack (ctl base (hw e1)) = (Suc (unat (received_index ?st)) < ?n)"
      using drive_receive [OF assms(1) Cons.prems(1)] by blast
    have l: "length vs = max 1 (?n - Suc (unat (ts_index ?st)))" "vs \<noteq> []"
      using Cons.prems(5) True by (auto simp: max_def split: if_splits)
    have t: "take (?n - unat (ts_index ?st)) (v # vs) = v # take (?n - Suc (unat (ts_index ?st))) vs"
      using True by (metis Suc_diff_Suc Suc_lessD take_Suc_Cons)
    show ?thesis
      using Cons.IH [OF e1(4), of ?s1] Cons.prems(2) True next_index e1 l t lt
      by (auto simp: add.assoc received_ram_def fun_upd_def)
  qed
qed

lemma write_transfer:
  assumes "base \<in> twi_bases" and "twi_inv base s" and "state_for base s = begun r" and "\<not> tw_is_read r"
    and "start_requested (ctl base (hw e))" and "length vs = unat (tw_length r) + 3"
  shows "\<exists>s' e'. twi_drive P advance base (map (Answer True) vs) (s, e) = (s', e') \<and>
    after_finish base r (q_list (twi_queue_for base s)) s' \<and>
    released (q_list (twi_queue_for base s)) (wire_after (ctl base (hw e)) @ map (\<lambda>b. SentByte b True)
      (address_byte (tw_address r) False # tw_reg_addr r # load_bytes (tw_buffer r) (unat (tw_length r)) (ram e)))
      (ctl base (hw e')) \<and>
    ram e' = stored_result r Ok (ram e) \<and> log (ax e') = log (ax e) @ resumed r"
proof -
  obtain v1 v2 vs' where vs: "vs = v1 # v2 # vs'" "length vs' = Suc (unat (tw_length r))"
    using assms(6) by (auto simp: length_Suc_conv numeral_3_eq_3)
  let ?a = "address_byte (tw_address r) False"
  obtain e1 where e1: "TwiDriver_handle_isr P base s (e\<lparr>hw := advance base (Answer True v1) (hw e)\<rparr>) = (s, e1)"
    "ax e1 = ax e" "ram e1 = ram e" "working Bus_address (wire_after (ctl base (hw e))) ?a (ctl base (hw e1))"
    using drive_start [OF assms(1,5), of s True v1] assms(3) by (auto simp: begun_def)
  let ?s2 = "set_state_for base ((begun r)\<lparr>ts_sent_reg_addr := True\<rparr>) s"
  obtain e2 where e2: "TwiDriver_handle_isr P base s (e1\<lparr>hw := advance base (Answer True v2) (hw e1)\<rparr>) = (?s2, e2)"
    "ax e2 = ax e1" "ram e2 = ram e1" "working Bus_transmit (wire_after (ctl base (hw e)) @ [SentByte ?a True]) (tw_reg_addr r)
      (ctl base (hw e2))"
    using drive_register [OF assms(1) e1(4), of s v2] assms(3) by (auto simp: begun_def address_byte_bits)
  show ?thesis
    using tx_run [OF assms(1) e2(4), where s = ?s2 and n = "unat (tw_length r)" and vs = vs'] assms e1 e2 vs
    by (simp add: begun_def)
qed

text \<open>The first part of a read: the register address is written, the bus is started again, the device addressed for
  reading.\<close>

lemma read_addressed:
  assumes "base \<in> twi_bases" and "state_for base s = begun r" and "tw_is_read r"
    and "start_requested (ctl base (hw e))" and "length us = 5"
    and "st = (begun r)\<lparr>ts_sent_reg_addr := True, ts_phase_is_read := True\<rparr>"
  shows "\<exists>s' e'. twi_drive P advance base (map (Answer True) us) (s, e) = (s', e') \<and>
    state_for base s' = st \<and> twi_queue_for base s' = twi_queue_for base s \<and> ax e' = ax e \<and> ram e' = ram e \<and>
    working Bus_receive (wire_after (ctl base (hw e)) @
      [SentByte (address_byte (tw_address r) False) True, SentByte (tw_reg_addr r) True, StartCond,
       SentByte (address_byte (tw_address r) True) True]) (address_byte (tw_address r) True) (ctl base (hw e')) \<and>
    ctl_ack (ctl base (hw e'))"
proof -
  obtain u1 u2 u3 u4 u5 where us: "us = [u1, u2, u3, u4, u5]"
    using assms(5) by (auto simp: length_Suc_conv eval_nat_numeral)
  let ?w = "wire_after (ctl base (hw e))" and ?a = "address_byte (tw_address r) False" and ?b = "address_byte (tw_address r) True"
  obtain e1 where e1: "TwiDriver_handle_isr P base s (e\<lparr>hw := advance base (Answer True u1) (hw e)\<rparr>) = (s, e1)"
    "ax e1 = ax e" "ram e1 = ram e" "working Bus_address ?w ?a (ctl base (hw e1))"
    using drive_start [OF assms(1,4), of s True u1] assms(2) by (auto simp: begun_def)
  let ?s2 = "set_state_for base ((begun r)\<lparr>ts_sent_reg_addr := True\<rparr>) s"
  obtain e2 where e2: "TwiDriver_handle_isr P base s (e1\<lparr>hw := advance base (Answer True u2) (hw e1)\<rparr>) = (?s2, e2)"
    "ax e2 = ax e1" "ram e2 = ram e1" "working Bus_transmit (?w @ [SentByte ?a True]) (tw_reg_addr r) (ctl base (hw e2))"
    using drive_register [OF assms(1) e1(4), of s u2] assms(2) by (auto simp: begun_def address_byte_bits)
  let ?s3 = "set_state_for base st ?s2"
  obtain e3 c where e3: "TwiDriver_handle_isr P base ?s2 (e2\<lparr>hw := advance base (Answer True u3) (hw e2)\<rparr>) = (?s3, e3)"
    "ax e3 = ax e2" "ram e3 = ram e2" "working Bus_transmit (?w @ [SentByte ?a True, SentByte (tw_reg_addr r) True]) (tw_reg_addr r) c"
    "ctl base (hw e3) = c\<lparr>ctl_sta := True\<rparr>"
    using drive_request_read [OF assms(1) e2(4), of ?s2 u3] assms(3,6) by (auto simp: begun_def)
  let ?w4 = "?w @ [SentByte ?a True, SentByte (tw_reg_addr r) True, StartCond]"
  obtain e4 where e4: "TwiDriver_handle_isr P base ?s3 (e3\<lparr>hw := advance base (Answer True u4) (hw e3)\<rparr>) = (?s3, e4)"
    "ax e4 = ax e3" "ram e4 = ram e3" "working Bus_address ?w4 ?b (ctl base (hw e4))"
    using drive_repeated_start [OF assms(1) e3(4,5), of ?s3 True u4] assms(6) by (auto simp: begun_def)
  obtain e5 where e5: "TwiDriver_handle_isr P base ?s3 (e4\<lparr>hw := advance base (Answer True u5) (hw e4)\<rparr>) = (?s3, e5)"
    "ax e5 = ax e4" "ram e5 = ram e4" "working Bus_receive (?w4 @ [SentByte ?b True]) ?b (ctl base (hw e5))"
    "ctl_ack (ctl base (hw e5))"
    using drive_read_address [OF assms(1) e4(4), of ?s3 u5] by (auto simp: address_byte_bits)
  show ?thesis using us e1 e2 e3(1-3) e4 e5 by simp
qed

lemma read_transfer:
  assumes "base \<in> twi_bases" and "twi_inv base s" and "state_for base s = begun r" and "tw_is_read r"
    and "start_requested (ctl base (hw e))" and "length us = 5" and "length vs = max 2 (unat (tw_length r))"
  shows "\<exists>s' e'. twi_drive P advance base (map (Answer True) (us @ vs)) (s, e) = (s', e') \<and>
    after_finish base r (q_list (twi_queue_for base s)) s' \<and>
    released (q_list (twi_queue_for base s)) (wire_after (ctl base (hw e)) @
      [SentByte (address_byte (tw_address r) False) True, SentByte (tw_reg_addr r) True, StartCond,
       SentByte (address_byte (tw_address r) True) True] @
      map (\<lambda>v. ReceivedByte v True) (butlast vs) @ [ReceivedByte (last vs) False]) (ctl base (hw e')) \<and>
    ram e' = stored_result r Ok (store_bytes (tw_buffer r) (take (unat (tw_length r)) vs) (ram e)) \<and>
    log (ax e') = log (ax e) @ resumed r"
proof -
  define st where "st = (begun r)\<lparr>ts_sent_reg_addr := True, ts_phase_is_read := True\<rparr>"
  let ?n = "unat (tw_length r)" and ?b = "address_byte (tw_address r) True"
  let ?w = "wire_after (ctl base (hw e)) @ [SentByte (address_byte (tw_address r) False) True,
      SentByte (tw_reg_addr r) True, StartCond, SentByte ?b True]"
  obtain v vs' where vs: "vs = v # vs'" using assms(7) by (cases vs) auto
  obtain s5 e5 where e5: "twi_drive P advance base (map (Answer True) us) (s, e) = (s5, e5)"
    "state_for base s5 = st" "twi_queue_for base s5 = twi_queue_for base s" "ax e5 = ax e" "ram e5 = ram e"
    "working Bus_receive ?w ?b (ctl base (hw e5))" "ctl_ack (ctl base (hw e5))"
    using read_addressed [OF assms(1,3-6) st_def] by blast
  let ?s6 = "set_state_for base (st\<lparr>ts_index := received_index st\<rparr>) s5"
  obtain e6 where e6: "TwiDriver_handle_isr P base s5 (e5\<lparr>hw := advance base (Answer True v) (hw e5)\<rparr>) = (?s6, e6)"
    "ax e6 = ax e5" "ram e6 = received_ram st v (ram e5)"
    "working Bus_receive (?w @ [ReceivedByte v True]) v (ctl base (hw e6))"
    "ctl_ack (ctl base (hw e6)) = (Suc (unat (received_index st)) < ?n)"
    using drive_receive [OF assms(1) e5(6,7), of s5 True v] e5(2) by (auto simp: st_def begun_def)
  have i: "unat (received_index st) = min 1 ?n"
    by (auto simp: received_index_def st_def begun_def word_less_nat_alt)
  have vs': "vs' \<noteq> []" "length vs' = max 1 (?n - min 1 ?n)" using assms(7) vs by auto
  have stored: "store_bytes (tw_buffer r + ucast (received_index st)) (take (?n - unat (received_index st)) vs')
      (received_ram st v (ram e)) = store_bytes (tw_buffer r) (take ?n vs) (ram e)"
    by (cases ?n) (auto simp: vs i received_ram_def received_index_def st_def begun_def word_less_nat_alt fun_upd_def)
  have "twi_inv base ?s6" using assms(2) e5(3) by (simp add: twi_inv_def)
  then show ?thesis
    using rx_run [OF assms(1) e6(4), where s = ?s6 and vs = vs'] i stored vs' e5(1-5) e6(1-3,5) vs
    by (simp add: st_def begun_def twi_drive_append)
qed

end

subsection \<open>Properties\<close>

text \<open>C15. A write transfer puts exactly the right bytes on the bus: once its start condition is requested and
  the device acknowledges everything, the interrupts of the controller lead the driver through the
  address with the write bit, the register address and every byte of the buffer, in order, followed
  by a stop condition, and a start condition for the next waiting request if there is one;
  success is reported to the coroutine, it is resumed exactly once, and the next request is begun.\<close>

theorem twi_write_transfer:
  assumes "twi_controllers P log ctl advance" and "base \<in> twi_bases" and "twi_inv base s"
    and "state_for base s = begun r" and "\<not> tw_is_read r" and "start_requested (ctl base (hw e))"
    and "length vs = unat (tw_length r) + 3"
  shows "\<exists>s' e'. twi_drive P advance base (map (Answer True) vs) (s, e) = (s', e') \<and>
    after_finish base r (q_list (twi_queue_for base s)) s' \<and>
    released (q_list (twi_queue_for base s)) (wire_after (ctl base (hw e)) @ map (\<lambda>b. SentByte b True)
      (address_byte (tw_address r) False # tw_reg_addr r # load_bytes (tw_buffer r) (unat (tw_length r)) (ram e)))
      (ctl base (hw e')) \<and>
    ram e' = stored_result r Ok (ram e) \<and> log (ax e') = log (ax e) @ resumed r"
  by (rule twi_controllers.write_transfer [OF assms])

text \<open>The state a request is begun in, on a bus at rest.\<close>

lemma twi_begin_ready:
  assumes "twi_begin twi_platform S_TWI0_BASE (example_twi read n) twi_static twi_env = (s, e)"
  shows "twi_inv S_TWI0_BASE s" and "state_for S_TWI0_BASE s = begun (example_twi read n)"
    and "q_list (twi_queue_for S_TWI0_BASE s) = []" and "start_requested (hw e S_TWI0_BASE)"
    and "wire_after (hw e S_TWI0_BASE) = [StartCond]" and "ram e = ram twi_env" and "ax e = ax twi_env"
  using assms twi_sim.ctl_modify [of S_TWI0_BASE S_TWI0_BASE]
  by (auto simp: twi_begin_def begun_def twi_inv_def twi_static_def twi_queue_for_def set_state_for_def
      state_for_def start_requested_def wire_after_def twi_bases_def twi_env_def ctl_initial_def)

theorem twi_write_transfer_witness:
  "\<exists>s e s' e'. twi_begin twi_platform S_TWI0_BASE (example_twi False 2) twi_static twi_env = (s, e) \<and>
    twi_drive twi_platform twi_advance S_TWI0_BASE (map (Answer True) [0, 0, 0, 0, 0]) (s, e) = (s', e') \<and>
    wire_after (hw e' S_TWI0_BASE) = [StartCond, SentByte 0xD0 True, SentByte 0x3B True, SentByte 0xAB True,
      SentByte 0xCD True, StopCond] \<and>
    posted (ax e') = [0x80200] \<and> ram e' 0x80118 = 1"
proof -
  obtain s e where b: "twi_begin twi_platform S_TWI0_BASE (example_twi False 2) twi_static twi_env = (s, e)" by fastforce
  note ready = twi_begin_ready [OF b]
  have r: "\<not> tw_is_read (example_twi False 2)" "length [0, 0, 0, 0, 0 :: u8] = unat (tw_length (example_twi False 2)) + 3"
    "S_TWI0_BASE \<in> twi_bases" by (simp_all add: example_twi_def twi_bases_def)
  have two: "load_bytes 0x81000 2 m = [m 0x81000, m 0x81001]" for m by (subst numeral_2_eq_2) simp
  show ?thesis
    using twi_write_transfer [OF twi_sim.twi_controllers_axioms r(3) ready(1,2) r(1) _ r(2), where e = e] b ready(3-7)
    by (auto simp: released_def example_twi_def stored_result_def resumed_def address_byte_def twi_env_def sim_env_def
        two)
qed

text \<open>C16. A read transfer stores exactly the received bytes: the register address is written, the bus is started
  again without a stop, the device is addressed with the read bit, and its bytes fill the buffer in
  order and nothing else.  All bytes but the last are acknowledged, then a stop condition follows, and a start
  condition for the next waiting request if there is one.  Success is reported, the coroutine is resumed exactly once,
  and the next request is begun.  A read of fewer than two bytes takes two bytes from the device all the same: the
  acknowledge is switched off only after the first one; the surplus is not stored.\<close>

theorem twi_read_transfer:
  assumes "twi_controllers P log ctl advance" and "base \<in> twi_bases" and "twi_inv base s"
    and "state_for base s = begun r" and "tw_is_read r" and "start_requested (ctl base (hw e))"
    and "length us = 5" and "length vs = max 2 (unat (tw_length r))"
  shows "\<exists>s' e'. twi_drive P advance base (map (Answer True) (us @ vs)) (s, e) = (s', e') \<and>
    after_finish base r (q_list (twi_queue_for base s)) s' \<and>
    released (q_list (twi_queue_for base s)) (wire_after (ctl base (hw e)) @
      [SentByte (address_byte (tw_address r) False) True, SentByte (tw_reg_addr r) True, StartCond,
       SentByte (address_byte (tw_address r) True) True] @
      map (\<lambda>v. ReceivedByte v True) (butlast vs) @ [ReceivedByte (last vs) False]) (ctl base (hw e')) \<and>
    ram e' = stored_result r Ok (store_bytes (tw_buffer r) (take (unat (tw_length r)) vs) (ram e)) \<and>
    log (ax e') = log (ax e) @ resumed r"
  by (rule twi_controllers.read_transfer [OF assms])

theorem twi_read_transfer_witness:
  "\<exists>s e s' e'. twi_begin twi_platform S_TWI0_BASE (example_twi True 1) twi_static twi_env = (s, e) \<and>
    twi_drive twi_platform twi_advance S_TWI0_BASE (map (Answer True) ([0, 0, 0, 0, 0] @ [0x12, 0x34])) (s, e) = (s', e') \<and>
    wire_after (hw e' S_TWI0_BASE) = [StartCond, SentByte 0xD0 True, SentByte 0x3B True, StartCond,
      SentByte 0xD1 True, ReceivedByte 0x12 True, ReceivedByte 0x34 False, StopCond] \<and>
    posted (ax e') = [0x80200] \<and> ram e' 0x80118 = 1 \<and> ram e' 0x81000 = 0x12 \<and> ram e' 0x81001 = 0xCD"
proof -
  obtain s e where b: "twi_begin twi_platform S_TWI0_BASE (example_twi True 1) twi_static twi_env = (s, e)" by fastforce
  note ready = twi_begin_ready [OF b]
  have r: "tw_is_read (example_twi True 1)" "length [0x12, 0x34 :: u8] = max 2 (unat (tw_length (example_twi True 1)))"
    "S_TWI0_BASE \<in> twi_bases" "length [0, 0, 0, 0, 0 :: u8] = 5" by (simp_all add: example_twi_def twi_bases_def)
  show ?thesis
    using twi_read_transfer [OF twi_sim.twi_controllers_axioms r(3) ready(1,2) r(1) _ r(4,2), where e = e] b ready(3-7)
    by (auto simp: released_def example_twi_def stored_result_def resumed_def address_byte_def twi_env_def sim_env_def)
qed

text \<open>C30. A failed transfer ends at once: when the controller shows a status outside the protocol of a transfer, such
  as a byte that was not acknowledged, a bus error or a lost arbitration, the coroutine is told bus error for
  status 0 and no acknowledge otherwise, it is resumed exactly once, a stop condition is requested and nothing
  else is sent; the next waiting request, if any, is begun with a start condition.\<close>

theorem twi_failed_transfer_reported:
  assumes "twi_controllers P log ctl advance" and "base \<in> twi_bases" and "twi_inv base s"
    and "ctl_int (ctl base (hw e))" and "\<not> ctl_sta (ctl base (hw e))" and "ctl_bus_en (ctl base (hw e))"
    and "ctl_int_en (ctl base (hw e))"
    and "ctl_stat (ctl base (hw e)) \<notin> {0x08, 0x10, 0x18, 0x28, 0x40, 0x50, 0x58}"
  shows "\<exists>s' e'. TwiDriver_handle_isr P base s e = (s', e') \<and>
    after_finish base (ts_request (state_for base s)) (q_list (twi_queue_for base s)) s' \<and>
    released (q_list (twi_queue_for base s)) (ctl_wire (ctl base (hw e))) (ctl base (hw e')) \<and>
    ram e' = stored_result (ts_request (state_for base s))
      (if ctl_stat (ctl base (hw e)) = 0 then BusError else Nack) (ram e) \<and>
    log (ax e') = log (ax e) @ resumed (ts_request (state_for base s))"
proof -
  have "ctl_stat (ctl base (hw e)) \<notin> {STAT_START, STAT_REPEAT_START, STAT_ADDR_W_ACK, STAT_DATA_TX_ACK,
      STAT_ADDR_R_ACK, STAT_DATA_RX_ACK, STAT_DATA_RX_NACK}"
    using assms(8) by (simp add: regs)
  from twi_controllers.isr_error [OF assms(1-4) this] show ?thesis
    using released_finish [OF assms(5-7), of "q_list (twi_queue_for base s)"] assms(5) by (auto simp: STAT_BUS_ERROR_def)
qed

text \<open>A device that does not answer to its address.\<close>

theorem twi_failed_transfer_reported_witness:
  "\<exists>s e s' e'. twi_begin twi_platform S_TWI0_BASE (example_twi False 2) twi_static twi_env = (s, e) \<and>
    twi_drive twi_platform twi_advance S_TWI0_BASE [Answer True 0, Answer False 0] (s, e) = (s', e') \<and>
    wire_after (hw e' S_TWI0_BASE) = [StartCond, SentByte 0xD0 False, StopCond] \<and>
    posted (ax e') = [0x80200] \<and> ram e' 0x80118 = 2"
proof -
  let ?b = S_TWI0_BASE
  have base: "?b \<in> twi_bases" by (simp add: twi_bases_def)
  obtain s e where b: "twi_begin twi_platform ?b (example_twi False 2) twi_static twi_env = (s, e)" by fastforce
  note ready = twi_begin_ready [OF b]
  obtain e1 where e1: "TwiDriver_handle_isr twi_platform ?b s (e\<lparr>hw := twi_advance ?b (Answer True 0) (hw e)\<rparr>) = (s, e1)"
    "ax e1 = ax e" "ram e1 = ram e" "working Bus_address [StartCond] 0xD0 (hw e1 ?b)"
    using twi_sim.drive_start [OF base, of e s True 0] ready
    by (auto simp: begun_def example_twi_def address_byte_def)
  let ?e = "e1\<lparr>hw := twi_advance ?b (Answer False 0) (hw e1)\<rparr>"
  have c: "hw ?e ?b = (hw e1 ?b)\<lparr>ctl_mode := Bus_transmit, ctl_int := True, ctl_stat := 0x20,
      ctl_wire := [StartCond, SentByte 0xD0 False]\<rparr>"
    by (simp add: twi_advance_def twi_sim.working_next [OF e1(4)])
  show ?thesis
    using twi_failed_transfer_reported [OF twi_sim.twi_controllers_axioms base ready(1), of ?e] b ready(2,3,6,7) e1 c
    by (auto simp: released_def working_def begun_def example_twi_def stored_result_def resumed_def twi_env_def sim_env_def)
qed

text \<open>The handler does not look at the \<open>active\<close> flag of the driver.  Were it to run with the flag of the controller
  set after the last transfer, it would resume the coroutine of that transfer again and overwrite
  its result; the controllers described here do not do that (\<open>Twi_Schedule\<close>).\<close>

lemma twi_idle_interrupt_resumes_again:
  assumes "twi_controllers P log ctl advance" and "base \<in> twi_bases" and "twi_inv base s"
    and "\<not> ts_active (state_for base s)" and "tw_handle (ts_request (state_for base s)) \<noteq> 0"
    and "ctl_int (ctl base (hw e))" and "ctl_stat (ctl base (hw e)) = 0xF8"
  shows "\<exists>s' e'. TwiDriver_handle_isr P base s e = (s', e') \<and>
    log (ax e') = log (ax e) @ [tw_handle (ts_request (state_for base s))] \<and>
    ram e' = stored_result (ts_request (state_for base s)) Nack (ram e)"
  using twi_controllers.isr_error [OF assms(1-3,6)] assms(5,7) by (auto simp: regs resumed_def)

end
