(* ===== verification/Twi_Schedule.thy ===== *)
theory Twi_Schedule
  imports Twi_Bus
begin

text \<open>
  The TWI driver under interrupts.  \<^verbatim>\<open>await_suspend\<close> queues a request with interrupts masked and then
  calls \<^verbatim>\<open>start_transfer\<close>, which looks at \<^verbatim>\<open>active\<close>, pops a request and begins it without masking
  interrupts in between.  \<open>starter_step\<close> takes these parts as single steps.

  \<open>twi_step\<close> has calls of the handler for any bus between them, on any hardware whose flag is set only while
  a transfer is active on the bus.  \<open>twi_loop\<close> closes the loop with the controllers of \<open>Twi_Bus\<close>: the handler is called and
  the controllers go on at any time, and the condition on the flag is a theorem.
\<close>

subsection \<open>The steps of a submission\<close>

datatype starter = At_rest | At_check u32 | At_pop u32 | At_begin u32 TwiRequest

text \<open>Whether an interrupt with this status ends the transfer, and whether the next call of the handler
  does.\<close>

definition status_finishes :: "u32 \<Rightarrow> TwiTransferState \<Rightarrow> bool" where
  "status_finishes status st \<longleftrightarrow>
     status \<notin> {STAT_START, STAT_REPEAT_START, STAT_ADDR_R_ACK, STAT_DATA_RX_ACK} \<and>
     \<not> (status = STAT_ADDR_W_ACK \<and> (\<not> ts_sent_reg_addr st \<or> ts_index st < tw_length (ts_request st))) \<and>
     \<not> (status = STAT_DATA_TX_ACK \<and>
        (tw_is_read (ts_request st) \<and> ts_sent_reg_addr st \<and> ts_index st = 0 \<or>
         ts_index st < tw_length (ts_request st)))"

definition isr_finishes :: "('h, 'x) platform \<Rightarrow> u32 \<Rightarrow> twi \<Rightarrow> ('h, 'x) env \<Rightarrow> bool" where
  "isr_finishes P base s e \<longleftrightarrow>
     (let (cntr, e1) = mmio_read P (base + TWI_CNTR) e; (status, e2) = mmio_read P (base + TWI_STAT) e1
      in cntr AND CNTR_INT_FLAG \<noteq> 0 \<and> status_finishes status (state_for base s))"

text \<open>Whether the controller shows its interrupt flag; the handler returns at once when it does not.\<close>

definition flag_shown :: "('h, 'x) platform \<Rightarrow> u32 \<Rightarrow> ('h, 'x) env \<Rightarrow> bool" where
  "flag_shown P base e \<longleftrightarrow> fst (mmio_read P (base + TWI_CNTR) e) AND CNTR_INT_FLAG \<noteq> 0"

inductive starter_step ::
    "('h, 'x) platform \<Rightarrow> starter \<times> twi \<times> ('h, 'x) env \<Rightarrow> (u32 \<times> TwiRequest) list \<Rightarrow>
     starter \<times> twi \<times> ('h, 'x) env \<Rightarrow> bool"
  for P :: "('h, 'x) platform" where
  submit: "twi_queue_request P b r s e = (ok, s', e') \<Longrightarrow>
    starter_step P (At_rest, s, e) (if ok then [(b, r)] else []) (At_check b, s', e')"
| found_active: "ts_active (state_for b s) \<Longrightarrow> starter_step P (At_check b, s, e) [] (At_rest, s, e)"
| found_idle: "\<not> ts_active (state_for b s) \<Longrightarrow> starter_step P (At_check b, s, e) [] (At_pop b, s, e)"
| pop_request: "with_ax (pop (taccess P) TwiRequest_default (twi_queue_for b s)) e = ((ok, r, q), e') \<Longrightarrow>
    starter_step P (At_pop b, s, e) [] (if ok then At_begin b r else At_rest, set_twi_queue_for b q s, e')"
| begin_request: "twi_begin P b r s e = (s', e') \<Longrightarrow> starter_step P (At_begin b r, s, e) [] (At_rest, s', e')"

text \<open>The system: where the submission is, the driver, the environment, the requests accepted and the
  requests finished, each with its bus.\<close>

type_synonym ('h, 'x) twi_system =
  "starter \<times> twi \<times> ('h, 'x) env \<times> (u32 \<times> TwiRequest) list \<times> (u32 \<times> TwiRequest) list"

definition finished_by :: "('h, 'x) platform \<Rightarrow> u32 \<Rightarrow> twi \<Rightarrow> ('h, 'x) env \<Rightarrow> (u32 \<times> TwiRequest) list" where
  "finished_by P b s e = (if isr_finishes P b s e then [(b, ts_request (state_for b s))] else [])"

inductive twi_step ::
    "('h, 'x) platform \<Rightarrow> ('x \<Rightarrow> handle list) \<Rightarrow> ('h, 'x) twi_system \<Rightarrow> ('h, 'x) twi_system \<Rightarrow> bool"
  for P :: "('h, 'x) platform" and log :: "'x \<Rightarrow> handle list" where
  starter: "starter_step P (pc, s, e) new (pc', s', e') \<Longrightarrow>
    twi_step P log (pc, s, e, acc, fin) (pc', s', e', acc @ new, fin)"
| interrupt: "(flag_shown P b e \<longrightarrow> ts_active (state_for b s)) \<Longrightarrow> TwiDriver_handle_isr P b s e = (s', e') \<Longrightarrow>
    twi_step P log (pc, s, e, acc, fin) (pc, s', e', acc, fin @ finished_by P b s e)"
| other_activity: "log x = log (ax e) \<Longrightarrow>
    twi_step P log (pc, s, e, acc, fin) (pc, s, \<lparr>hw = h, ax = x, ram = m\<rparr>, acc, fin)"

text \<open>The loop with the controllers.  Other activity leaves them alone.\<close>

fun on_known_bus :: "starter \<Rightarrow> bool" where
  "on_known_bus At_rest = True"
| "on_known_bus (At_check b) = (b \<in> twi_bases)"
| "on_known_bus (At_pop b) = (b \<in> twi_bases)"
| "on_known_bus (At_begin b r) = (b \<in> twi_bases)"

inductive twi_loop ::
    "('h, 'x) platform \<Rightarrow> ('x \<Rightarrow> handle list) \<Rightarrow> (u32 \<Rightarrow> 'h \<Rightarrow> twi_ctl) \<Rightarrow> (u32 \<Rightarrow> device \<Rightarrow> 'h \<Rightarrow> 'h) \<Rightarrow>
     ('h, 'x) twi_system \<Rightarrow> ('h, 'x) twi_system \<Rightarrow> bool"
  for P :: "('h, 'x) platform" and log :: "'x \<Rightarrow> handle list" and ctl :: "u32 \<Rightarrow> 'h \<Rightarrow> twi_ctl"
    and advance :: "u32 \<Rightarrow> device \<Rightarrow> 'h \<Rightarrow> 'h" where
  loop_starter: "starter_step P (pc, s, e) new (pc', s', e') \<Longrightarrow> on_known_bus pc' \<Longrightarrow>
    twi_loop P log ctl advance (pc, s, e, acc, fin) (pc', s', e', acc @ new, fin)"
| loop_handler: "b \<in> twi_bases \<Longrightarrow> TwiDriver_handle_isr P b s e = (s', e') \<Longrightarrow>
    twi_loop P log ctl advance (pc, s, e, acc, fin) (pc, s', e', acc, fin @ finished_by P b s e)"
| loop_controller: "b \<in> twi_bases \<Longrightarrow>
    twi_loop P log ctl advance (pc, s, e, acc, fin) (pc, s, e\<lparr>hw := advance b d (hw e)\<rparr>, acc, fin)"
| loop_other: "log x = log (ax e) \<Longrightarrow> (\<And>b. b \<in> twi_bases \<Longrightarrow> ctl b h = ctl b (hw e)) \<Longrightarrow>
    twi_loop P log ctl advance (pc, s, e, acc, fin) (pc, s, \<lparr>hw = h, ax = x, ram = m\<rparr>, acc, fin)"

subsection \<open>Abstraction and invariant\<close>

definition twi_bus_no :: "u32 \<Rightarrow> nat" where
  "twi_bus_no base = (if base = S_TWI0_BASE then 0 else if base = S_TWI1_BASE then 1 else 2)"

definition on_bus :: "u32 \<Rightarrow> (u32 \<times> TwiRequest) list \<Rightarrow> TwiRequest list" where
  "on_bus b rs = map snd (filter (\<lambda>(c, r). twi_bus_no c = twi_bus_no b) rs)"

definition active_job :: "u32 \<Rightarrow> twi \<Rightarrow> TwiRequest list" where
  "active_job b s = (if ts_active (state_for b s) then [ts_request (state_for b s)] else [])"

definition popped_job :: "u32 \<Rightarrow> starter \<Rightarrow> TwiRequest list" where
  "popped_job b pc = (case pc of At_begin c r \<Rightarrow> if twi_bus_no c = twi_bus_no b then [r] else [] | _ \<Rightarrow> [])"

text \<open>The requests of a bus that are accepted and not finished, in order.\<close>

definition twi_jobs :: "u32 \<Rightarrow> starter \<Rightarrow> twi \<Rightarrow> TwiRequest list" where
  "twi_jobs b pc s = active_job b s @ popped_job b pc @ q_list (twi_queue_for b s)"

text \<open>The bus a submission is about to start.\<close>

fun starting :: "u32 \<Rightarrow> starter \<Rightarrow> bool" where
  "starting b At_rest = False"
| "starting b (At_check c) = (twi_bus_no c = twi_bus_no b)"
| "starting b (At_pop c) = (twi_bus_no c = twi_bus_no b)"
| "starting b (At_begin c r) = (twi_bus_no c = twi_bus_no b)"

fun committed :: "u32 \<Rightarrow> starter \<Rightarrow> bool" where
  "committed b (At_pop c) = (twi_bus_no c = twi_bus_no b)"
| "committed b (At_begin c r) = (twi_bus_no c = twi_bus_no b)"
| "committed b _ = False"

definition bus_ok :: "u32 \<Rightarrow> starter \<Rightarrow> twi \<Rightarrow> bool" where
  "bus_ok b pc s \<longleftrightarrow> dq_inv (twi_queue_for b s) \<and>
     (committed b pc \<longrightarrow> \<not> ts_active (state_for b s)) \<and>
     (q_list (twi_queue_for b s) \<noteq> [] \<longrightarrow> ts_active (state_for b s) \<or> starting b pc)"

definition twi_sound :: "('x \<Rightarrow> handle list) \<Rightarrow> handle list \<Rightarrow> ('h, 'x) twi_system \<Rightarrow> bool" where
  "twi_sound log log0 sys \<longleftrightarrow>
     (case sys of (pc, s, e, acc, fin) \<Rightarrow>
      (\<forall>b. bus_ok b pc s \<and> on_bus b acc = on_bus b fin @ twi_jobs b pc s) \<and>
      log (ax e) = log0 @ concat (map (resumed \<circ> snd) fin))"

text \<open>How the controller of a bus and the driver stand to each other: with a transfer active, the controller shows its
  flag or is at work; without one it is at rest.  A flag set outside a transfer mode is a fault.\<close>

definition bus_linked :: "TwiTransferState \<Rightarrow> twi_ctl \<Rightarrow> bool" where
  "bus_linked st c \<longleftrightarrow>
     (if ts_active st
      then ctl_bus_en c \<and> ctl_int_en c \<and>
        (if ctl_int c then \<not> ctl_sta c \<and> \<not> ctl_stp c \<and> (ctl_mode c \<noteq> Bus_idle \<or> ctl_stat c \<in> {0x00, 0x38})
         else ctl_sta c \<or> ctl_mode c \<noteq> Bus_idle \<and> \<not> ctl_stp c)
      else bus_at_rest c)"

definition loop_sound ::
    "('x \<Rightarrow> handle list) \<Rightarrow> (u32 \<Rightarrow> 'h \<Rightarrow> twi_ctl) \<Rightarrow> handle list \<Rightarrow> ('h, 'x) twi_system \<Rightarrow> bool" where
  "loop_sound log ctl log0 sys \<longleftrightarrow> twi_sound log log0 sys \<and>
     (case sys of (pc, s, e, acc, fin) \<Rightarrow>
        on_known_bus pc \<and> (\<forall>b \<in> twi_bases. bus_linked (state_for b s) (ctl b (hw e))))"

text \<open>Which buses an operation leaves alone, and what it may do to its own.\<close>

definition other_buses_kept :: "u32 \<Rightarrow> twi \<Rightarrow> twi \<Rightarrow> bool" where
  "other_buses_kept c s s' \<longleftrightarrow> (\<forall>b. twi_bus_no c \<noteq> twi_bus_no b \<longrightarrow>
     state_for b s' = state_for b s \<and> twi_queue_for b s' = twi_queue_for b s)"

definition still_running :: "u32 \<Rightarrow> twi \<Rightarrow> twi \<Rightarrow> bool" where
  "still_running c s s' \<longleftrightarrow> ts_active (state_for c s') = ts_active (state_for c s) \<and>
     ts_request (state_for c s') = ts_request (state_for c s) \<and> twi_queue_for c s' = twi_queue_for c s"

definition next_begun :: "u32 \<Rightarrow> twi \<Rightarrow> twi \<Rightarrow> bool" where
  "next_begun c s s' \<longleftrightarrow> dq_inv (twi_queue_for c s') \<and>
     active_job c s' @ q_list (twi_queue_for c s') = q_list (twi_queue_for c s) \<and>
     (q_list (twi_queue_for c s') \<noteq> [] \<longrightarrow> ts_active (state_for c s'))"

text \<open>The controller after a run of the handler that ended the transfer, and after one that did not.\<close>

definition ctl_ended :: "bool \<Rightarrow> twi_ctl \<Rightarrow> twi_ctl \<Rightarrow> bool" where
  "ctl_ended further c c' \<longleftrightarrow> \<not> ctl_int c' \<and> ctl_stp c' \<and> ctl_sta c' = (ctl_sta c \<or> further) \<and>
     ctl_bus_en c' = ctl_bus_en c \<and> ctl_int_en c' = ctl_int_en c"

definition ctl_continued :: "twi_ctl \<Rightarrow> twi_ctl \<Rightarrow> bool" where
  "ctl_continued c c' \<longleftrightarrow> ctl_stp c' = ctl_stp c \<and> ctl_mode c' = ctl_mode c \<and>
     ctl_bus_en c' = ctl_bus_en c \<and> ctl_int_en c' = ctl_int_en c"

subsection \<open>Lemmas\<close>

lemma on_bus_simps [simp]:
  "on_bus b [] = []" "on_bus b (xs @ ys) = on_bus b xs @ on_bus b ys"
  "on_bus b [(c, r)] = (if twi_bus_no c = twi_bus_no b then [r] else [])"
  by (simp_all add: on_bus_def)

lemmas [simp] = status_distinct [THEN not_sym]

lemma twi_bus_bases_differ [simp]: "S_TWI1_BASE \<noteq> S_TWI0_BASE"
  by (simp add: memory_map)

lemma twi_bus_accessors:
  "state_for b (set_state_for c st s) = (if twi_bus_no c = twi_bus_no b then st else state_for b s)"
  "twi_queue_for b (set_twi_queue_for c q s) = (if twi_bus_no c = twi_bus_no b then q else twi_queue_for b s)"
  "state_for b (set_twi_queue_for c q s) = state_for b s"
  "twi_queue_for b (set_state_for c st s) = twi_queue_for b s"
  by (auto simp: state_for_def set_state_for_def twi_queue_for_def set_twi_queue_for_def twi_bus_no_def)

lemma same_bus_no:
  assumes "twi_bus_no c = twi_bus_no b"
  shows "state_for b s = state_for c s" and "twi_queue_for b s = twi_queue_for c s"
  using assms by (auto simp: state_for_def twi_queue_for_def twi_bus_no_def split: if_splits)

lemmas bus_outcome_defs = other_buses_kept_def still_running_def next_begun_def active_job_def

context dispatcher
begin

lemma twi_finish_effect:
  assumes "dq_inv (twi_queue_for c s)" and "twi_finish P c result s e = (s', e')"
  shows "other_buses_kept c s s' \<and> next_begun c s s' \<and>
    log (ax e') = log (ax e) @ resumed (ts_request (state_for c s))"
proof (cases "q_list (twi_queue_for c s)")
  case Nil
  then obtain q' where "pop_from_isr TwiRequest_default (twi_queue_for c s) = (False, TwiRequest_default, q')"
    "dq_inv q'" "q_list q' = []"
    using dq.deq_empty [OF assms(1)] by blast
  with assms(2) Nil show ?thesis
    by (auto simp: twi_finish_def Let_def bus_outcome_defs resumed_def store_u8_def twi_bus_accessors)
next
  case (Cons r rs)
  then obtain q' where "pop_from_isr TwiRequest_default (twi_queue_for c s) = (True, r, q')"
    "dq_inv q'" "q_list q' = rs"
    using dq.deq_Cons [OF assms(1)] by blast
  with assms(2) Cons show ?thesis
    by (auto simp: twi_finish_def Let_def bus_outcome_defs resumed_def store_u8_def twi_begin_def
        twi_bus_accessors)
qed

lemma read_next_byte_running:
  "read_next_byte P c s e = (s', e') \<Longrightarrow>
    other_buses_kept c s s' \<and> still_running c s s' \<and> log (ax e') = log (ax e)"
  by (auto simp: read_next_byte_def Let_def bus_outcome_defs twi_bus_accessors store_u8_def mmio_read_def
      split: if_splits prod.splits)

lemma write_next_byte_effect:
  assumes "dq_inv (twi_queue_for c s)" and "write_next_byte P c s e = (s', e')"
  shows "other_buses_kept c s s' \<and>
    (if ts_index (state_for c s) < tw_length (ts_request (state_for c s))
     then still_running c s s' \<and> log (ax e') = log (ax e)
     else next_begun c s s' \<and> log (ax e') = log (ax e) @ resumed (ts_request (state_for c s)))"
proof (cases "ts_index (state_for c s) < tw_length (ts_request (state_for c s))")
  case True
  with assms(2) show ?thesis
    by (auto simp: write_next_byte_def Let_def bus_outcome_defs twi_bus_accessors not_less [symmetric])
next
  case False
  with assms(2) have "twi_finish P c Ok s e = (s', e')" by (simp add: write_next_byte_def Let_def not_less)
  from twi_finish_effect [OF assms(1) this] False show ?thesis by simp
qed

lemma read_then_finish_effect:
  assumes "dq_inv (twi_queue_for c s)" and "read_next_byte P c s e = (s1, e1)"
    and "twi_finish P c Ok s1 e1 = (s', e')"
  shows "other_buses_kept c s s' \<and> next_begun c s s' \<and>
    log (ax e') = log (ax e) @ resumed (ts_request (state_for c s))"
proof -
  have one: "other_buses_kept c s s1" "still_running c s s1" "log (ax e1) = log (ax e)"
    using read_next_byte_running [OF assms(2)] by auto
  moreover have "dq_inv (twi_queue_for c s1)" using assms(1) one(2) by (simp add: still_running_def)
  note twi_finish_effect [OF this assms(3)]
  ultimately show ?thesis by (simp add: other_buses_kept_def next_begun_def still_running_def)
qed

lemma write_ack_effect:
  assumes "dq_inv (twi_queue_for c s)" and "twi_dispatch P c STAT_ADDR_W_ACK s e = (ret, s', e')"
  shows "other_buses_kept c s s' \<and>
    (if status_finishes STAT_ADDR_W_ACK (state_for c s)
     then next_begun c s s' \<and> log (ax e') = log (ax e) @ resumed (ts_request (state_for c s))
     else still_running c s s' \<and> log (ax e') = log (ax e))"
proof (cases "ts_sent_reg_addr (state_for c s)")
  case True
  with assms(2) have "write_next_byte P c s e = (s', e')" by (simp add: twi_dispatch_def Let_def)
  from write_next_byte_effect [OF assms(1) this] True show ?thesis by (auto simp: status_finishes_def)
next
  case False
  with assms(2) show ?thesis
    by (auto simp: twi_dispatch_def Let_def status_finishes_def bus_outcome_defs twi_bus_accessors)
qed

lemma tx_ack_effect:
  assumes "dq_inv (twi_queue_for c s)" and "twi_dispatch P c STAT_DATA_TX_ACK s e = (ret, s', e')"
  shows "other_buses_kept c s s' \<and>
    (if status_finishes STAT_DATA_TX_ACK (state_for c s)
     then next_begun c s s' \<and> log (ax e') = log (ax e) @ resumed (ts_request (state_for c s))
     else still_running c s s' \<and> log (ax e') = log (ax e))"
proof (cases "tw_is_read (ts_request (state_for c s)) \<and> ts_sent_reg_addr (state_for c s) \<and> ts_index (state_for c s) = 0")
  case True
  with assms(2) show ?thesis
    by (auto simp: twi_dispatch_def Let_def status_finishes_def bus_outcome_defs twi_bus_accessors)
next
  case False
  with assms(2) have "write_next_byte P c s e = (s', e')" by (auto simp: twi_dispatch_def Let_def)
  from write_next_byte_effect [OF assms(1) this] False show ?thesis by (auto simp: status_finishes_def)
qed

lemma twi_dispatch_effect:
  assumes "dq_inv (twi_queue_for c s)" and "twi_dispatch P c status s e = (ret, s', e')"
  shows "other_buses_kept c s s' \<and>
    (if status_finishes status (state_for c s)
     then next_begun c s s' \<and> log (ax e') = log (ax e) @ resumed (ts_request (state_for c s))
     else still_running c s s' \<and> log (ax e') = log (ax e))"
proof -
  consider (address) "status = STAT_START \<or> status = STAT_REPEAT_START" | (write_ack) "status = STAT_ADDR_W_ACK"
    | (tx_ack) "status = STAT_DATA_TX_ACK" | (read_ack) "status = STAT_ADDR_R_ACK"
    | (rx_ack) "status = STAT_DATA_RX_ACK" | (rx_nack) "status = STAT_DATA_RX_NACK"
    | (failed) "status \<notin> {STAT_START, STAT_REPEAT_START, STAT_ADDR_W_ACK, STAT_DATA_TX_ACK,
        STAT_ADDR_R_ACK, STAT_DATA_RX_ACK, STAT_DATA_RX_NACK}"
    by auto
  then show ?thesis
  proof cases
    case address
    with assms(2) show ?thesis
      by (auto simp: twi_dispatch_def Let_def status_finishes_def bus_outcome_defs)
  next
    case write_ack
    with write_ack_effect [OF assms(1)] assms(2) show ?thesis by blast
  next
    case tx_ack
    with tx_ack_effect [OF assms(1)] assms(2) show ?thesis by blast
  next
    case read_ack
    with assms(2) show ?thesis
      by (auto simp: twi_dispatch_def Let_def status_finishes_def bus_outcome_defs)
  next
    case rx_ack
    with assms(2) have "read_next_byte P c s e = (s', e')" by (simp add: twi_dispatch_def Let_def)
    from read_next_byte_running [OF this] rx_ack show ?thesis by (auto simp: status_finishes_def)
  next
    case rx_nack
    obtain s1 e1 where r: "read_next_byte P c s e = (s1, e1)" by fastforce
    with assms(2) rx_nack have "twi_finish P c Ok s1 e1 = (s', e')" by (simp add: twi_dispatch_def Let_def)
    from read_then_finish_effect [OF assms(1) r this] rx_nack show ?thesis by (auto simp: status_finishes_def)
  next
    case failed
    with assms(2) obtain result where "twi_finish P c result s e = (s', e')"
      by (auto simp: twi_dispatch_def Let_def split: if_splits)
    from twi_finish_effect [OF assms(1) this] failed show ?thesis by (auto simp: status_finishes_def)
  qed
qed

lemma twi_isr_effect:
  assumes "dq_inv (twi_queue_for c s)" and "TwiDriver_handle_isr P c s e = (s', e')"
  shows "other_buses_kept c s s' \<and>
    (if isr_finishes P c s e
     then next_begun c s s' \<and> log (ax e') = log (ax e) @ resumed (ts_request (state_for c s))
     else still_running c s s' \<and> log (ax e') = log (ax e))"
proof -
  obtain cntr e1 where r1: "mmio_read P (c + TWI_CNTR) e = (cntr, e1)" by fastforce
  obtain status e2 where r2: "mmio_read P (c + TWI_STAT) e1 = (status, e2)" by fastforce
  have ax: "ax e1 = ax e" "ax e2 = ax e"
    using ax_mmio(1) [of P "c + TWI_CNTR" e] ax_mmio(1) [of P "c + TWI_STAT" e1] r1 r2 by auto
  show ?thesis
  proof (cases "cntr AND CNTR_INT_FLAG = 0")
    case True
    with assms(2) r1 r2 ax show ?thesis
      by (simp add: TwiDriver_handle_isr_def isr_finishes_def bus_outcome_defs)
  next
    case False
    obtain ret e3 where d: "twi_dispatch P c status s e2 = (ret, s', e3)" and "ax e' = ax e3"
      using assms(2) r1 r2 False
      by (auto simp: TwiDriver_handle_isr_def split: prod.splits if_splits)
    with twi_dispatch_effect [OF assms(1) d] r1 r2 ax False show ?thesis by (simp add: isr_finishes_def)
  qed
qed

text \<open>Each step keeps the books of every bus.\<close>

lemma sound_submit:
  assumes "twi_sound log log0 (At_rest, s, e, acc, fin)" and "twi_queue_request P c r s e = (ok, s', e')"
  shows "twi_sound log log0 (At_check c, s', e', acc @ (if ok then [(c, r)] else []), fin)"
proof -
  define q where "q = snd (push_from_isr r (twi_queue_for c s))"
  have s': "s' = set_twi_queue_for c q s" and ok: "ok = fst (push_from_isr r (twi_queue_for c s))"
    and "log (ax e') = log (ax e)"
    using assms(2)
    by (auto simp: twi_queue_request_def Let_def case_prod_beta q_def with_ax_def push_def push_from_isr_def
        log_lock log_unlock)
  moreover have "dq_inv (twi_queue_for c s)" using assms(1) by (simp add: twi_sound_def bus_ok_def)
  then have q: "dq_inv q" "q_list q = q_list (twi_queue_for c s) @ (if ok then [r] else [])"
    by (simp_all add: q_def ok dq_simps)
  have "bus_ok b (At_check c) s' \<and>
      on_bus b (acc @ (if ok then [(c, r)] else [])) = on_bus b fin @ twi_jobs b (At_check c) s'" for b
    using assms(1) q same_bus_no [of c b s]
    by (cases "twi_bus_no c = twi_bus_no b")
      (auto simp: twi_sound_def bus_ok_def twi_jobs_def popped_job_def active_job_def s' twi_bus_accessors)
  ultimately show ?thesis using assms(1) by (simp add: twi_sound_def)
qed

lemma sound_pop:
  assumes "twi_sound log log0 (At_pop c, s, e, acc, fin)"
    and "with_ax (pop (taccess P) TwiRequest_default (twi_queue_for c s)) e = ((ok, r, q), e')"
  shows "twi_sound log log0 (if ok then At_begin c r else At_rest, set_twi_queue_for c q s, e', acc, fin)"
proof -
  have inv: "dq_inv (twi_queue_for c s)" and idle: "\<not> ts_active (state_for c s)"
    using assms(1) by (simp_all add: twi_sound_def bus_ok_def)
  have p: "pop_from_isr TwiRequest_default (twi_queue_for c s) = (ok, r, q)" and "log (ax e') = log (ax e)"
    using assms(2) by (auto simp: with_ax_def pop_def pop_from_isr_def Let_def log_lock log_unlock)
  moreover have q: "dq_inv q" "q_list (twi_queue_for c s) = (if ok then [r] else []) @ q_list q"
      "\<not> ok \<Longrightarrow> q_list q = []"
    using p dq.deq_empty [OF inv, of TwiRequest_default] dq.deq_Cons [OF inv, of _ _ TwiRequest_default]
    by (cases "q_list (twi_queue_for c s)"; fastforce)+
  have "bus_ok b (if ok then At_begin c r else At_rest) (set_twi_queue_for c q s) \<and>
      on_bus b acc = on_bus b fin @ twi_jobs b (if ok then At_begin c r else At_rest) (set_twi_queue_for c q s)" for b
    using assms(1) q idle same_bus_no [of c b s]
    by (cases "twi_bus_no c = twi_bus_no b")
      (auto simp: twi_sound_def bus_ok_def twi_jobs_def popped_job_def active_job_def twi_bus_accessors)
  ultimately show ?thesis using assms(1) by (simp add: twi_sound_def)
qed

lemma sound_begin:
  assumes "twi_sound log log0 (At_begin c r, s, e, acc, fin)" and "twi_begin P c r s e = (s', e')"
  shows "twi_sound log log0 (At_rest, s', e', acc, fin)"
proof -
  have idle: "\<not> ts_active (state_for c s)" using assms(1) by (simp add: twi_sound_def bus_ok_def)
  have "bus_ok b At_rest s' \<and> on_bus b acc = on_bus b fin @ twi_jobs b At_rest s'" for b
    using assms idle same_bus_no [of c b s]
    by (cases "twi_bus_no c = twi_bus_no b")
      (auto simp: twi_sound_def bus_ok_def twi_jobs_def popped_job_def active_job_def twi_begin_def twi_bus_accessors)
  moreover have "ax e' = ax e" using assms(2) by (auto simp: twi_begin_def)
  ultimately show ?thesis using assms(1) by (simp add: twi_sound_def)
qed

lemma sound_interrupt_active:
  assumes "twi_sound log log0 (pc, s, e, acc, fin)" and "ts_active (state_for c s)"
    and "TwiDriver_handle_isr P c s e = (s', e')"
  shows "twi_sound log log0 (pc, s', e', acc, fin @ finished_by P c s e)"
proof -
  let ?f = "finished_by P c s e"
  have c: "bus_ok c pc s" using assms(1) by (simp add: twi_sound_def)
  then have "dq_inv (twi_queue_for c s)" by (simp add: bus_ok_def)
  note eff = twi_isr_effect [OF this assms(3)]
  have nc: "\<not> committed c pc" using c assms(2) by (simp add: bus_ok_def)
  have "bus_ok b pc s' \<and> on_bus b acc = on_bus b (fin @ ?f) @ twi_jobs b pc s'" for b
  proof (cases "twi_bus_no c = twi_bus_no b")
    case True
    then have no: "\<not> committed b pc" "popped_job b pc = []"
      using nc by (cases pc; simp add: popped_job_def)+
    have "bus_ok b pc s" "on_bus b acc = on_bus b fin @ twi_jobs b pc s" using assms(1) by (simp_all add: twi_sound_def)
    then show ?thesis
      using eff True no assms(2) same_bus_no [OF True, of s] same_bus_no [OF True, of s']
      by (auto simp: finished_by_def bus_ok_def twi_jobs_def bus_outcome_defs split: if_splits)
  next
    case False
    then show ?thesis
      using eff assms(1)
      by (auto simp: finished_by_def twi_sound_def bus_ok_def twi_jobs_def other_buses_kept_def active_job_def)
  qed
  then show ?thesis using assms(1) eff by (simp add: twi_sound_def finished_by_def)
qed

lemma sound_interrupt:
  assumes "twi_sound log log0 (pc, s, e, acc, fin)" and "flag_shown P c e \<longrightarrow> ts_active (state_for c s)"
    and "TwiDriver_handle_isr P c s e = (s', e')"
  shows "twi_sound log log0 (pc, s', e', acc, fin @ finished_by P c s e)"
proof (cases "flag_shown P c e")
  case True
  with assms(2) have "ts_active (state_for c s)" by blast
  from sound_interrupt_active [OF assms(1) this assms(3)] show ?thesis .
next
  case False
  then have "s' = s" "ax e' = ax e" "finished_by P c s e = []"
    using assms(3) by (auto simp: flag_shown_def TwiDriver_handle_isr_def finished_by_def isr_finishes_def mmio_read_def
        split: prod.splits)
  then show ?thesis using assms(1) by (simp add: twi_sound_def)
qed

lemma sound_starter:
  assumes "starter_step P (pc, s, e) new (pc', s', e')" and "twi_sound log log0 (pc, s, e, acc, fin)"
  shows "twi_sound log log0 (pc', s', e', acc @ new, fin)"
  using assms(1)
proof cases
  case (submit b r ok)
  then show ?thesis using assms(2) sound_submit by blast
next
  case (found_active b)
  then have "q_list (twi_queue_for c s) \<noteq> [] \<longrightarrow> ts_active (state_for c s)" for c
    using assms(2) same_bus_no(1) [of b c s] by (auto simp: twi_sound_def bus_ok_def)
  with found_active show ?thesis
    using assms(2) by (auto simp: twi_sound_def bus_ok_def twi_jobs_def popped_job_def)
next
  case (found_idle b)
  have "bus_ok c (At_pop b) s" for c
    using found_idle assms(2) same_bus_no(1) [of b c s] by (auto simp: twi_sound_def bus_ok_def)
  with found_idle show ?thesis using assms(2) by (simp add: twi_sound_def twi_jobs_def popped_job_def)
next
  case (pop_request b ok r q)
  then show ?thesis using assms(2) sound_pop [of log0 b s e acc fin ok r q e'] by simp
next
  case (begin_request b r)
  then show ?thesis using assms(2) sound_begin by auto
qed

lemma twi_sound_step:
  assumes "twi_step P log x y" and "twi_sound log log0 x"
  shows "twi_sound log log0 y"
  using assms
proof (induction rule: twi_step.induct)
  case (starter pc s e new pc' s' e' acc fin)
  then show ?case by (intro sound_starter)
next
  case (interrupt b e s s' e' pc acc fin)
  then show ?case by (intro sound_interrupt)
next
  case (other_activity x e pc s acc fin h m)
  then show ?case by (simp add: twi_sound_def)
qed

lemma twi_sound_reachable:
  "(twi_step P log)\<^sup>*\<^sup>* x y \<Longrightarrow> twi_sound log log0 x \<Longrightarrow> twi_sound log log0 y"
  by (induction rule: rtranclp_induct) (auto intro: twi_sound_step)

end

lemma twi_sound_static: "twi_sound log (log (ax e)) (At_rest, twi_static, e, [], [])"
  by (simp add: twi_sound_def bus_ok_def twi_jobs_def popped_job_def active_job_def twi_static_def
      twi_queue_for_def state_for_def TwiTransferState_default_def)

text \<open>The steps of a submission as steps of the schedule.\<close>

lemma step_submit: "twi_queue_request P b r s e = (ok, s', e') \<Longrightarrow>
    twi_step P log (At_rest, s, e, acc, fin) (At_check b, s', e', acc @ (if ok then [(b, r)] else []), fin)"
  by (intro twi_step.starter starter_step.submit)

lemma step_found:
  "twi_step P log (At_check b, s, e, acc, fin)
    (if ts_active (state_for b s) then At_rest else At_pop b, s, e, acc, fin)"
  using twi_step.starter [OF starter_step.found_active, of b s P log e acc fin]
    twi_step.starter [OF starter_step.found_idle, of b s P log e acc fin] by simp

lemma step_pop: "with_ax (pop (taccess P) TwiRequest_default (twi_queue_for b s)) e = ((ok, r, q), e') \<Longrightarrow>
    twi_step P log (At_pop b, s, e, acc, fin)
      (if ok then At_begin b r else At_rest, set_twi_queue_for b q s, e', acc, fin)"
  using twi_step.starter [OF starter_step.pop_request, of P b s e ok r q e' log acc fin] by simp

lemma step_begin: "twi_begin P b r s e = (s', e') \<Longrightarrow>
    twi_step P log (At_begin b r, s, e, acc, fin) (At_rest, s', e', acc, fin)"
  using twi_step.starter [OF starter_step.begin_request, of P b r s e s' e' log acc fin] by simp

subsection \<open>The loop with the controllers\<close>

lemma known_bus_no: "b \<in> twi_bases \<Longrightarrow> c \<in> twi_bases \<Longrightarrow> twi_bus_no b = twi_bus_no c \<longleftrightarrow> b = c"
  by (auto simp: twi_bases_def twi_bus_no_def memory_map)

text \<open>A controller at work interrupts next, whatever the device does; going on keeps the link.\<close>

lemma ctl_next_linked:
  assumes "bus_linked st c"
  shows "bus_linked st (ctl_next d c)" and "ts_active st \<Longrightarrow> ctl_int c \<or> ctl_int (ctl_next d c)"
proof -
  have "bus_linked st (ctl_next d c) \<and> (ts_active st \<longrightarrow> ctl_int c \<or> ctl_int (ctl_next d c))"
    using assms
    by (cases d; cases "ctl_mode c")
      (auto simp: bus_linked_def bus_at_rest_def ctl_next_def stop_if_requested_def on_wire_def interrupt_with_def
        Let_def split: if_splits bus_mode.splits)
  then show "bus_linked st (ctl_next d c)" "ts_active st \<Longrightarrow> ctl_int c \<or> ctl_int (ctl_next d c)" by auto
qed

lemma lost_interrupts:
  assumes "bus_linked st c" and "ts_active st" and "\<not> ctl_int c"
  shows "ctl_int (ctl_next Arbitration_lost c) \<and> ctl_stat (ctl_next Arbitration_lost c) = 0x38"
  using assms
  by (auto simp: bus_linked_def ctl_next_def stop_if_requested_def on_wire_def interrupt_with_def Let_def split: if_splits)

context twi_controllers
begin

lemma flag_shown_ctl: "b \<in> twi_bases \<Longrightarrow> flag_shown P b e \<longleftrightarrow> ctl_int (ctl b (hw e))"
  using rd_cntr [of b "hw e"] by (cases "bus_rd P (b + TWI_CNTR) (hw e)") (simp add: flag_shown_def mmio_read_def)

lemma isr_finishes_ctl:
  assumes "b \<in> twi_bases"
  shows "isr_finishes P b s e \<longleftrightarrow> ctl_int (ctl b (hw e)) \<and> status_finishes (ctl_stat (ctl b (hw e))) (state_for b s)"
proof -
  obtain v1 h1 where r1: "bus_rd P (b + TWI_CNTR) (hw e) = (v1, h1)" by fastforce
  obtain v2 h2 where r2: "bus_rd P (b + TWI_STAT) h1 = (v2, h2)" by fastforce
  show ?thesis
    using r1 r2 rd_cntr [OF assms r1] rd_stat [OF assms r2] rd_keeps [OF assms assms _ r1]
    by (simp add: isr_finishes_def mmio_read_def)
qed

text \<open>What the handler does to the controllers.\<close>

lemma finish_ctl_others:
  "b \<in> twi_bases \<Longrightarrow> c \<in> twi_bases \<Longrightarrow> c \<noteq> b \<Longrightarrow> twi_finish P b result s e = (s', e') \<Longrightarrow>
    ctl c (hw e') = ctl c (hw e)"
  by (auto simp: twi_finish_def twi_begin_def store_u8_def ctl_store case_prod_beta Let_def split: if_splits)

lemma read_next_byte_ctl:
  assumes "b \<in> twi_bases" and "c \<in> twi_bases" and "read_next_byte P b s e = (s', e')"
  shows "c \<noteq> b \<Longrightarrow> ctl c (hw e') = ctl c (hw e)"
    and "\<exists>i a. ctl b (hw e') = (ctl b (hw e))\<lparr>ctl_int := i, ctl_ack := a\<rparr>"
proof -
  show "c \<noteq> b \<Longrightarrow> ctl c (hw e') = ctl c (hw e)"
    using assms ctl_read [OF assms(1,2), of TWI_DATA e]
    by (auto simp: read_next_byte_def store_u8_def ctl_store case_prod_beta Let_def split: if_splits)
  have "\<exists>i a. x = x\<lparr>ctl_int := i, ctl_ack := a\<rparr>" for x :: twi_ctl
    by (rule exI [of _ "ctl_int x"], rule exI [of _ "ctl_ack x"]) simp
  then show "\<exists>i a. ctl b (hw e') = (ctl b (hw e))\<lparr>ctl_int := i, ctl_ack := a\<rparr>"
    using read_next_byte_effect(4) [OF assms(1,3)] by auto
qed

lemma finish_ended:
  assumes "b \<in> twi_bases" and "twi_inv b s" and "twi_finish P b result s e = (s', e')"
  shows "ctl_ended (q_list (twi_queue_for b s) \<noteq> []) (ctl b (hw e)) (ctl b (hw e'))"
  using finish_outcome(2) [OF assms] by (simp add: ctl_ended_def)

lemma write_next_byte_ctl:
  assumes "b \<in> twi_bases" and "twi_inv b s" and "write_next_byte P b s e = (s', e')"
  shows "c \<in> twi_bases \<Longrightarrow> c \<noteq> b \<Longrightarrow> ctl c (hw e') = ctl c (hw e)"
    and "if ts_index (state_for b s) < tw_length (ts_request (state_for b s))
      then ctl_continued (ctl b (hw e)) (ctl b (hw e'))
      else ctl_ended (q_list (twi_queue_for b s) \<noteq> []) (ctl b (hw e)) (ctl b (hw e'))"
proof -
  let ?more = "ts_index (state_for b s) < tw_length (ts_request (state_for b s))"
  have f: "twi_finish P b Ok s e = (s', e')" if "\<not> ?more"
    using that assms(3) by (simp add: write_next_byte_def Let_def not_less)
  have d: "e' = mmio_write P (b + TWI_DATA) (ucast (ram e (tw_buffer (ts_request (state_for b s)) +
      ucast (ts_index (state_for b s))))) e" if "?more"
    using that assms(3) by (auto simp: write_next_byte_def Let_def not_less [symmetric])
  show "c \<in> twi_bases \<Longrightarrow> c \<noteq> b \<Longrightarrow> ctl c (hw e') = ctl c (hw e)"
    using d finish_ctl_others [OF assms(1) _ _ f] assms(1) by (cases ?more) (simp_all add: ctl_store)
  show "if ?more then ctl_continued (ctl b (hw e)) (ctl b (hw e'))
      else ctl_ended (q_list (twi_queue_for b s) \<noteq> []) (ctl b (hw e)) (ctl b (hw e'))"
    using d finish_ended [OF assms(1,2) f] assms(1) by (cases ?more) (simp_all add: ctl_store ctl_continued_def)
qed

lemma dispatch_ctl:
  assumes "b \<in> twi_bases" and "twi_inv b s" and "twi_dispatch P b status s e = (ret, s', e')"
  shows "(\<forall>c \<in> twi_bases - {b}. ctl c (hw e') = ctl c (hw e)) \<and>
    (if status_finishes status (state_for b s)
     then ctl_ended (q_list (twi_queue_for b s) \<noteq> []) (ctl b (hw e)) (ctl b (hw e'))
     else ctl_continued (ctl b (hw e)) (ctl b (hw e')))"
proof -
  let ?st = "state_for b s"
  consider (address) "status = STAT_START \<or> status = STAT_REPEAT_START" | (register) "status = STAT_ADDR_W_ACK"
      "\<not> ts_sent_reg_addr ?st"
    | (again) "status = STAT_DATA_TX_ACK" "tw_is_read (ts_request ?st) \<and> ts_sent_reg_addr ?st \<and> ts_index ?st = 0"
    | (sends) "status = STAT_ADDR_W_ACK \<and> ts_sent_reg_addr ?st \<or>
        status = STAT_DATA_TX_ACK \<and> \<not> (tw_is_read (ts_request ?st) \<and> ts_sent_reg_addr ?st \<and> ts_index ?st = 0)"
    | (read_ack) "status = STAT_ADDR_R_ACK"
    | (rx_ack) "status = STAT_DATA_RX_ACK" | (rx_nack) "status = STAT_DATA_RX_NACK"
    | (failed) "status \<notin> {STAT_START, STAT_REPEAT_START, STAT_ADDR_W_ACK, STAT_DATA_TX_ACK,
        STAT_ADDR_R_ACK, STAT_DATA_RX_ACK, STAT_DATA_RX_NACK}"
    by auto
  then show ?thesis
  proof cases
    case sends
    then have "write_next_byte P b s e = (s', e')" using assms(3) by (auto simp: twi_dispatch_def Let_def)
    with write_next_byte_ctl [OF assms(1,2)] sends show ?thesis by (auto simp: status_finishes_def)
  next
    case rx_ack
    then have r: "read_next_byte P b s e = (s', e')" using assms(3) by (simp add: twi_dispatch_def)
    obtain i a where "ctl b (hw e') = (ctl b (hw e))\<lparr>ctl_int := i, ctl_ack := a\<rparr>"
      using read_next_byte_ctl(2) [OF assms(1,1) r] by blast
    then show ?thesis
      using read_next_byte_ctl(1) [OF assms(1) _ r] rx_ack by (simp add: status_finishes_def ctl_continued_def)
  next
    case rx_nack
    obtain s1 e1 where r: "read_next_byte P b s e = (s1, e1)" by fastforce
    with assms(3) rx_nack have f: "twi_finish P b Ok s1 e1 = (s', e')" by (simp add: twi_dispatch_def)
    have s1: "twi_inv b s1" "twi_queue_for b s1 = twi_queue_for b s"
      using assms(2) read_next_byte_effect(1) [OF assms(1) r] by simp_all
    obtain i a where "ctl b (hw e1) = (ctl b (hw e))\<lparr>ctl_int := i, ctl_ack := a\<rparr>"
      using read_next_byte_ctl(2) [OF assms(1,1) r] by blast
    with finish_ended [OF assms(1) s1(1) f] s1(2)
    have "ctl_ended (q_list (twi_queue_for b s) \<noteq> []) (ctl b (hw e)) (ctl b (hw e'))" by (simp add: ctl_ended_def)
    then show ?thesis
      using finish_ctl_others [OF assms(1) _ _ f] read_next_byte_ctl(1) [OF assms(1) _ r] rx_nack
      by (simp add: status_finishes_def)
  next
    case failed
    then obtain result where f: "twi_finish P b result s e = (s', e')"
      using assms(3) by (auto simp: twi_dispatch_def Let_def split: if_splits)
    show ?thesis
      using failed finish_ended [OF assms(1,2) f] finish_ctl_others [OF assms(1) _ _ f]
      by (auto simp: status_finishes_def)
  next
    case address
    then obtain v where "e' = mmio_write P (b + TWI_DATA) v e" using assms(3) by (auto simp: twi_dispatch_def Let_def)
    then show ?thesis using address assms(1) by (auto simp: status_finishes_def ctl_store ctl_continued_def)
  next
    case register
    then obtain v where "e' = mmio_write P (b + TWI_DATA) v e" using assms(3) by (auto simp: twi_dispatch_def Let_def)
    then show ?thesis using register assms(1) by (simp add: status_finishes_def ctl_store ctl_continued_def)
  next
    case again
    then have "e' = mmio_modify P (b + TWI_CNTR) (\<lambda>c. c OR CNTR_M_STA) e"
      using assms(3) by (simp add: twi_dispatch_def Let_def)
    then show ?thesis using again assms(1) by (simp add: status_finishes_def ctl_store ctl_continued_def)
  next
    case read_ack
    then have "e' = mmio_modify P (b + TWI_CNTR) (\<lambda>c. c OR CNTR_ACK) e"
      using assms(3) by (simp add: twi_dispatch_def Let_def)
    then show ?thesis using read_ack assms(1) by (simp add: status_finishes_def ctl_store ctl_continued_def)
  qed
qed

lemma handler_ctl:
  assumes "b \<in> twi_bases" and "twi_inv b s" and "ctl_int (ctl b (hw e))" and "TwiDriver_handle_isr P b s e = (s', e')"
  shows "c \<in> twi_bases \<Longrightarrow> c \<noteq> b \<Longrightarrow> ctl c (hw e') = ctl c (hw e)"
    and "if isr_finishes P b s e
      then ctl_ended (q_list (twi_queue_for b s) \<noteq> []) (ctl b (hw e)) (ctl b (hw e'))
      else ctl_continued (ctl b (hw e)) (ctl b (hw e')) \<and> \<not> ctl_int (ctl b (hw e'))"
proof -
  let ?st = "ctl_stat (ctl b (hw e))"
  obtain e2 ret s1 e3 where same: "\<And>c. c \<in> twi_bases \<Longrightarrow> ctl c (hw e2) = ctl c (hw e)"
    and d: "twi_dispatch P b ?st s e2 = (ret, s1, e3)"
    and e': "e' = (if ret then e3 else mmio_modify P (b + TWI_CNTR) (\<lambda>c. c OR CNTR_INT_FLAG) e3)"
  proof (rule handle_flagged [OF assms(1,3), where s = s])
    fix e2
    assume "\<And>c. c \<in> twi_bases \<Longrightarrow> ctl c (hw e2) = ctl c (hw e)"
      and "TwiDriver_handle_isr P b s e =
        (let (returned, s1, e3) = twi_dispatch P b ?st s e2
         in if returned then (s1, e3) else (s1, mmio_modify P (b + TWI_CNTR) (\<lambda>c. c OR CNTR_INT_FLAG) e3))"
    then show thesis
      using that [of e2] assms(4) by (cases "twi_dispatch P b ?st s e2") (auto split: if_splits)
  qed
  note eff = dispatch_ctl [OF assms(1,2) d]
  show "c \<in> twi_bases \<Longrightarrow> c \<noteq> b \<Longrightarrow> ctl c (hw e') = ctl c (hw e)"
    using eff same e' assms(1) by (auto simp: ctl_store)
  have ret: "ret \<longleftrightarrow> ?st \<notin> {STAT_START, STAT_REPEAT_START, STAT_ADDR_W_ACK, STAT_DATA_TX_ACK, STAT_ADDR_R_ACK,
      STAT_DATA_RX_ACK}"
    using d by (auto simp: twi_dispatch_def Let_def split: if_splits prod.splits)
  have fin: "isr_finishes P b s e \<longleftrightarrow> status_finishes ?st (state_for b s)"
    by (simp add: isr_finishes_ctl [OF assms(1)] assms(3))
  have "ret \<Longrightarrow> status_finishes ?st (state_for b s)" using ret by (auto simp: status_finishes_def)
  then show "if isr_finishes P b s e
      then ctl_ended (q_list (twi_queue_for b s) \<noteq> []) (ctl b (hw e)) (ctl b (hw e'))
      else ctl_continued (ctl b (hw e)) (ctl b (hw e')) \<and> \<not> ctl_int (ctl b (hw e'))"
    unfolding fin using eff same [OF assms(1)] e' assms(1)
    by (auto simp: ctl_store ctl_ended_def ctl_continued_def)
qed

lemma handler_linked:
  assumes "b \<in> twi_bases" and "dq_inv (twi_queue_for b s)" and "TwiDriver_handle_isr P b s e = (s', e')"
    and "\<forall>c \<in> twi_bases. bus_linked (state_for c s) (ctl c (hw e))" and "c \<in> twi_bases"
  shows "bus_linked (state_for c s') (ctl c (hw e'))"
proof (cases "ctl_int (ctl b (hw e))")
  case False
  show ?thesis using handle_unflagged [OF assms(1) False assms(3)] assms(4,5) by simp
next
  case True
  note eff = twi_isr_effect [OF assms(2,3)]
  have inv: "twi_inv b s" using assms(2) by (simp add: twi_inv_def)
  note dev = handler_ctl [OF assms(1) inv True assms(3)]
  have b: "bus_linked (state_for b s) (ctl b (hw e))" using assms(1,4) by blast
  then have act: "ts_active (state_for b s)" using True by (auto simp: bus_linked_def bus_at_rest_def split: if_splits)
  show ?thesis
  proof (cases "c = b")
    case other: False
    then have "state_for c s' = state_for c s"
      using eff known_bus_no [OF assms(1,5)] by (simp add: other_buses_kept_def)
    then show ?thesis using dev(1) [OF assms(5) other] assms(4,5) by simp
  next
    case same: True
    show ?thesis
    proof (cases "isr_finishes P b s e")
      case fin: True
      then have "ts_active (state_for b s') \<longleftrightarrow> q_list (twi_queue_for b s) \<noteq> []"
        using eff by (auto simp: next_begun_def active_job_def split: if_splits)
      then show ?thesis
        using dev(2) fin b act True same by (auto simp: bus_linked_def bus_at_rest_def ctl_ended_def)
    next
      case go: False
      then have "ctl_stat (ctl b (hw e)) \<notin> {0x00, 0x38}"
        using isr_finishes_ctl [OF assms(1), of s e] True by (auto simp: status_finishes_def regs)
      moreover have "ts_active (state_for b s')" using eff go act by (simp add: still_running_def)
      ultimately show ?thesis
        using dev(2) go b act True same by (auto simp: bus_linked_def ctl_continued_def)
    qed
  qed
qed

lemma starter_linked:
  assumes "starter_step P (pc, s, e) new (pc', s', e')" and "on_known_bus pc"
    and "\<And>b. bus_ok b pc s" and "\<forall>c \<in> twi_bases. bus_linked (state_for c s) (ctl c (hw e))" and "c \<in> twi_bases"
  shows "bus_linked (state_for c s') (ctl c (hw e'))"
  using assms(1)
proof cases
  case (submit b r ok)
  then show ?thesis
    using assms(4,5)
    by (auto simp: twi_queue_request_def with_ax_def twi_bus_accessors case_prod_beta Let_def)
next
  case (pop_request b ok r q)
  then show ?thesis using assms(4,5) by (auto simp: with_ax_def twi_bus_accessors case_prod_beta)
next
  case (begin_request b r)
  have b: "b \<in> twi_bases" "\<not> ts_active (state_for b s)"
    using assms(2) assms(3) [of b] begin_request(1) by (simp_all add: bus_ok_def)
  then have rest: "bus_at_rest (ctl b (hw e))" using assms(4) by (auto simp: bus_linked_def)
  show ?thesis
  proof (cases "c = b")
    case True
    then show ?thesis
      using begin_request(4) b(1) rest by (auto simp: twi_begin_def twi_bus_accessors ctl_store bus_linked_def bus_at_rest_def)
  next
    case False
    then have "state_for c s' = state_for c s" "ctl c (hw e') = ctl c (hw e)"
      using begin_request(4) b(1) assms(5) known_bus_no [OF b(1) assms(5)]
      by (auto simp: twi_begin_def twi_bus_accessors ctl_store)
    then show ?thesis using assms(4,5) by simp
  qed
qed (use assms(4,5) in auto)

lemma loop_sound_step:
  assumes "twi_loop P log ctl advance x y" and "loop_sound log ctl log0 x"
  shows "loop_sound log ctl log0 y"
  using assms
proof (induction rule: twi_loop.induct)
  case (loop_starter pc s e new pc' s' e' acc fin)
  then have "twi_sound log log0 (pc', s', e', acc @ new, fin)" by (intro sound_starter) (auto simp: loop_sound_def)
  moreover have "bus_linked (state_for c s') (ctl c (hw e'))" if "c \<in> twi_bases" for c
    using starter_linked [OF loop_starter(1) _ _ _ that] loop_starter(3) by (auto simp: loop_sound_def twi_sound_def)
  ultimately show ?case using loop_starter(2) by (simp add: loop_sound_def)
next
  case (loop_handler b s e s' e' pc acc fin)
  have link: "\<forall>c \<in> twi_bases. bus_linked (state_for c s) (ctl c (hw e))" and inv: "dq_inv (twi_queue_for b s)"
    using loop_handler(3) by (auto simp: loop_sound_def twi_sound_def bus_ok_def)
  have "flag_shown P b e \<longrightarrow> ts_active (state_for b s)"
    using link loop_handler(1) by (auto simp: flag_shown_ctl bus_linked_def bus_at_rest_def split: if_splits)
  then have "twi_sound log log0 (pc, s', e', acc, fin @ finished_by P b s e)"
    using sound_interrupt [OF _ _ loop_handler(2)] loop_handler(3) by (simp add: loop_sound_def)
  then show ?case
    using handler_linked [OF loop_handler(1) inv loop_handler(2) link] loop_handler(3) by (simp add: loop_sound_def)
next
  case (loop_controller b pc s e acc fin d)
  then show ?case by (auto simp: loop_sound_def twi_sound_def ctl_advance ctl_next_linked(1))
next
  case (loop_other x e h pc s acc fin m)
  then show ?case by (auto simp: loop_sound_def twi_sound_def)
qed

lemma loop_sound_reachable:
  "(twi_loop P log ctl advance)\<^sup>*\<^sup>* x y \<Longrightarrow> loop_sound log ctl log0 x \<Longrightarrow> loop_sound log ctl log0 y"
  by (induction rule: rtranclp_induct) (auto intro: loop_sound_step)

lemma loop_sound_static:
  assumes "\<And>b. b \<in> twi_bases \<Longrightarrow> bus_at_rest (ctl b (hw e))"
  shows "loop_sound log ctl (log (ax e)) (At_rest, twi_static, e, [], [])"
proof -
  have "\<not> ts_active (state_for b twi_static)" for b
    by (simp add: twi_static_def state_for_def TwiTransferState_default_def)
  then show ?thesis using twi_sound_static assms by (simp add: loop_sound_def bus_linked_def)
qed

end

text \<open>\<^verbatim>\<open>await_suspend\<close> without an interrupt in between is a run of these steps.\<close>

lemma await_suspend_is_run:
  assumes "r = (aw_request aw)\<lparr>tw_handle := h, tw_result := self\<rparr>" and "aw_base aw \<in> twi_bases"
    and "twi_queue_request P (aw_base aw) r s e = (ok, s1, e1)"
  shows "(twi_loop P log ctl advance)\<^sup>*\<^sup>* (At_rest, s, e, acc, fin)
    (At_rest, fst (TwiAwaiter_await_suspend P self aw h s e), snd (TwiAwaiter_await_suspend P self aw h s e),
     acc @ (if ok then [(aw_base aw, r)] else []), fin)"
proof -
  let ?b = "aw_base aw" and ?acc = "acc @ (if ok then [(aw_base aw, r)] else [])"
  let ?t = "twi_start_transfer P ?b s1 e1" and ?R = "twi_loop P log ctl advance"
  have call: "TwiAwaiter_await_suspend P self aw h s e = ?t"
    using assms by (simp add: TwiAwaiter_await_suspend_def Let_def)
  have go: "?R (pc, s, e, acc, fin) (pc', s', e', acc, fin)"
    if "starter_step P (pc, s, e) [] (pc', s', e')" "on_known_bus pc'" for pc s e pc' s' e' acc
    using twi_loop.loop_starter [OF that, of log ctl advance acc fin] by simp
  have "?R\<^sup>*\<^sup>* (At_check ?b, s1, e1, ?acc, fin) (At_rest, fst ?t, snd ?t, ?acc, fin)"
  proof (cases "ts_active (state_for ?b s1)")
    case True
    then show ?thesis
      using go [OF starter_step.found_active [OF True]] by (auto simp: twi_start_transfer_def)
  next
    case False
    obtain ok' r' q e2 where p: "with_ax (pop (taccess P) TwiRequest_default (twi_queue_for ?b s1)) e1 = ((ok', r', q), e2)"
      by (metis prod.exhaust)
    note to_pop = go [OF starter_step.found_idle [OF False], of e1 ?acc] go [OF starter_step.pop_request [OF p], of ?acc]
    show ?thesis
    proof (cases ok')
      case True
      obtain s2 e3 where b: "twi_begin P ?b r' (set_twi_queue_for ?b q s1) e2 = (s2, e3)" by fastforce
      then have "?t = (s2, e3)" using False p True by (simp add: twi_start_transfer_def)
      moreover note go [OF starter_step.begin_request [OF b], of ?acc]
      ultimately show ?thesis using to_pop True assms(2) by (auto intro: converse_rtranclp_into_rtranclp)
    next
      case no: False
      then have "?t = (set_twi_queue_for ?b q s1, e2)" using False p by (simp add: twi_start_transfer_def)
      then show ?thesis using to_pop no assms(2) by (auto intro: converse_rtranclp_into_rtranclp)
    qed
  qed
  with twi_loop.loop_starter [OF starter_step.submit [OF assms(3)], of log ctl advance acc fin] assms(2) show ?thesis
    unfolding call by (auto intro: converse_rtranclp_into_rtranclp)
qed

subsection \<open>Properties\<close>

text \<open>C14. Every accepted request is served, one at a time and in order: in every interleaving of the
  unmasked parts of a submission with calls of the handler for all three buses and with the controllers,
  whatever the devices answer, the accepted requests of a bus
  are those finished, in order, then the one in transfer, the one about to begin, and the waiting
  ones; the coroutines resumed are exactly those of the finished requests, in order.  No request is
  stranded: when no submission is under way, an idle bus has nothing waiting, and while a transfer is active its
  controller shows the interrupt flag or goes on to the next interrupt.  A controller without an active transfer does
  not interrupt.  The controllers start at rest, as the initialisation leaves them.\<close>

theorem twi_requests_served_in_order:
  assumes "twi_controllers P log ctl advance" and "\<And>b. b \<in> twi_bases \<Longrightarrow> bus_at_rest (ctl b (hw e0))"
    and "(twi_loop P log ctl advance)\<^sup>*\<^sup>* (At_rest, twi_static, e0, [], []) (pc, s, e, acc, fin)" and "b \<in> twi_bases"
  shows "on_bus b acc = on_bus b fin @ active_job b s @ popped_job b pc @ q_list (twi_queue_for b s) \<and>
    log (ax e) = log (ax e0) @ concat (map (resumed \<circ> snd) fin) \<and>
    length (active_job b s @ popped_job b pc) \<le> 1 \<and>
    (pc = At_rest \<and> \<not> ts_active (state_for b s) \<longrightarrow> on_bus b fin = on_bus b acc) \<and>
    (ts_active (state_for b s) \<longrightarrow> ctl_int (ctl b (hw e)) \<or> (\<forall>d. ctl_int (ctl_next d (ctl b (hw e))))) \<and>
    (\<not> ts_active (state_for b s) \<longrightarrow> bus_at_rest (ctl b (hw e)))"
proof -
  have sound: "loop_sound log ctl (log (ax e0)) (pc, s, e, acc, fin)"
    using twi_controllers.loop_sound_reachable [OF assms(1,3) twi_controllers.loop_sound_static [OF assms(1,2)]] by blast
  then have *: "bus_ok b pc s" "on_bus b acc = on_bus b fin @ twi_jobs b pc s"
    "log (ax e) = log (ax e0) @ concat (map (resumed \<circ> snd) fin)"
    by (auto simp: loop_sound_def twi_sound_def)
  have link: "bus_linked (state_for b s) (ctl b (hw e))" using sound assms(4) by (simp add: loop_sound_def)
  have "length (active_job b s @ popped_job b pc) \<le> 1"
    using *(1) by (cases pc) (auto simp: bus_ok_def active_job_def popped_job_def)
  moreover have "\<not> ts_active (state_for b s) \<longrightarrow> bus_at_rest (ctl b (hw e))" using link by (simp add: bus_linked_def)
  ultimately show ?thesis
    using * ctl_next_linked(2) [OF link] by (auto simp: twi_jobs_def bus_ok_def active_job_def popped_job_def)
qed

theorem twi_requests_served_in_order_witness:
  "\<exists>s e. (twi_loop twi_platform posted (\<lambda>b h. h b) twi_advance)\<^sup>*\<^sup>* (At_rest, twi_static, twi_env, [], [])
      (At_rest, s, e, [(S_TWI0_BASE, example_twi False 2)], [(S_TWI0_BASE, example_twi False 2)]) \<and>
    posted (ax e) = [0x80200] \<and> bus_at_rest (hw e S_TWI0_BASE)"
proof -
  let ?b = S_TWI0_BASE and ?r = "example_twi False 2" and ?s0 = "(At_rest, twi_static, twi_env, [], [])"
  let ?step = "twi_loop twi_platform posted (\<lambda>b h. h b) twi_advance"
  have base: "?b \<in> twi_bases" by (simp add: twi_bases_def)
  have rest: "bus_at_rest (hw twi_env b)" for b by (simp add: twi_env_def ctl_initial_def bus_at_rest_def)
  note served = twi_requests_served_in_order [OF twi_sim.twi_controllers_axioms _ _ base, where ?e0.0 = twi_env, OF rest]
  obtain ok s1 e1 where q: "twi_queue_request twi_platform ?b ?r twi_static twi_env = (ok, s1, e1)"
    by (metis prod.exhaust)
  have "dq_inv (twi_queue_for ?b twi_static)" "q_list (twi_queue_for ?b twi_static) = []"
    by (simp_all add: twi_static_def twi_queue_for_def)
  then have "fst (push_from_isr ?r (twi_queue_for ?b twi_static))" by (simp add: dq_simps)
  then have ok using q by (auto simp: twi_queue_request_def Let_def case_prod_beta)
  obtain s2 e2 where t: "twi_start_transfer twi_platform ?b s1 e1 = (s2, e2)" by fastforce
  have one: "?step\<^sup>*\<^sup>* ?s0 (At_rest, s2, e2, [(?b, ?r)], [])"
    using await_suspend_is_run [where r = ?r and aw = "\<lparr>aw_base = ?b, aw_request = ?r\<rparr>" and h = "0x80200"
        and self = "0x80118" and P = twi_platform and s = twi_static and e = twi_env and ok = ok and ?s1.0 = s1
        and ?e1.0 = e1 and log = posted and acc = "[]" and fin = "[]"] q \<open>ok\<close> base t
    by (auto simp: example_twi_def TwiAwaiter_await_suspend_def)
  have act: "ts_active (state_for ?b s2)" using served [OF one] by auto
  then have req: "ts_request (state_for ?b s2) = ?r" using served [OF one] by (auto simp: active_job_def)
  let ?e3 = "e2\<lparr>hw := twi_advance ?b Arbitration_lost (hw e2)\<rparr>"
  obtain s4 e4 where isr: "TwiDriver_handle_isr twi_platform ?b s2 ?e3 = (s4, e4)" by fastforce
  have "\<not> ctl_int (hw e1 ?b)" using q rest [of ?b]
    by (auto simp: twi_queue_request_def with_ax_def bus_at_rest_def case_prod_beta Let_def)
  then have "\<not> ctl_int (hw e2 ?b)" using t twi_sim.ctl_modify [OF base base]
    by (auto simp: twi_start_transfer_def twi_begin_def with_ax_def case_prod_beta Let_def split: if_splits)
  moreover have "bus_linked (state_for ?b s2) (hw e2 ?b)"
    using twi_sim.loop_sound_reachable [OF one twi_sim.loop_sound_static] rest base by (auto simp: loop_sound_def)
  ultimately have "finished_by twi_platform ?b s2 ?e3 = [(?b, ?r)]"
    using lost_interrupts [of "state_for ?b s2" "hw e2 ?b"] act req twi_sim.isr_finishes_ctl [OF base, of s2 ?e3]
    by (simp add: finished_by_def twi_advance_def status_finishes_def regs)
  then have "?step (At_rest, s2, ?e3, [(?b, ?r)], []) (At_rest, s4, e4, [(?b, ?r)], [(?b, ?r)])"
    using twi_loop.loop_handler [OF base isr, of posted "\<lambda>b h. h b" twi_advance At_rest "[(?b, ?r)]" "[]"] by simp
  moreover have "?step (At_rest, s2, e2, [(?b, ?r)], []) (At_rest, s2, ?e3, [(?b, ?r)], [])"
    by (rule twi_loop.loop_controller [OF base])
  ultimately have run: "?step\<^sup>*\<^sup>* ?s0 (At_rest, s4, e4, [(?b, ?r)], [(?b, ?r)])"
    using one by (meson rtranclp.rtrancl_into_rtrancl)
  with served [OF run] show ?thesis
    by (intro exI [of _ s4] exI [of _ e4]) (simp add: resumed_def example_twi_def twi_env_def sim_env_def active_job_def split: if_splits)
qed

end
