(* ===== verification/Coroutine_Accounting.thy ===== *)
theory Coroutine_Accounting
  imports Trap_Handler Twi_Schedule "HOL-Library.Multiset"
begin

text \<open>
  Which coroutines a driver holds.  A coroutine that awaits an operation leaves its handle in a request;
  the handle stays in a queue, or with the transfer in progress, until an interrupt posts it.
  \<open>serves\<close> is the account of one operation: what it posts and what is waiting afterwards is what was
  waiting before and what it accepted.  Each operation of each driver keeps the invariant of its
  driver and this account.
\<close>

subsection \<open>Waiting coroutines\<close>

definition msgbox_waiting :: "msgbox \<Rightarrow> handle multiset" where
  "msgbox_waiting m = mset (map dr_handle (waiters m))"

definition gpio_waiting :: "gpio \<Rightarrow> handle multiset" where
  "gpio_waiting g = mset (map pe_handle (pin_waiters g))"

definition uart_waiting :: "uart \<Rightarrow> handle multiset" where
  "uart_waiting u = mset (map rr_handle (readers u)) + mset (map wr_handle (writers u))"

definition spi_waiting :: "spi \<Rightarrow> handle multiset" where
  "spi_waiting s = mset (map tr_handle (spi_jobs SPI0_BASE s)) + mset (map tr_handle (spi_jobs SPI1_BASE s))"

text \<open>A TWI submission takes its request out of the queue before it begins it, so the driver is seen together with
  the progress of that submission.\<close>

definition twi_waiting :: "starter \<times> twi \<Rightarrow> handle multiset" where
  "twi_waiting pw = (case pw of (pc, w) \<Rightarrow>
     mset (map tw_handle (twi_jobs S_TWI0_BASE pc w)) + mset (map tw_handle (twi_jobs S_TWI1_BASE pc w)) +
     mset (map tw_handle (twi_jobs S_TWI2_BASE pc w)))"

text \<open>Every request a valid driver holds, as a list of accepted requests nothing of which is finished.\<close>

definition all_jobs :: "starter \<times> twi \<Rightarrow> (u32 \<times> TwiRequest) list" where
  "all_jobs pw = (case pw of (pc, w) \<Rightarrow>
     concat (map (\<lambda>b. map (Pair b) (twi_jobs b pc w)) [S_TWI0_BASE, S_TWI1_BASE, S_TWI2_BASE]))"

definition twi_ok :: "starter \<times> twi \<Rightarrow> bool" where
  "twi_ok pw \<longleftrightarrow> (case pw of (pc, w) \<Rightarrow> \<forall>b. bus_ok b pc w)"

definition serves ::
    "('d \<Rightarrow> handle multiset) \<Rightarrow> ('x \<Rightarrow> handle list) \<Rightarrow> handle list \<Rightarrow> 'd \<Rightarrow> ('h, 'x) env \<Rightarrow> 'd \<Rightarrow>
     ('h, 'x) env \<Rightarrow> bool" where
  "serves W log new d e d' e' \<longleftrightarrow>
     (\<exists>ps. log (ax e') = log (ax e) @ ps \<and> mset ps + W d' = W d + mset new)"

text \<open>What the code relies on of the pin callbacks of an application: they keep the driver state valid, leave
  its waiting coroutines alone, and post nothing.\<close>

definition callback_keeps_waiters :: "('x \<Rightarrow> handle list) \<Rightarrow> ('h, 'x) pin_callback \<Rightarrow> bool" where
  "callback_keeps_waiters log call \<longleftrightarrow>
     (\<forall>cb port pin ctx g e g' e'. gpio_inv g \<longrightarrow> call cb port pin ctx (g, e) = (g', e') \<longrightarrow>
        gpio_inv g' \<and> pin_waiters g' = pin_waiters g \<and> log (ax e') = log (ax e))"

subsection \<open>Accounts\<close>

lemma servesI:
  "log (ax e') = log (ax e) @ ps \<Longrightarrow> mset ps + W d' = W d + mset new \<Longrightarrow> serves W log new d e d' e'"
  by (auto simp: serves_def)

lemma serves_idle: "log (ax e') = log (ax e) \<Longrightarrow> W d' = W d \<Longrightarrow> serves W log [] d e d' e'"
  by (simp add: serves_def)

text \<open>An operation that resumes the coroutines at the front of a queue.\<close>

lemma serves_front:
  assumes "log (ax e') = log (ax e) @ map h f" and "js = f @ js'"
    and "W d = mset (map h js) + R" and "W d' = mset (map h js') + R"
  shows "serves W log [] d e d' e'"
  using assms by (intro servesI [of _ _ _ "map h f"]) (simp_all add: ac_simps)

lemma serves_trans:
  assumes "serves W log new d e d1 e1" and "serves W log new' d1 e1 d2 e2"
  shows "serves W log (new @ new') d e d2 e2"
proof -
  obtain p p' where p: "log (ax e1) = log (ax e) @ p" "mset p + W d1 = W d + mset new"
    and p': "log (ax e2) = log (ax e1) @ p'" "mset p' + W d2 = W d1 + mset new'"
    using assms by (auto simp: serves_def)
  have "mset (p @ p') + W d2 = mset p + (mset p' + W d2)" by (simp add: ac_simps)
  also have "\<dots> = (mset p + W d1) + mset new'" unfolding p'(2) by (simp only: add.assoc)
  also have "\<dots> = W d + mset (new @ new')" unfolding p(2) by (simp add: add.assoc)
  finally show ?thesis using p(1) p'(1) by (intro servesI [of _ _ _ "p @ p'"]) simp_all
qed

lemma serves_nonnull:
  assumes "serves W log new d e d' e'" and "0 \<notin># W d" and "0 \<notin> set new"
  shows "0 \<notin># W d'"
proof -
  obtain p where "mset p + W d' = W d + mset new" using assms(1) by (auto simp: serves_def)
  then have "set_mset (mset p + W d') = set_mset (W d + mset new)" by (rule arg_cong)
  then show ?thesis using assms(2,3) by auto
qed

subsection \<open>Loops leave the dispatcher alone\<close>

lemma read_mtime_ax:
  assumes "read_mtime P e = Some r"
  shows "ax (snd r) = ax e"
proof -
  have "ax (snd r) = ax (snd (P, e))"
  proof (rule read_mtime.raw_induct [where Pa = "\<lambda>x r. ax (snd r) = ax (snd x)", OF _ assms])
    fix f and P :: "('h, 'x) platform" and e r
    assume IH: "\<And>P e r. f P e = Some r \<Longrightarrow> ax (snd r) = ax (snd (P, e))"
      and body: "(let (high_before, e1) = mmio_read P (RISCV_MTIME_ADDR + 4) e;
        (low, e2) = mmio_read P RISCV_MTIME_ADDR e1; (high_after, e3) = mmio_read P (RISCV_MTIME_ADDR + 4) e2
        in if high_before \<noteq> high_after then f P e3 else Some (u64_of_halves high_before low, e3)) = Some r"
    from body show "ax (snd r) = ax (snd (P, e))"
      by (auto simp: case_prod_beta Let_def dest!: IH split: if_splits)
  qed
  then show ?thesis by simp
qed

subsection \<open>Mailbox\<close>

context dispatcher
begin

lemma msgbox_submit_serves:
  assumes "msgbox_inv m" and "AsyncDoorbellAwaiter_await_suspend P self h m e = (m', e')"
  shows "msgbox_inv m' \<and> serves msgbox_waiting log (if length (waiters m) < 8 then [h] else []) m e m' e'"
  using await_doorbell_waiters [OF assms] log_await_doorbell [OF assms(2)]
  by (auto simp: msgbox_waiting_def intro!: servesI [of _ _ _ "[]"])

lemma msgbox_isr_serves:
  assumes "msgbox_inv m" and "MsgboxDriver_handle_isr P m e = (m', e')"
  shows "msgbox_inv m' \<and> serves msgbox_waiting log [] m e m' e'"
  using msgbox_isr_cases(1) [OF assms] log_msgbox_isr [OF assms]
  by (auto simp: msgbox_waiting_def intro: serves_front [OF _ msgbox_isr_cases(2) [OF assms], where R = "{#}"] split: if_splits)

end

subsection \<open>GPIO\<close>

context dispatcher
begin

lemma log_enable_pin [simp]: "log (ax (enable_pin_interrupt P port pin trigger e)) = log (ax e)"
  by (simp add: enable_pin_interrupt_def log_of_masked Let_def)

lemma log_disable_pin [simp]: "log (ax (disable_pin_interrupt P port pin e)) = log (ax e)"
  by (simp add: disable_pin_interrupt_def log_of_masked Let_def)

lemma gpio_queue_serves:
  assumes "gpio_inv g" and "queue_pin_event_request P h port pin g (store_u32 a h e) = (ok, g', e')"
  shows "gpio_inv g' \<and> serves gpio_waiting log (if length (pin_waiters g) < 8 then [h] else []) g e g' e'"
proof -
  let ?v = "\<lparr>pe_handle = h, pe_port = port, pe_pin = pin\<rparr>"
  have g': "g' = g\<lparr>pending_pin_events := snd (push_from_isr ?v (pending_pin_events g))\<rparr>"
    and l: "log (ax e') = log (ax e)"
    using assms(2) by (auto simp: queue_pin_event_request_def case_prod_beta Let_def)
  have "dq_inv (pending_pin_events g)" using assms(1) by (simp add: gpio_inv_def)
  then show ?thesis
    using assms(1) l
    by (auto simp: g' gpio_inv_def gpio_waiting_def pin_waiters_def dq_simps intro!: servesI [of _ _ _ "[]"])
qed

lemma gpio_register_serves:
  assumes "gpio_inv g" and "register_pin_isr P port pin cb ctx trigger g e = (ok, g', e')"
  shows "gpio_inv g' \<and> serves gpio_waiting log [] g e g' e'"
proof -
  have "length hs' = length hs" if "claim_slot port pin cb ctx hs = Some hs'" for hs hs'
    using that by (induction hs arbitrary: hs') (auto split: if_splits)
  then show ?thesis
    using assms
    by (auto simp: register_pin_isr_def gpio_inv_def gpio_waiting_def pin_waiters_def case_prod_beta Let_def
        split: option.splits intro!: serves_idle)
qed

lemma gpio_unregister_serves:
  "gpio_inv g \<Longrightarrow> unregister_pin_isr P port pin g e = (g', e') \<Longrightarrow>
    gpio_inv g' \<and> serves gpio_waiting log [] g e g' e'"
  by (auto simp: unregister_pin_isr_def gpio_inv_def gpio_waiting_def pin_waiters_def case_prod_beta Let_def
      intro!: serves_idle)

lemma dispatch_requests_serves:
  assumes "gpio_inv g" and "dispatch_requests P port pin (length (pin_waiters g)) (g, e) = (g', e')"
  shows "gpio_inv g' \<and> serves gpio_waiting log [] g e g' e'"
proof -
  let ?n = "\<lambda>r. \<not> request_for port pin r" and ?xs = "pin_waiters g"
  have q: "dq_inv (pending_pin_events g)" "q_list (pending_pin_events g) = ?xs @ []"
    using assms(1) by (simp_all add: gpio_inv_def pin_waiters_def)
  obtain q' where inv: "dq_inv q'" and d: "case dropWhile ?n ?xs of
       [] \<Rightarrow> dispatch_requests P port pin (length ?xs) (g, e) = (g\<lparr>pending_pin_events := q'\<rparr>, e) \<and> q_list q' = [] @ ?xs
     | z # zs \<Rightarrow> dispatch_requests P port pin (length ?xs) (g, e) =
         (g\<lparr>pending_pin_events := q'\<rparr>, post P (pe_handle z) e) \<and> q_list q' = zs @ [] @ takeWhile ?n ?xs"
    using dispatch_requests_spec [OF q, where port = port and pin = pin and P = P and e = e] by blast
  show ?thesis
  proof (cases "dropWhile ?n ?xs")
    case Nil
    then have "g' = g\<lparr>pending_pin_events := q'\<rparr>" "e' = e" "q_list q' = ?xs" using d assms(2) unfolding Nil by auto
    then show ?thesis
      using inv assms(1) by (auto simp: gpio_inv_def gpio_waiting_def pin_waiters_def intro!: serves_idle)
  next
    case (Cons z zs)
    then have r: "g' = g\<lparr>pending_pin_events := q'\<rparr>" "e' = post P (pe_handle z) e" "q_list q' = zs @ takeWhile ?n ?xs"
      using d assms(2) unfolding Cons by auto
    have "mset ?xs = mset (takeWhile ?n ?xs @ dropWhile ?n ?xs)" by (simp only: takeWhile_dropWhile_id)
    also have "\<dots> = add_mset z (mset (q_list q'))" unfolding Cons r(3) by simp
    finally have "gpio_waiting g = add_mset (pe_handle z) (gpio_waiting g')"
      by (simp add: gpio_waiting_def pin_waiters_def r(1))
    then show ?thesis
      using inv assms(1) r by (auto simp: gpio_inv_def intro!: servesI [of _ _ _ "[pe_handle z]"])
  qed
qed

lemma dispatch_pin_event_serves:
  assumes "callback_keeps_waiters log call" and "gpio_inv g" and "dispatch_pin_event call P port pin (g, e) = (g', e')"
  shows "gpio_inv g' \<and> serves gpio_waiting log [] g e g' e'"
proof -
  obtain g1 e1 where one: "(case find (slot_for port pin) (handlers g) of
      Some slot \<Rightarrow> call (ph_callback slot) port pin (ph_context slot) (g, e) | None \<Rightarrow> (g, e)) = (g1, e1)"
    by fastforce
  then have cb: "gpio_inv g1" "pin_waiters g1 = pin_waiters g" "log (ax e1) = log (ax e)"
    using assms(1,2) by (auto simp: callback_keeps_waiters_def split: option.splits)
  have "unat (size_from_isr (pending_pin_events g1)) = length (pin_waiters g1)"
    by (simp add: size_from_isr_def pin_waiters_def length_q_list)
  then have "dispatch_requests P port pin (length (pin_waiters g1)) (g1, e1) = (g', e')"
    using assms(3) one by (simp add: dispatch_pin_event_def)
  note two = dispatch_requests_serves [OF cb(1) this]
  have "serves gpio_waiting log [] g e g1 e1" using cb by (intro serves_idle) (simp_all add: gpio_waiting_def)
  from serves_trans [OF this] two show ?thesis by fastforce
qed

lemma dispatch_pending_serves:
  assumes "callback_keeps_waiters log call" and "gpio_inv g" and "dispatch_pending call P port w (g, e) = (g', e')"
  shows "gpio_inv g' \<and> serves gpio_waiting log [] g e g' e'"
  using assms(2,3)
proof (induction w arbitrary: g e rule: measure_induct_rule [of unat])
  case (less w)
  show ?case
  proof (cases "w = 0")
    case True
    then show ?thesis
      using less.prems by (auto simp: dispatch_pending.simps intro: serves_idle)
  next
    case False
    obtain g1 e1 where one: "dispatch_pin_event call P port (of_nat (builtin_ctz w)) (g, e) = (g1, e1)" by fastforce
    have "unat (w AND (w - 1)) \<le> unat (w - 1)" using word_and_le1 [of w "w - 1"] by (simp add: word_le_nat_alt)
    then have lt: "unat (w AND (w - 1)) < unat w" using unat_pred_less [OF False] by simp
    have rest: "dispatch_pending call P port (w AND (w - 1)) (g1, e1) = (g', e')"
      using less.prems(2) False one by (simp add: dispatch_pending.simps [of call P port w])
    note step = dispatch_pin_event_serves [OF assms(1) less.prems(1) one]
    with less.IH [OF lt _ rest] show ?thesis using serves_trans [of gpio_waiting log "[]" g e g1 e1 "[]"] by simp
  qed
qed

lemma bank_isr_serves:
  assumes "callback_keeps_waiters log call" and "gpio_inv g" and "handle_bank_isr call P port g e = (g', e')"
  shows "gpio_inv g' \<and> serves gpio_waiting log [] g e g' e'"
proof -
  obtain status e1 where r1: "mmio_read P (int_STATUS port) e = (status, e1)" by fastforce
  obtain ctl e2 where r2: "mmio_read P (int_CTL port) e1 = (ctl, e2)" by fastforce
  have ax: "ax e2 = ax e"
    using ax_mmio(1) [of P "int_STATUS port" e] ax_mmio(1) [of P "int_CTL port" e1] r1 r2 by auto
  show ?thesis
  proof (cases "status AND ctl = 0")
    case True
    then show ?thesis using assms(2,3) r1 r2 ax by (auto simp: handle_bank_isr_def intro!: serves_idle)
  next
    case False
    then have "dispatch_pending call P port (status AND ctl) (g, mmio_write P (int_STATUS port) (status AND ctl) e2) = (g', e')"
      using assms(3) r1 r2 by (simp add: handle_bank_isr_def Let_def)
    from dispatch_pending_serves [OF assms(1,2) this] show ?thesis using ax by (simp add: serves_def)
  qed
qed

end

subsection \<open>UART\<close>

context dispatcher
begin

lemma uart_read_serves:
  assumes "uart_inv u" and "AsyncReadAwaiter_await_suspend P self h u e = (u', e')"
  shows "uart_inv u' \<and> serves uart_waiting log (if length (readers u) < 8 then [h] else []) u e u' e'"
  using await_read_readers [OF assms] log_await_read [OF assms(2)]
  by (auto simp: uart_waiting_def read_request_def intro!: servesI [of _ _ _ "[]"])

lemma tx_dma_isr_serves:
  assumes "uart_inv u" and "handle_tx_dma_isr P u e = (u', e')"
  shows "uart_inv u' \<and> serves uart_waiting log [] u e u' e'"
proof -
  have inv: "dq_inv (pending_write_requests u)" using assms(1) by (simp add: uart_inv_def)
  show ?thesis
  proof (cases "writers u")
    case Nil
    then obtain q where "pop_from_isr WriteRequest_default (pending_write_requests u) = (False, WriteRequest_default, q)"
      "dq_inv q" "q_list q = []"
      using dq.deq_empty [OF inv] by (auto simp: writers_def)
    then show ?thesis
      using assms Nil
      by (auto simp: handle_tx_dma_isr_def pop_write_request_def uart_inv_def uart_waiting_def readers_def writers_def
          intro!: serves_idle)
  next
    case (Cons r rs)
    then obtain q where "pop_from_isr WriteRequest_default (pending_write_requests u) = (True, r, q)"
      "dq_inv q" "q_list q = rs"
      using dq.deq_Cons [OF inv] by (auto simp: writers_def)
    then show ?thesis
      using assms Cons
      by (auto simp: handle_tx_dma_isr_def pop_write_request_def uart_inv_def uart_waiting_def readers_def writers_def
          intro!: servesI [of _ _ _ "[wr_handle r]"])
  qed
qed

lemma uart_queue_write_serves:
  assumes "uart_inv u" and "queue_write_request P h data u (store_u32 a h e) = (ok, u', e')"
  shows "uart_inv u' \<and> serves uart_waiting log (if length (writers u) < 8 then [h] else []) u e u' e'"
proof -
  let ?v = "\<lparr>wr_handle = h, wr_data = data\<rparr>"
  have u': "u' = u\<lparr>pending_write_requests := snd (push_from_isr ?v (pending_write_requests u))\<rparr>"
    and l: "log (ax e') = log (ax e)"
    using assms(2) by (auto simp: queue_write_request_def case_prod_beta Let_def)
  have "dq_inv (pending_write_requests u)" using assms(1) by (simp add: uart_inv_def)
  then show ?thesis
    using assms(1) l
    by (auto simp: u' uart_inv_def uart_waiting_def readers_def writers_def dq_simps intro!: servesI [of _ _ _ "[]"])
qed

lemma uart_isr_serves:
  assumes "uart_inv u" and "UartDmaDriver_handle_isr P u e = Some (u', e')"
  shows "uart_inv u' \<and> serves uart_waiting log [] u e u' e'"
  using uart_isr_readers(1,3) [OF assms] log_uart_isr [OF assms]
  by (auto simp: uart_waiting_def intro: serves_front [OF _ uart_isr_readers(2) [OF assms], where R = "mset (map wr_handle (writers u))"]
      split: if_splits)

end

subsection \<open>SPI\<close>

lemma same_bus_SPI1: "same_bus SPI1_BASE c \<longleftrightarrow> \<not> same_bus SPI0_BASE c"
  by (simp add: same_bus_def)

context dispatcher
begin

lemma spi_queue_serves:
  assumes "spi_inv s" and "queue_transfer_request P base h tx rx s (store_u32 a h e) = (ok, s', e')"
  shows "spi_inv s' \<and> serves spi_waiting log (if length (q_list (queue_for base s)) < 8 then [h] else []) s e s' e'"
proof -
  note sub = submit_bus [OF assms]
  have "spi_waiting s' = spi_waiting s + mset (if ok then [h] else [])"
    unfolding spi_waiting_def sub(3) same_bus_SPI1 by (cases ok) auto
  then show ?thesis using sub(1,2) log_submit [OF assms(2)] by (auto intro!: servesI [of _ _ _ "[]"])
qed

lemma spi_start_serves:
  assumes "spi_inv s" and "try_start_next_transfer P base s e = (s', e')"
  shows "spi_inv s' \<and> serves spi_waiting log [] s e s' e'"
  using start_bus [OF assms] log_start [OF assms(2)] by (auto simp: spi_waiting_def intro!: serves_idle)

lemma spi_isr_serves:
  assumes "spi_inv s" and "0 \<notin># spi_waiting s" and "complete_transfer_from_isr P c s e = (s', e')"
  shows "spi_inv s' \<and> serves spi_waiting log [] s e s' e'"
proof -
  let ?r = "active_request_for c s" and ?done = "if busy_for c s then [tr_handle (active_request_for c s)] else []"
  note com = complete_bus [OF assms(1,3)]
  have "spi_waiting s = mset ?done + spi_waiting s'"
    unfolding spi_waiting_def com(2) [of SPI0_BASE] com(2) [of SPI1_BASE] same_bus_SPI1 by auto
  moreover have "log (ax e') = log (ax e) @ ?done"
  proof (cases "busy_for c s")
    case True
    then have "tr_handle ?r \<in># spi_waiting s" using \<open>spi_waiting s = _\<close> by simp
    then have "tr_handle ?r \<noteq> 0" using assms(2) by metis
    then show ?thesis using log_complete [OF assms(3)] True by simp
  next
    case False
    then have "tr_handle ?r = 0" using assms(1) by (simp add: spi_inv_bus bus_inv_def TransferRequest_default_def)
    then show ?thesis using log_complete [OF assms(3)] False by simp
  qed
  ultimately show ?thesis using com(1) by (auto intro!: servesI [of _ _ _ ?done])
qed

end

subsection \<open>TWI\<close>

lemma S_TWI_bus_numbers [simp]:
  "twi_bus_no S_TWI0_BASE = 0" "twi_bus_no S_TWI1_BASE = 1" "twi_bus_no S_TWI2_BASE = 2"
  by (simp_all add: twi_bus_no_def memory_map)

lemma twi_bus_no_cases: "twi_bus_no b = 0 \<or> twi_bus_no b = 1 \<or> twi_bus_no b = 2"
  by (simp add: twi_bus_no_def)

lemma twi_jobs_cong: "twi_bus_no c = twi_bus_no b \<Longrightarrow> twi_jobs b pc w = twi_jobs c pc w"
  by (simp add: twi_jobs_def active_job_def popped_job_def same_bus_no [of c b] split: starter.splits)

lemma on_bus_Pair: "on_bus b (map (Pair c) rs) = (if twi_bus_no c = twi_bus_no b then rs else [])"
  by (simp add: on_bus_def filter_map o_def map_idI)

lemma on_bus_all_jobs: "on_bus b (all_jobs (pc, w)) = twi_jobs b pc w"
  using twi_bus_no_cases [of b] twi_jobs_cong [of S_TWI0_BASE b pc w] twi_jobs_cong [of S_TWI1_BASE b pc w]
    twi_jobs_cong [of S_TWI2_BASE b pc w]
  by (auto simp: all_jobs_def on_bus_Pair)

lemma twi_sound_all_jobs: "twi_ok (pc, w) \<Longrightarrow> twi_sound log (log (ax e)) (pc, w, e, all_jobs (pc, w), [])"
  by (simp add: twi_sound_def twi_ok_def on_bus_all_jobs)

lemma sum_of_three:
  fixes a a' a'' :: "'a multiset"
  assumes "a + n = f + w" and "a' + n' = f' + w'" and "a'' + n'' = f'' + w''"
  shows "a + a' + a'' + (n + n' + n'') = f + f' + f'' + (w + w' + w'')"
proof -
  have "a + a' + a'' + (n + n' + n'') = (a + n) + (a' + n') + (a'' + n'')" by (simp only: ac_simps)
  also have "\<dots> = f + f' + f'' + (w + w' + w'')" unfolding assms by (simp only: ac_simps)
  finally show ?thesis .
qed

text \<open>The requests of all buses.\<close>

lemma all_buses:
  "mset (map tw_handle (on_bus S_TWI0_BASE rs)) + mset (map tw_handle (on_bus S_TWI1_BASE rs)) +
    mset (map tw_handle (on_bus S_TWI2_BASE rs)) = mset (map (tw_handle \<circ> snd) rs)"
proof (induction rs)
  case Nil
  then show ?case by simp
next
  case (Cons r rs)
  have "on_bus b (r # rs) = on_bus b [r] @ on_bus b rs" for b using on_bus_simps(2) [of b "[r]" rs] by simp
  then show ?case using Cons twi_bus_no_cases [of "fst r"] by (cases r) auto
qed

context dispatcher
begin

text \<open>Every step of the schedule of the driver keeps the order of each bus, and the account.\<close>

lemma twi_step_books:
  assumes "twi_ok (pc, w)"
    and "twi_step P log (pc, w, e, all_jobs (pc, w), []) (pc', w', e', all_jobs (pc, w) @ new, fin)"
  shows "twi_ok (pc', w')" and "twi_jobs b pc w @ on_bus b new = on_bus b fin @ twi_jobs b pc' w'"
    and "log (ax e') = log (ax e) @ concat (map (resumed \<circ> snd) fin)"
  using twi_sound_step [OF assms(2) twi_sound_all_jobs [OF assms(1)]]
  by (auto simp: twi_sound_def twi_ok_def on_bus_all_jobs)

lemma twi_step_serves:
  assumes "twi_ok (pc, w)" and "0 \<notin># twi_waiting (pc, w)" and "0 \<notin> set (map (tw_handle \<circ> snd) new)"
    and "twi_step P log (pc, w, e, all_jobs (pc, w), []) (pc', w', e', all_jobs (pc, w) @ new, fin)"
  shows "twi_ok (pc', w') \<and> serves twi_waiting log (map (tw_handle \<circ> snd) new) (pc, w) e (pc', w') e'"
proof -
  note books = twi_step_books [OF assms(1,4)]
  have split: "mset (map tw_handle (twi_jobs b pc w)) + mset (map tw_handle (on_bus b new)) =
      mset (map tw_handle (on_bus b fin)) + mset (map tw_handle (twi_jobs b pc' w'))" for b
    using arg_cong [OF books(2) [of b], of "\<lambda>rs. mset (map tw_handle rs)"] by simp
  have W: "twi_waiting (pc, w) + mset (map (tw_handle \<circ> snd) new) =
      mset (map (tw_handle \<circ> snd) fin) + twi_waiting (pc', w')"
    unfolding all_buses [symmetric] twi_waiting_def prod.case
    by (rule sum_of_three) (rule split)+
  have "tw_handle (snd r) \<noteq> 0" if "r \<in> set fin" for r
  proof -
    have "tw_handle (snd r) \<in># twi_waiting (pc, w) + mset (map (tw_handle \<circ> snd) new)"
      unfolding W using that by auto
    then show ?thesis using assms(2,3) by (metis set_mset_mset union_iff)
  qed
  then have "concat (map (resumed \<circ> snd) fin) = map (tw_handle \<circ> snd) fin"
    by (induction fin) (auto simp: resumed_def)
  then show ?thesis using books(1,3) W by (auto intro!: servesI [of _ _ _ "map (tw_handle \<circ> snd) fin"])
qed

lemma twi_isr_serves:
  assumes "twi_ok (pc, w)" and "0 \<notin># twi_waiting (pc, w)" and "flag_shown P c e \<longrightarrow> ts_active (state_for c w)"
    and "TwiDriver_handle_isr P c w e = (w', e')"
  shows "twi_ok (pc, w') \<and> serves twi_waiting log [] (pc, w) e (pc, w') e'"
  using twi_step_serves [OF assms(1,2), of "[]"] twi_step.interrupt [OF assms(3,4), of log pc "all_jobs (pc, w)" "[]"]
  by auto

end

text \<open>The schedule seen from bus \<open>b\<close>, with anything else in between.\<close>

inductive twi_bus_step ::
    "('h, 'x) platform \<Rightarrow> ('x \<Rightarrow> handle list) \<Rightarrow> u32 \<Rightarrow> (starter \<times> twi) \<times> ('h, 'x) env \<Rightarrow> bool \<Rightarrow>
     TwiRequest list \<Rightarrow> TwiRequest list \<Rightarrow> (starter \<times> twi) \<times> ('h, 'x) env \<Rightarrow> bool"
  for P :: "('h, 'x) platform" and log :: "'x \<Rightarrow> handle list" and b :: u32 where
  twi_driver: "(\<And>acc fin. twi_step P log (pc, w, e, acc, fin) (pc', w', e', acc @ new, fin @ fins)) \<Longrightarrow>
    twi_bus_step P log b ((pc, w), e) True (on_bus b new) (on_bus b fins) ((pc', w'), e')"
| twi_elsewhere: "log x = log (ax e) @ ps \<Longrightarrow>
    twi_bus_step P log b (pw, e) False [] [] (pw, \<lparr>hw = h, ax = x, ram = r\<rparr>)"

lemma subseq_on_bus: "subseq (concat (map resumed (on_bus b rs))) (concat (map (resumed \<circ> snd) rs))"
  by (induction rs) (auto simp: on_bus_def intro: list_emb_append_mono list_emb_append2)

sublocale dispatcher \<subseteq> twi_server: fifo_server "twi_bus_step P log b" "twi_ok \<circ> fst" "\<lambda>s. twi_jobs b (fst (fst s)) (snd (fst s))"
  "\<lambda>s. log (ax (snd s))" resumed for b
proof
  fix s s' :: "(starter \<times> twi) \<times> ('h, 'x) env" and ev a f
  assume step: "twi_bus_step P log b s ev a f s'" and inv: "(twi_ok \<circ> fst) s"
  have "(twi_ok \<circ> fst) s' \<and> twi_jobs b (fst (fst s)) (snd (fst s)) @ a = f @ twi_jobs b (fst (fst s')) (snd (fst s')) \<and>
    (\<exists>ps. log (ax (snd s')) = log (ax (snd s)) @ ps \<and> subseq (concat (map resumed f)) ps)"
    using step
  proof cases
    case (twi_driver pc w e pc' w' e' new fins)
    then have "twi_step P log (pc, w, e, all_jobs (pc, w), []) (pc', w', e', all_jobs (pc, w) @ new, fins)"
      using twi_driver(6) [of "all_jobs (pc, w)" "[]"] by simp
    note books = twi_step_books [OF _ this]
    show ?thesis using books inv twi_driver subseq_on_bus by auto
  qed (use inv in auto)
  then show "(twi_ok \<circ> fst) s'"
    "twi_jobs b (fst (fst s)) (snd (fst s)) @ a = f @ twi_jobs b (fst (fst s')) (snd (fst s'))"
    "\<exists>ps. log (ax (snd s')) = log (ax (snd s)) @ ps \<and> subseq (concat (map resumed f)) ps"
    by blast+
qed

subsection \<open>Timer and log\<close>

lemma write_mtimecmp_ax [simp]: "ax (write_mtimecmp P t e) = ax e"
  by (simp add: write_mtimecmp_def mtimecmp_writes_def)

lemma timer_isr_effect:
  assumes "HardwareTimer_handle_isr P t e = Some (t', e')" and "timer_inv t"
  shows "timer_inv t' \<and> ax e' = timer_service_tick P 1 (ax e)"
  using assms
  by (auto simp: HardwareTimer_handle_isr_def arm_next_tick_def bind_eq_Some_conv timer_inv_def Let_def
      split: if_splits dest!: read_mtime_ax)

lemma timer_init_effect:
  assumes "HardwareTimer_init P tick core counter t e = Some (t', e')" and "timer_inv t"
  shows "timer_inv t' \<and> (ax e' = ax e \<or> ax e' = timer_service_init P (ax e))"
  using assms
  by (auto simp: HardwareTimer_init_def set_timer_period_def enable_timer_interrupt_def csr_set_bits_def
      bind_eq_Some_conv timer_inv_def Let_def split: if_splits dest!: read_mtime_ax)

lemma put_char_inv: "trace_inv t \<Longrightarrow> put_char_unlocked P c (t, e) = (t', e') \<Longrightarrow> trace_inv t' \<and> ax e' = ax e"
proof -
  assume "trace_inv t" and r: "put_char_unlocked P c (t, e) = (t', e')"
  let ?o = "if tr_offset t \<ge> TRACE_BUFFER_SIZE - 1 then 0 else tr_offset t"
  have o: "tr_offset t' = ?o + 1" "ax e' = ax e"
    using r by (auto simp: put_char_unlocked_def Let_def split: if_splits)
  have lt: "unat ?o < 32767"
    by (simp add: not_le word_less_nat_alt word_le_nat_alt unat_TRACE_BUFFER_SIZE)
  then have "unat (?o + 1) = Suc (unat ?o)"
    using unat_Suc_no_wrap [of ?o "0x7FFF"] by (simp add: word_less_nat_alt)
  then show ?thesis using lt o by (simp add: trace_inv_def word_less_nat_alt unat_TRACE_BUFFER_SIZE)
qed

lemma put_string_inv:
  "trace_inv t \<Longrightarrow> put_string_unlocked P s (t, e) = (t', e') \<Longrightarrow> trace_inv t' \<and> ax e' = ax e"
proof (induction s arbitrary: t e)
  case Nil
  then show ?case by (simp add: put_string_unlocked_def)
next
  case (Cons c s)
  obtain t1 e1 where one: "put_char_unlocked P c (t, e) = (t1, e1)" by fastforce
  then have "put_string_unlocked P s (t1, e1) = (t', e')" using Cons.prems(2) by (simp add: put_string_unlocked_def)
  then show ?case using Cons.IH [of t1 e1] put_char_inv [OF Cons.prems(1) one] by auto
qed

context dispatcher
begin

lemma emit_log:
  assumes "trace_inv t" and "emit P s (t, e) = (t', e')"
  shows "trace_inv t' \<and> log (ax e') = log (ax e)"
proof -
  obtain t2 e2 where s: "put_string_unlocked P s (t, snd (irq_save P e)) = (t2, e2)" by fastforce
  have "t' = t2" "log (ax e') = log (ax e2)"
    using assms(2) s by (auto simp: emit_def terminate_unlocked_def case_prod_beta Let_def)
  then show ?thesis using put_string_inv [OF assms(1) s] by simp
qed

end

end
