(* ===== verification/Firmware.thy ===== *)
theory Firmware
  imports Coroutine_Accounting
begin

text \<open>
  The firmware as one system.  \<open>fw_step\<close> has a step for every entry into the code: a trap, and each
  operation the coroutines and \<open>main\<close> call.  Traps, the hardware, ordinary memory and the
  rest of AbstractX come in between any two steps.  An operation that masks interrupts while it
  changes a driver is one step; the submissions of the GPIO, UART, SPI and TWI drivers, which consist of
  several parts, are one step per part, and without a trap in between the steps compose to the operation of
  the driver (\<open>edge_await_is_run\<close>, \<open>spi_await_is_run\<close>, \<open>uart_write_is_run\<close>, \<open>twi_await_is_run\<close>).  The invariant of the system
  puts the drivers together: every driver state is valid, and every coroutine a driver has accepted
  is waiting in exactly one place or has been posted, exactly once.
\<close>

subsection \<open>The system\<close>

text \<open>The drivers and the progress of a TWI submission.\<close>

definition fw_waiting :: "starter \<times> firmware \<Rightarrow> handle multiset" where
  "fw_waiting pf = (case pf of (pc, f) \<Rightarrow>
     msgbox_waiting (fw_msgbox f) + gpio_waiting (fw_gpio f) + uart_waiting (fw_uart f) +
     spi_waiting (fw_spi f) + twi_waiting (pc, fw_twi f))"

definition firmware_inv :: "starter \<times> firmware \<Rightarrow> bool" where
  "firmware_inv pf \<longleftrightarrow> (case pf of (pc, f) \<Rightarrow>
     msgbox_inv (fw_msgbox f) \<and> gpio_inv (fw_gpio f) \<and> uart_inv (fw_uart f) \<and>
     spi_inv (fw_spi f) \<and> twi_ok (pc, fw_twi f) \<and> timer_inv (fw_timer f) \<and> trace_inv (fw_trace f))"

text \<open>What the running coroutine is in the middle of: the parts of \<^verbatim>\<open>await_suspend\<close> of the four drivers that do not
  mask interrupts throughout.  \<open>self\<close> is the address of the awaiter.\<close>

datatype activity = Idle | Starting_twi starter | Starting_spi u32 | Sending u32 | Sent | Arming u32

fun starter_of :: "activity \<Rightarrow> starter" where
  "starter_of (Starting_twi pc) = pc"
| "starter_of _ = At_rest"

text \<open>A trap is expected unless it is the interrupt of a TWI controller that shows its flag while no transfer is
  active on its bus.  The handler does not test for that case, and would resume the last coroutine of the bus again
  (\<open>twi_idle_interrupt_resumes_again\<close>); the controllers of \<open>Twi_Bus\<close>, in a loop with the driver, do not produce it
  (\<open>Twi_Schedule\<close>).\<close>

definition twi_flag_expected :: "('h, 'x) platform \<Rightarrow> firmware \<Rightarrow> u32 \<Rightarrow> ('h, 'x) env \<Rightarrow> bool" where
  "twi_flag_expected P f irq e \<longleftrightarrow>
     (irq = ClicIrq_code STwi0 \<longrightarrow> flag_shown P S_TWI0_BASE e \<longrightarrow> ts_active (state_for S_TWI0_BASE (fw_twi f))) \<and>
     (irq = ClicIrq_code STwi1 \<longrightarrow> flag_shown P S_TWI1_BASE e \<longrightarrow> ts_active (state_for S_TWI1_BASE (fw_twi f))) \<and>
     (irq = ClicIrq_code STwi2 \<longrightarrow> flag_shown P S_TWI2_BASE e \<longrightarrow> ts_active (state_for S_TWI2_BASE (fw_twi f)))"

definition expected_trap :: "('h, 'x) platform \<Rightarrow> firmware \<Rightarrow> ('h, 'x) env \<Rightarrow> bool" where
  "expected_trap P f e \<longleftrightarrow>
     (let (mcause, h) = csr_rd P Mcause (hw e)
      in mcause AND kInterruptBit \<noteq> 0 \<longrightarrow> twi_flag_expected P f (mcause AND kCauseMask) (e\<lparr>hw := h\<rparr>))"

text \<open>The last component lists the coroutines whose requests the drivers accepted: a request is accepted when
  fewer than eight wait in its queue.\<close>

type_synonym ('h, 'x) fw_system = "trap_outcome \<times> activity \<times> firmware \<times> ('h, 'x) env \<times> handle list"

abbreviation accepted :: "'r list \<Rightarrow> handle \<Rightarrow> handle list" where
  "accepted queue h \<equiv> (if length queue < 8 then [h] else [])"

inductive fw_step ::
    "('h, 'x) pin_callback \<Rightarrow> ('h, 'x) platform \<Rightarrow> ('x \<Rightarrow> handle list) \<Rightarrow> ('h, 'x) fw_system \<Rightarrow>
     ('h, 'x) fw_system \<Rightarrow> bool"
  for call :: "('h, 'x) pin_callback" and P :: "('h, 'x) platform" and log :: "'x \<Rightarrow> handle list" where
  trap: "expected_trap P f e \<Longrightarrow> riscv_trap_handler call P (f, e) = Some (out, f', e') \<Longrightarrow>
    fw_step call P log (Returned, act, f, e, acc) (out, act, f', e', acc)"
| await_doorbell: "h \<noteq> 0 \<Longrightarrow> AsyncDoorbellAwaiter_await_suspend P self h (fw_msgbox f) e = (m, e') \<Longrightarrow>
    fw_step call P log (Returned, Idle, f, e, acc)
      (Returned, Idle, f\<lparr>fw_msgbox := m\<rparr>, e', acc @ accepted (waiters (fw_msgbox f)) h)"
| await_edge: "h \<noteq> 0 \<Longrightarrow> e1 = store_u32 (self + 8) h e \<Longrightarrow>
    queue_pin_event_request P h (load_u32 self e1) (load_u32 (self + 4) e1) (fw_gpio f) e1 = (ok, g, e') \<Longrightarrow>
    fw_step call P log (Returned, Idle, f, e, acc)
      (Returned, Arming self, f\<lparr>fw_gpio := g\<rparr>, e', acc @ accepted (pin_waiters (fw_gpio f)) h)"
| arm_pin: "enable_pin_interrupt P (load_u32 self e) (load_u32 (self + 4) e) RISING_EDGE e = e' \<Longrightarrow>
    fw_step call P log (Returned, Arming self, f, e, acc) (Returned, Idle, f, e', acc)"
| await_read: "h \<noteq> 0 \<Longrightarrow> AsyncReadAwaiter_await_suspend P self h (fw_uart f) e = (u, e') \<Longrightarrow>
    fw_step call P log (Returned, Idle, f, e, acc)
      (Returned, Idle, f\<lparr>fw_uart := u\<rparr>, e', acc @ accepted (readers (fw_uart f)) h)"
| await_write: "h \<noteq> 0 \<Longrightarrow> e1 = store_u32 (self + 8) h e \<Longrightarrow>
    queue_write_request P h (load_span self e1) (fw_uart f) e1 = (ok, u, e') \<Longrightarrow>
    fw_step call P log (Returned, Idle, f, e, acc)
      (Returned, Sending self, f\<lparr>fw_uart := u\<rparr>, e', acc @ accepted (writers (fw_uart f)) h)"
| send: "send_bytes P (span_bytes (load_span self e) e) e = Some e' \<Longrightarrow>
    fw_step call P log (Returned, Sending self, f, e, acc) (Returned, Sent, f, e', acc)"
| sent: "handle_tx_dma_isr P (fw_uart f) e = (u, e') \<Longrightarrow>
    fw_step call P log (Returned, Sent, f, e, acc) (Returned, Idle, f\<lparr>fw_uart := u\<rparr>, e', acc)"
| await_spi: "h \<noteq> 0 \<Longrightarrow> e1 = store_u32 (self + 20) h e \<Longrightarrow> base = load_u32 self e1 \<Longrightarrow>
    queue_transfer_request P base h (load_span (self + 4) e1) (load_span (self + 12) e1) (fw_spi f) e1 = (ok, s, e') \<Longrightarrow>
    fw_step call P log (Returned, Idle, f, e, acc)
      (Returned, Starting_spi self, f\<lparr>fw_spi := s\<rparr>, e', acc @ accepted (q_list (queue_for base (fw_spi f))) h)"
| start_spi: "try_start_next_transfer P (load_u32 self e) (fw_spi f) e = (s, e') \<Longrightarrow>
    fw_step call P log (Returned, Starting_spi self, f, e, acc) (Returned, Idle, f\<lparr>fw_spi := s\<rparr>, e', acc)"
| await_twi: "h \<noteq> 0 \<Longrightarrow> r = (aw_request (aw :: TwiAwaiter))\<lparr>tw_handle := h, tw_result := self\<rparr> \<Longrightarrow>
    twi_queue_request P (aw_base aw) r (fw_twi f) e = (ok, w, e') \<Longrightarrow>
    fw_step call P log (Returned, Idle, f, e, acc)
      (Returned, Starting_twi (At_check (aw_base aw)), f\<lparr>fw_twi := w\<rparr>, e', acc @ (if ok then [h] else []))"
| twi_found_active: "ts_active (state_for b (fw_twi f)) \<Longrightarrow>
    fw_step call P log (Returned, Starting_twi (At_check b), f, e, acc) (Returned, Idle, f, e, acc)"
| twi_found_idle: "\<not> ts_active (state_for b (fw_twi f)) \<Longrightarrow>
    fw_step call P log (Returned, Starting_twi (At_check b), f, e, acc) (Returned, Starting_twi (At_pop b), f, e, acc)"
| twi_pop: "with_ax (pop (taccess P) TwiRequest_default (twi_queue_for b (fw_twi f))) e = ((ok, r, q), e') \<Longrightarrow>
    fw_step call P log (Returned, Starting_twi (At_pop b), f, e, acc)
      (Returned, if ok then Starting_twi (At_begin b r) else Idle, f\<lparr>fw_twi := set_twi_queue_for b q (fw_twi f)\<rparr>, e', acc)"
| twi_begin: "twi_begin P b r (fw_twi f) e = (w, e') \<Longrightarrow>
    fw_step call P log (Returned, Starting_twi (At_begin b r), f, e, acc) (Returned, Idle, f\<lparr>fw_twi := w\<rparr>, e', acc)"
| register: "register_pin_isr P port pin cb ctx trigger (fw_gpio f) e = (ok, g, e') \<Longrightarrow>
    fw_step call P log (Returned, Idle, f, e, acc) (Returned, Idle, f\<lparr>fw_gpio := g\<rparr>, e', acc)"
| unregister: "unregister_pin_isr P port pin (fw_gpio f) e = (g, e') \<Longrightarrow>
    fw_step call P log (Returned, Idle, f, e, acc) (Returned, Idle, f\<lparr>fw_gpio := g\<rparr>, e', acc)"
| boot: "initialize_from_linux_clock_configuration P tick (fw_timer f) e = Some (ok, t, e') \<Longrightarrow>
    fw_step call P log (Returned, Idle, f, e, acc) (Returned, Idle, f\<lparr>fw_timer := t\<rparr>, e', acc)"
| print: "Trace_puts P text (fw_trace f, e) = (t, e') \<Longrightarrow>
    fw_step call P log (Returned, Idle, f, e, acc) (Returned, Idle, f\<lparr>fw_trace := t\<rparr>, e', acc)"
| other_activity: "log x = log (ax e) \<Longrightarrow>
    fw_step call P log (out, act, f, e, acc) (out, act, f, \<lparr>hw = h, ax = x, ram = m\<rparr>, acc)"

subsection \<open>A driver as a part of the firmware\<close>

locale firmware_part =
  fixes get :: "starter \<times> firmware \<Rightarrow> 'd"
    and put :: "'d \<Rightarrow> starter \<times> firmware \<Rightarrow> starter \<times> firmware"
    and inv :: "'d \<Rightarrow> bool"
    and waiting :: "'d \<Rightarrow> handle multiset"
  assumes inv_get: "firmware_inv f \<Longrightarrow> inv (get f)"
    and inv_put: "firmware_inv f \<Longrightarrow> inv d \<Longrightarrow> firmware_inv (put d f)"
    and waiting_get: "waiting (get f) \<subseteq># fw_waiting f"
    and waiting_put: "fw_waiting (put d f) = fw_waiting f - waiting (get f) + waiting d"
begin

lemma nonnull_get: "0 \<notin># fw_waiting f \<Longrightarrow> 0 \<notin># waiting (get f)"
  using mset_subset_eqD [OF waiting_get] by blast

lemma lift_serves:
  assumes "firmware_inv f" and "inv d \<and> serves waiting log new (get f) e d e'"
  shows "firmware_inv (put d f) \<and> serves fw_waiting log new f e (put d f) e'"
proof -
  obtain ps where ps: "log (ax e') = log (ax e) @ ps" "mset ps + waiting d = waiting (get f) + mset new"
    using assms(2) by (auto simp: serves_def)
  obtain rest where rest: "fw_waiting f = waiting (get f) + rest"
    using waiting_get mset_subset_eq_exists_conv by metis
  have "mset ps + fw_waiting (put d f) = (mset ps + waiting d) + rest"
    by (simp add: waiting_put rest ac_simps)
  also have "\<dots> = fw_waiting f + mset new" by (simp add: ps(2) rest ac_simps)
  finally show ?thesis using assms inv_put ps(1) by (auto intro!: servesI [of _ _ _ ps])
qed

end

interpretation msgbox_part: firmware_part "\<lambda>(pc, f). fw_msgbox f" "\<lambda>m (pc, f). (pc, f\<lparr>fw_msgbox := m\<rparr>)" msgbox_inv msgbox_waiting
  by unfold_locales (auto simp: firmware_inv_def fw_waiting_def)

interpretation gpio_part: firmware_part "\<lambda>(pc, f). fw_gpio f" "\<lambda>g (pc, f). (pc, f\<lparr>fw_gpio := g\<rparr>)" gpio_inv gpio_waiting
  by unfold_locales (auto simp: firmware_inv_def fw_waiting_def)

interpretation uart_part: firmware_part "\<lambda>(pc, f). fw_uart f" "\<lambda>u (pc, f). (pc, f\<lparr>fw_uart := u\<rparr>)" uart_inv uart_waiting
  by unfold_locales (auto simp: firmware_inv_def fw_waiting_def)

interpretation spi_part: firmware_part "\<lambda>(pc, f). fw_spi f" "\<lambda>s (pc, f). (pc, f\<lparr>fw_spi := s\<rparr>)" spi_inv spi_waiting
  by unfold_locales (auto simp: firmware_inv_def fw_waiting_def)

interpretation timer_part: firmware_part "\<lambda>(pc, f). fw_timer f" "\<lambda>t (pc, f). (pc, f\<lparr>fw_timer := t\<rparr>)" timer_inv "\<lambda>_. {#}"
  by unfold_locales (auto simp: firmware_inv_def fw_waiting_def)

interpretation trace_part: firmware_part "\<lambda>(pc, f). fw_trace f" "\<lambda>t (pc, f). (pc, f\<lparr>fw_trace := t\<rparr>)" trace_inv "\<lambda>_. {#}"
  by unfold_locales (auto simp: firmware_inv_def fw_waiting_def)

interpretation twi_part: firmware_part "\<lambda>(pc, f). (pc, fw_twi f)" "\<lambda>(pc, w) (_, f). (pc, f\<lparr>fw_twi := w\<rparr>)" twi_ok twi_waiting
  by unfold_locales (auto simp: firmware_inv_def fw_waiting_def)

lemmas msgbox_lift = msgbox_part.lift_serves [where f = "(pc, f)" for pc f, unfolded prod.case]
lemmas gpio_lift = gpio_part.lift_serves [where f = "(pc, f)" for pc f, unfolded prod.case]
lemmas uart_lift = uart_part.lift_serves [where f = "(pc, f)" for pc f, unfolded prod.case]
lemmas spi_lift = spi_part.lift_serves [where f = "(pc, f)" for pc f, unfolded prod.case]
lemmas timer_lift = timer_part.lift_serves [where f = "(pc, f)" for pc f, unfolded prod.case]
lemmas trace_lift = trace_part.lift_serves [where f = "(pc, f)" for pc f, unfolded prod.case]
lemmas twi_lift = twi_part.lift_serves [where f = "(pc, f)" and d = "(pc', w)" for pc f pc' w, unfolded prod.case]

lemma parts_inv:
  assumes "firmware_inv (pc, f)"
  shows "msgbox_inv (fw_msgbox f)" and "gpio_inv (fw_gpio f)" and "uart_inv (fw_uart f)" and "spi_inv (fw_spi f)"
    and "twi_ok (pc, fw_twi f)" and "timer_inv (fw_timer f)" and "trace_inv (fw_trace f)"
  using assms by (simp_all add: firmware_inv_def)

lemma parts_nonnull:
  assumes "0 \<notin># fw_waiting (pc, f)"
  shows "0 \<notin># spi_waiting (fw_spi f)" and "0 \<notin># twi_waiting (pc, fw_twi f)"
  using spi_part.nonnull_get [OF assms] twi_part.nonnull_get [OF assms] by simp_all

subsection \<open>Steps keep the account\<close>

lemma read_words_ax: "ax (snd (read_words P a n e)) = ax e"
  by (induction n arbitrary: a e) (simp_all add: case_prod_beta Let_def)

lemma read_configuration_ax: "ax (snd (read_shared_configuration P e)) = ax e"
  by (simp add: read_shared_configuration_def case_prod_beta Let_def read_words_ax)

text \<open>The static initialisers.\<close>

lemma firmware_static_sound:
  "firmware_inv (At_rest, firmware_static)" "fw_waiting (At_rest, firmware_static) = {#}"
proof -
  have "gpio_inv gpio_static" "timer_inv HardwareTimer_static" "trace_inv trace_static" "twi_ok (At_rest, twi_static)"
    by (simp_all add: gpio_inv_def gpio_static_def timer_inv_def HardwareTimer_static_def CPU_FREQ_HZ_def memory_map
        trace_inv_def trace_static_def TRACE_BUFFER_SIZE_def twi_ok_def bus_ok_def twi_static_def twi_queue_for_def
        state_for_def TwiTransferState_default_def)
  then show "firmware_inv (At_rest, firmware_static)"
    by (simp add: firmware_inv_def firmware_static_def msgbox_inv_static uart_inv_static spi_inv_static)
  show "fw_waiting (At_rest, firmware_static) = {#}"
    by (simp add: fw_waiting_def firmware_static_def msgbox_waiting_def gpio_waiting_def uart_waiting_def
        spi_waiting_def twi_waiting_def twi_jobs_def popped_job_def gpio_static_def pin_waiters_def uart_static_def readers_def
        writers_def spi_static_def spi_jobs_def busy_for_def queue_for_def twi_static_def active_job_def
        twi_queue_for_def state_for_def TwiTransferState_default_def)
qed

text \<open>The interrupt service routine a claimed line leads to.\<close>

lemma routed_interrupt:
  assumes "dispatch_external call P irq (f, e) = Some (f', e')" and "irq \<in> claimed_irqs"
  obtains (gpio) port g where "handle_bank_isr call P port (fw_gpio f) e = (g, e')" "f' = f\<lparr>fw_gpio := g\<rparr>"
  | (msgbox) m where "MsgboxDriver_handle_isr P (fw_msgbox f) e = (m, e')" "f' = f\<lparr>fw_msgbox := m\<rparr>"
  | (uart) u where "UartDmaDriver_handle_isr P (fw_uart f) e = Some (u, e')" "f' = f\<lparr>fw_uart := u\<rparr>"
  | (twi) base w where "TwiDriver_handle_isr P base (fw_twi f) e = (w, e')" "f' = f\<lparr>fw_twi := w\<rparr>"
      "twi_flag_expected P f irq e \<Longrightarrow> flag_shown P base e \<longrightarrow> ts_active (state_for base (fw_twi f))"
  | (spi) base s where "complete_transfer_from_isr P base (fw_spi f) e = (s, e')" "f' = f\<lparr>fw_spi := s\<rparr>"
proof -
  note go = assms(1) [unfolded dispatch_external_def, simplified]
  from assms(2) consider "irq \<in> {ClicIrq_code GpioL_S, ClicIrq_code GpioL_NS}"
    | "irq \<in> {ClicIrq_code GpioM_S, ClicIrq_code GpioM_NS}"
    | "irq \<in> {ClicIrq_code RiscvMsgbox, ClicIrq_code CpusMsgboxRiscv}"
    | "irq \<in> {ClicIrq_code SUart0, ClicIrq_code SUart1}"
    | "irq = ClicIrq_code STwi0" | "irq = ClicIrq_code STwi1" | "irq = ClicIrq_code STwi2"
    | "irq = ClicIrq_code SSpi" | "irq = ClicIrq_code GicGroup48_55"
    unfolding claimed_irqs_def by blast
  then show thesis
  proof cases
    case 1
    then show thesis using go gpio by (auto split: prod.splits)
  next
    case 2
    then show thesis using go gpio by (auto split: prod.splits)
  next
    case 3
    then show thesis using go msgbox by (auto split: prod.splits)
  next
    case 4
    then show thesis using go uart by (auto simp: bind_eq_Some_conv)
  next
    case 5
    then show thesis using go twi [of S_TWI0_BASE] by (auto simp: twi_flag_expected_def split: prod.splits)
  next
    case 6
    then show thesis using go twi [of S_TWI1_BASE] by (auto simp: twi_flag_expected_def split: prod.splits)
  next
    case 7
    then show thesis using go twi [of S_TWI2_BASE] by (auto simp: twi_flag_expected_def split: prod.splits)
  next
    case 8
    then show thesis using go spi by (auto simp: handle_spi1_isr_def split: prod.splits)
  next
    case 9
    then show thesis using go spi by (auto simp: handle_spi0_isr_def split: prod.splits)
  qed
qed

text \<open>Beside the dispatcher, the firmware relies on the timer service: starting and advancing it posts none of the
  coroutines the drivers hold.\<close>

locale firmware_platform = dispatcher P log for P :: "('h, 'x) platform" and log :: "'x \<Rightarrow> handle list" +
  assumes log_tick: "log (timer_service_tick P n x) = log x"
    and log_init: "log (timer_service_init P x) = log x"
begin

lemma timer_isr_serves:
  "timer_inv t \<Longrightarrow> HardwareTimer_handle_isr P t e = Some (t', e') \<Longrightarrow>
    timer_inv t' \<and> serves (\<lambda>_. {#}) log [] t e t' e'"
  using timer_isr_effect [of P t e t' e'] by (auto simp: log_tick intro!: serves_idle)

lemma boot_serves:
  assumes "timer_inv t" and "initialize_from_linux_clock_configuration P tick t e = Some (ok, t', e')"
  shows "timer_inv t' \<and> serves (\<lambda>_. {#}) log [] t e t' e'"
proof -
  obtain c e1 where c: "read_shared_configuration P e = (c, e1)" by fastforce
  have ax1: "ax e1 = ax e" using read_configuration_ax [of P e] c by simp
  have "timer_inv t' \<and> log (ax e') = log (ax e)"
    using assms c ax1
    by (auto simp: initialize_from_linux_clock_configuration_def bind_eq_Some_conv Let_def log_init
        split: if_splits dest!: timer_init_effect)
  then show ?thesis by (auto intro!: serves_idle)
qed

lemma emit_keeps:
  "trace_inv (fst te) \<Longrightarrow> trace_inv (fst (emit P s te))"
  "trace_inv (fst te) \<Longrightarrow> log (ax (snd (emit P s te))) = log (ax (snd te))"
  using emit_log [of "fst te" s "snd te" "fst (emit P s te)" "snd (emit P s te)"] by simp_all

lemma puts_serves:
  assumes "trace_inv t" and "Trace_puts P s (t, e) = (t', e')"
  shows "trace_inv t' \<and> serves (\<lambda>_. {#}) log [] t e t' e'"
proof (cases s)
  case None
  then show ?thesis using assms by (auto intro!: serves_idle)
next
  case (Some string)
  then show ?thesis
    using emit_keeps [of "(t, e)" string] assms by (auto simp: puts_emits intro!: serves_idle)
qed

lemma put_dec_serves:
  assumes "trace_inv t" and "put_dec P label v (t, e) = (t', e')"
  shows "trace_inv t' \<and> serves (\<lambda>_. {#}) log [] t e t' e'"
  using emit_keeps [of "(t, e)" "label_text label @ dec_text v @ [CHR 0x0A]"] assms
  by (auto simp: put_dec_emits intro!: serves_idle)

lemma trace_crash_serves:
  assumes "trace_inv t" and "trace_crash P mcause mepc mtval (t, e) = (t', e')"
  shows "trace_inv t' \<and> serves (\<lambda>_. {#}) log [] t e t' e'"
proof -
  have "trace_inv (fst (trace_crash P mcause mepc mtval (t, e)))"
    "log (ax (snd (trace_crash P mcause mepc mtval (t, e)))) = log (ax e)"
    using assms(1)
    by (simp_all add: trace_crash_def puts_emits put_hex32_emits emit_keeps case_prod_beta Let_def
        read_csr_mstatus_def csr_read_def)
  then show ?thesis using assms(2) by (auto intro!: serves_idle)
qed

text \<open>Every interrupt line.\<close>

lemma dispatch_serves:
  assumes "callback_keeps_waiters log call" and "firmware_inv (pc, f)" and "0 \<notin># fw_waiting (pc, f)"
    and "twi_flag_expected P f irq e" and "dispatch_external call P irq (f, e) = Some (f', e')"
  shows "firmware_inv (pc, f') \<and> serves fw_waiting log [] (pc, f) e (pc, f') e'"
proof -
  note inv = parts_inv [OF assms(2)] and nonnull = parts_nonnull [OF assms(3)]
  note gpio = gpio_lift [OF assms(2) bank_isr_serves [OF assms(1) inv(2)]]
  note msgbox = msgbox_lift [OF assms(2) msgbox_isr_serves [OF inv(1)]]
  note uart = uart_lift [OF assms(2) uart_isr_serves [OF inv(3)]]
  note twi = twi_lift [OF assms(2) twi_isr_serves [OF inv(5) nonnull(2)]]
  note spi = spi_lift [OF assms(2) spi_isr_serves [OF inv(4) nonnull(1)]]
  note other = trace_lift [OF assms(2) put_dec_serves [OF inv(7)]]
  have disable: "log (ax (Clic_disable P irq e)) = log (ax e)"
    by (simp add: Clic_disable_def log_of_masked)
  show ?thesis
  proof (cases "irq \<in> claimed_irqs")
    case True
    then show ?thesis
      by (cases rule: routed_interrupt [OF assms(5)])
        (use assms(4) gpio msgbox uart twi spi in \<open>blast+\<close>)
  next
    case False
    obtain t e1 where d: "put_dec P (Some ''[riscv] unhandled CLIC irq '') irq (fw_trace f, Clic_disable P irq e) = (t, e1)"
      by fastforce
    then have "f' = f\<lparr>fw_trace := t\<rparr>" "e' = e1" using assms(5) dispatch_unclaimed [OF False, of call P f e] by auto
    then show ?thesis using other [OF d] disable by (simp add: serves_def)
  qed
qed

lemma trap_serves:
  assumes "callback_keeps_waiters log call" and "firmware_inv (pc, f)" and "0 \<notin># fw_waiting (pc, f)"
    and "expected_trap P f e" and "riscv_trap_handler call P (f, e) = Some (out, f', e')"
  shows "firmware_inv (pc, f') \<and> serves fw_waiting log [] (pc, f) e (pc, f') e'"
proof -
  obtain mcause h1 where c: "csr_rd P Mcause (hw e) = (mcause, h1)" by fastforce
  note timer = timer_lift [OF assms(2) timer_isr_serves [OF parts_inv(6) [OF assms(2)]]]
  note crash = trace_lift [OF assms(2) trace_crash_serves [OF parts_inv(7) [OF assms(2)]]]
  show ?thesis
  proof (cases "mcause AND kInterruptBit = 0")
    case True
    obtain mepc h2 where c2: "csr_rd P Mepc h1 = (mepc, h2)" by fastforce
    obtain mtval h3 where c3: "csr_rd P Mtval h2 = (mtval, h3)" by fastforce
    obtain t e4 where t: "trace_crash P mcause mepc mtval (fw_trace f, e\<lparr>hw := h3\<rparr>) = (t, e4)" by fastforce
    then have "f' = f\<lparr>fw_trace := t\<rparr>" "ax e' = ax e4"
      using assms(5) True c c2 c3
      by (auto simp: riscv_trap_handler_def read_csr_mcause_def read_csr_mepc_def read_csr_mtval_def csr_read_def Let_def)
    then show ?thesis using crash [OF t] by (simp add: serves_def)
  next
    case False
    let ?e1 = "e\<lparr>hw := h1\<rparr>" and ?irq = "mcause AND kCauseMask"
    have irq: "twi_flag_expected P f ?irq ?e1" using assms(4) c False by (simp add: expected_trap_def)
    have start: "serves fw_waiting log [] (pc, f) ?e1 (pc, f') e' \<Longrightarrow> serves fw_waiting log [] (pc, f) e (pc, f') e'"
      by (simp add: serves_def)
    show ?thesis
    proof (cases "?irq = kMachineTimerInterruptCause")
      case True
      then obtain t where "HardwareTimer_handle_isr P (fw_timer f) ?e1 = Some (t, e')" "f' = f\<lparr>fw_timer := t\<rparr>"
        using assms(5) False c
        by (auto simp: riscv_trap_handler_def read_csr_mcause_def csr_read_def Let_def bind_eq_Some_conv)
      then show ?thesis using timer start by blast
    next
      case other: False
      then have "dispatch_external call P ?irq (f, ?e1) = Some (f', e')"
        using assms(5) False c
        by (auto simp: riscv_trap_handler_def read_csr_mcause_def csr_read_def Let_def bind_eq_Some_conv)
      then show ?thesis using dispatch_serves [OF assms(1-3) irq] start by blast
    qed
  qed
qed

text \<open>The invariant of the system: what was accepted since the start is what was posted since the start and what
  is waiting.\<close>

text \<open>The steps of a TWI submission are steps of its schedule.\<close>

lemma twi_submission_serves:
  assumes "firmware_inv (pc, f)" and "0 \<notin># fw_waiting (pc, f)" and "0 \<notin> set (map (tw_handle \<circ> snd) new)"
    and "\<And>acc fin. twi_step P log (pc, fw_twi f, e, acc, fin) (pc', w, e', acc @ new, fin)"
  shows "firmware_inv (pc', f\<lparr>fw_twi := w\<rparr>) \<and>
    serves fw_waiting log (map (tw_handle \<circ> snd) new) (pc, f) e (pc', f\<lparr>fw_twi := w\<rparr>) e'"
  by (rule twi_lift [OF assms(1) twi_step_serves [OF parts_inv(5) [OF assms(1)] parts_nonnull(2) [OF assms(2)] assms(3,4)]])

lemma step_sound:
  assumes "callback_keeps_waiters log call" and "fw_step call P log (out, act, f, e, acc) (out', act', f', e', acc')"
    and "firmware_inv (starter_of act, f)" and "0 \<notin># fw_waiting (starter_of act, f)"
  shows "\<exists>new. acc' = acc @ new \<and> 0 \<notin> set new \<and> firmware_inv (starter_of act', f') \<and>
    serves fw_waiting log new (starter_of act, f) e (starter_of act', f') e'"
proof -
  note inv = parts_inv [OF assms(3)]
  note twi = twi_submission_serves [OF assms(3,4)]
  from assms(2) show ?thesis
  proof cases
    case trap
    then show ?thesis using trap_serves [OF assms(1,3,4)] by fastforce
  next
    case (await_doorbell h self m)
    then show ?thesis using msgbox_lift [OF assms(3) msgbox_submit_serves [OF inv(1)]] by fastforce
  next
    case (await_edge h e1 self ok g)
    then show ?thesis using gpio_lift [OF assms(3) gpio_queue_serves [OF inv(2)]] by fastforce
  next
    case (arm_pin self)
    then show ?thesis using assms(3) log_enable_pin by (fastforce intro: serves_idle)
  next
    case (await_read h self u)
    then show ?thesis using uart_lift [OF assms(3) uart_read_serves [OF inv(3)]] by fastforce
  next
    case (await_write h e1 self ok u)
    then show ?thesis using uart_lift [OF assms(3) uart_queue_write_serves [OF inv(3)]] by fastforce
  next
    case (send self)
    then show ?thesis using assms(3) send_bytes_ax by (fastforce intro: serves_idle)
  next
    case (sent u)
    then show ?thesis using uart_lift [OF assms(3) tx_dma_isr_serves [OF inv(3)]] by fastforce
  next
    case (await_spi h e1 self base ok s)
    then show ?thesis using spi_lift [OF assms(3) spi_queue_serves [OF inv(4)]] by fastforce
  next
    case (start_spi self s)
    then show ?thesis using spi_lift [OF assms(3) spi_start_serves [OF inv(4)]] by fastforce
  next
    case (await_twi h r self aw ok w)
    then show ?thesis
      using twi [of "if ok then [(aw_base aw, r)] else []" e "At_check (aw_base aw)" w e'] step_submit [of P] by fastforce
  next
    case (twi_found_active b)
    then show ?thesis using twi [of "[]" e At_rest "fw_twi f" e] step_found [of P log b "fw_twi f" e] by simp
  next
    case (twi_found_idle b)
    then show ?thesis using twi [of "[]" e "At_pop b" "fw_twi f" e] step_found [of P log b "fw_twi f" e] by simp
  next
    case (twi_pop b ok r q)
    then show ?thesis
      using twi [of "[]" e "if ok then At_begin b r else At_rest" "set_twi_queue_for b q (fw_twi f)" e']
        step_pop by fastforce
  next
    case (twi_begin b r w)
    then show ?thesis using twi [of "[]" e At_rest w e'] step_begin by fastforce
  next
    case (register port pin cb ctx trigger ok g)
    then show ?thesis using gpio_lift [OF assms(3) gpio_register_serves [OF inv(2)]] by fastforce
  next
    case (unregister port pin g)
    then show ?thesis using gpio_lift [OF assms(3) gpio_unregister_serves [OF inv(2)]] by fastforce
  next
    case (boot tick ok t)
    then show ?thesis using timer_lift [OF assms(3) boot_serves [OF inv(6)]] by fastforce
  next
    case (print string t)
    then show ?thesis using trace_lift [OF assms(3) puts_serves [OF inv(7)]] by fastforce
  next
    case (other_activity x h m)
    then show ?thesis using assms(3) by (auto intro: serves_idle)
  qed
qed

lemma reachable_sound:
  assumes "callback_keeps_waiters log call"
    and "(fw_step call P log)\<^sup>*\<^sup>* (Returned, Idle, firmware_static, e0, []) (out, act, f, e, acc)"
  shows "firmware_inv (starter_of act, f) \<and> 0 \<notin># fw_waiting (starter_of act, f) \<and>
    serves fw_waiting log acc (At_rest, firmware_static) e0 (starter_of act, f) e"
  using assms(2)
proof (induction "(out, act, f, e, acc)" arbitrary: out act f e acc rule: rtranclp_induct)
  case base
  then show ?case by (simp add: firmware_static_sound serves_idle)
next
  case (step s)
  obtain out1 act1 f1 e1 acc1 where s: "s = (out1, act1, f1, e1, acc1)" by (metis prod.exhaust)
  note IH = step.hyps(3) [OF s]
  obtain new where new: "acc = acc1 @ new" "0 \<notin> set new" "firmware_inv (starter_of act, f)"
    "serves fw_waiting log new (starter_of act1, f1) e1 (starter_of act, f) e"
    using step_sound [OF assms(1) step.hyps(2) [unfolded s]] IH by blast
  then show ?case using IH serves_nonnull [OF new(4)] serves_trans [OF _ new(4)] by blast
qed

end

interpretation sim_firmware: firmware_platform sim_platform posted
  by unfold_locales simp_all

subsection \<open>The steps compose to the operations\<close>

lemma two_steps: "R x y \<Longrightarrow> R y z \<Longrightarrow> R\<^sup>*\<^sup>* x z"
  by (blast intro: converse_rtranclp_into_rtranclp)

lemma edge_await_is_run:
  assumes "h \<noteq> 0" and "AsyncPinEventAwaiter_await_suspend P self h (fw_gpio f) e = (g, e')"
  shows "\<exists>new. (fw_step call P log)\<^sup>*\<^sup>* (Returned, Idle, f, e, acc) (Returned, Idle, f\<lparr>fw_gpio := g\<rparr>, e', acc @ new)"
proof -
  let ?e1 = "store_u32 (self + 8) h e"
  obtain ok g1 e2 where q: "queue_pin_event_request P h (load_u32 self ?e1) (load_u32 (self + 4) ?e1) (fw_gpio f) ?e1 = (ok, g1, e2)"
    by (metis prod.exhaust)
  then have "g = g1" "enable_pin_interrupt P (load_u32 self e2) (load_u32 (self + 4) e2) RISING_EDGE e2 = e'"
    using assms(2) by (auto simp: AsyncPinEventAwaiter_await_suspend_def Let_def)
  with fw_step.await_edge [OF assms(1) refl q, of call log acc] fw_step.arm_pin [of P self e2 e' call log "f\<lparr>fw_gpio := g1\<rparr>"]
  show ?thesis using two_steps [of "fw_step call P log"] by blast
qed

lemma spi_await_is_run:
  assumes "h \<noteq> 0" and "SpiTransferAwaiter_await_suspend P self h (fw_spi f) e = (s, e')"
  shows "\<exists>new. (fw_step call P log)\<^sup>*\<^sup>* (Returned, Idle, f, e, acc) (Returned, Idle, f\<lparr>fw_spi := s\<rparr>, e', acc @ new)"
proof -
  let ?e1 = "store_u32 (self + 20) h e"
  obtain ok s1 e2 where q: "queue_transfer_request P (load_u32 self ?e1) h (load_span (self + 4) ?e1)
      (load_span (self + 12) ?e1) (fw_spi f) ?e1 = (ok, s1, e2)"
    by (metis prod.exhaust)
  then have t: "try_start_next_transfer P (load_u32 self e2) s1 e2 = (s, e')"
    using assms(2) by (simp add: SpiTransferAwaiter_await_suspend_def Let_def)
  have "fw_step call P log (Returned, Starting_spi self, f\<lparr>fw_spi := s1\<rparr>, e2, acc')
      (Returned, Idle, f\<lparr>fw_spi := s\<rparr>, e', acc')" for acc'
    using fw_step.start_spi [of P self e2 "f\<lparr>fw_spi := s1\<rparr>" s e'] t by simp
  with fw_step.await_spi [OF assms(1) refl refl q, of call log acc]
  show ?thesis using two_steps [of "fw_step call P log"] by blast
qed

lemma uart_write_is_run:
  assumes "h \<noteq> 0" and "AsyncWriteAwaiter_await_suspend P self h (fw_uart f) e = Some (u, e')"
  shows "\<exists>new. (fw_step call P log)\<^sup>*\<^sup>* (Returned, Idle, f, e, acc) (Returned, Idle, f\<lparr>fw_uart := u\<rparr>, e', acc @ new)"
proof -
  let ?e1 = "store_u32 (self + 8) h e"
  obtain ok u1 e2 where q: "queue_write_request P h (load_span self ?e1) (fw_uart f) ?e1 = (ok, u1, e2)"
    by (metis prod.exhaust)
  then obtain e3 where s: "send_bytes P (span_bytes (load_span self e2) e2) e2 = Some e3"
    and t: "handle_tx_dma_isr P u1 e3 = (u, e')"
    using assms(2) by (auto simp: AsyncWriteAwaiter_await_suspend_def start_tx_dma_def Let_def bind_eq_Some_conv)
  have last: "fw_step call P log (Returned, Sent, f\<lparr>fw_uart := u1\<rparr>, e3, acc')
      (Returned, Idle, f\<lparr>fw_uart := u\<rparr>, e', acc')" for acc'
    using fw_step.sent [of P "f\<lparr>fw_uart := u1\<rparr>" e3 u e'] t by simp
  have "(fw_step call P log)\<^sup>*\<^sup>* (Returned, Sending self, f\<lparr>fw_uart := u1\<rparr>, e2, acc')
      (Returned, Idle, f\<lparr>fw_uart := u\<rparr>, e', acc')" for acc'
    using two_steps [of "fw_step call P log"] fw_step.send [OF s, of call log _ acc'] last by blast
  with fw_step.await_write [OF assms(1) refl q, of call log acc]
  show ?thesis by (blast intro: converse_rtranclp_into_rtranclp)
qed

lemma twi_start_is_run:
  assumes "twi_start_transfer P b (fw_twi f) e = (w, e')"
  shows "(fw_step call P log)\<^sup>*\<^sup>* (Returned, Starting_twi (At_check b), f, e, acc) (Returned, Idle, f\<lparr>fw_twi := w\<rparr>, e', acc)"
proof (cases "ts_active (state_for b (fw_twi f))")
  case True
  then have "f\<lparr>fw_twi := w\<rparr> = f" "e' = e" using assms by (simp_all add: twi_start_transfer_def)
  then show ?thesis using r_into_rtranclp [of "fw_step call P log", OF fw_step.twi_found_active [OF True]] by simp
next
  case False
  obtain ok r q e2 where p: "with_ax (pop (taccess P) TwiRequest_default (twi_queue_for b (fw_twi f))) e = ((ok, r, q), e2)"
    by (metis prod.exhaust)
  let ?f1 = "f\<lparr>fw_twi := set_twi_queue_for b q (fw_twi f)\<rparr>"
  note to_pop = two_steps [of "fw_step call P log", OF fw_step.twi_found_idle [OF False, of call P log e acc] fw_step.twi_pop [OF p, of call log acc]]
  show ?thesis
  proof (cases ok)
    case True
    then have "twi_begin P b r (fw_twi ?f1) e2 = (w, e')" using assms False p by (simp add: twi_start_transfer_def)
    from fw_step.twi_begin [OF this, of call log acc] to_pop True show ?thesis
      by (auto intro: rtranclp.rtrancl_into_rtrancl)
  next
    case no: False
    then have "w = set_twi_queue_for b q (fw_twi f)" "e' = e2" using assms False p by (simp_all add: twi_start_transfer_def)
    then show ?thesis using to_pop no by simp
  qed
qed

lemma twi_await_is_run:
  assumes "h \<noteq> 0" and "TwiAwaiter_await_suspend P self aw h (fw_twi f) e = (w, e')"
  shows "\<exists>new. (fw_step call P log)\<^sup>*\<^sup>* (Returned, Idle, f, e, acc) (Returned, Idle, f\<lparr>fw_twi := w\<rparr>, e', acc @ new)"
proof -
  obtain ok w1 e1 where q: "twi_queue_request P (aw_base aw) ((aw_request aw)\<lparr>tw_handle := h, tw_result := self\<rparr>)
      (fw_twi f) e = (ok, w1, e1)"
    by (metis prod.exhaust)
  then have "twi_start_transfer P (aw_base aw) (fw_twi (f\<lparr>fw_twi := w1\<rparr>)) e1 = (w, e')"
    using assms(2) by (simp add: TwiAwaiter_await_suspend_def Let_def)
  from twi_start_is_run [OF this, of call log] fw_step.await_twi [OF assms(1) refl q, of call log acc]
  have "(fw_step call P log)\<^sup>*\<^sup>* (Returned, Idle, f, e, acc)
      (Returned, Idle, f\<lparr>fw_twi := w1\<rparr>\<lparr>fw_twi := w\<rparr>, e', acc @ (if ok then [h] else []))"
    by (blast intro: converse_rtranclp_into_rtranclp)
  then show ?thesis by auto
qed

subsection \<open>A run\<close>

text \<open>A coroutine waits for a doorbell, Linux writes a message, the mailbox interrupts.\<close>

lemma no_callback_keeps_waiters: "callback_keeps_waiters log no_callback"
  by (auto simp: callback_keeps_waiters_def no_callback_def)

lemma example_run:
  obtains f e where
    "(fw_step no_callback sim_platform posted)\<^sup>*\<^sup>* (Returned, Idle, firmware_static, sim_env, []) (Returned, Idle, f, e, [0x100])"
    and "posted (ax e) = [0x100]"
proof -
  let ?step = "fw_step no_callback sim_platform posted"
  let ?h = "\<lparr>words = (\<lambda>_. 1), bytes = (\<lambda>_. 0), csrs = (\<lambda>_. 0x80000011)\<rparr>"
  obtain m e1 where s: "AsyncDoorbellAwaiter_await_suspend sim_platform 0x200 0x100 (fw_msgbox firmware_static) sim_env = (m, e1)"
    by fastforce
  let ?f = "firmware_static\<lparr>fw_msgbox := m\<rparr>" and ?e = "\<lparr>hw = ?h, ax = ax e1, ram = ram e1\<rparr>"
  have inv: "msgbox_inv m" and w: "map dr_handle (waiters m) = [0x100]" and l: "posted (ax e1) = []"
    using s queue_doorbell_request_spec(1,3) [OF msgbox_inv_static, of sim_platform "0x100" "0x200"
        "store_u32 (0x200 + 4) 0x100 sim_env"]
    by (auto simp: AsyncDoorbellAwaiter_await_suspend_def firmware_static_def queue_doorbell_request_def
        case_prod_beta Let_def sim_env_def sim_log.log_push [unfolded sim_platform_simps])
  obtain m2 e2 where i: "MsgboxDriver_handle_isr sim_platform m ?e = (m2, e2)" by fastforce
  have "accepted (waiters (fw_msgbox firmware_static)) (0x100 :: handle) = [0x100]"
    by (simp add: firmware_static_def)
  then have one: "?step (Returned, Idle, firmware_static, sim_env, []) (Returned, Idle, ?f, e1, [0x100])"
    using fw_step.await_doorbell [OF _ s, of no_callback posted "[]"] by simp
  have two: "?step (Returned, Idle, ?f, e1, [0x100]) (Returned, Idle, ?f, ?e, [0x100])"
    by (rule fw_step.other_activity) simp
  have "riscv_trap_handler no_callback sim_platform (?f, ?e) = Some (Returned, ?f\<lparr>fw_msgbox := m2\<rparr>, e2)"
    using i
    by (simp add: riscv_trap_handler_def read_csr_mcause_def csr_read_def kInterruptBit_def kCauseMask_def
        kMachineTimerInterruptCause_def dispatch_external_def Let_def)
  then have three: "?step (Returned, Idle, ?f, ?e, [0x100]) (Returned, Idle, ?f\<lparr>fw_msgbox := m2\<rparr>, e2, [0x100])"
    by (intro fw_step.trap) (simp_all add: expected_trap_def twi_flag_expected_def kCauseMask_def)
  have "posted (ax e2) = [0x100]"
    using i l w pop_doorbell_request_spec [OF inv, of DoorbellRequest_default]
    by (auto simp: MsgboxDriver_handle_isr_def mmio_read_def case_prod_beta Let_def split: if_splits)
  with one two three show thesis
    using that by (meson converse_rtranclp_into_rtranclp rtranclp.rtrancl_refl)
qed

subsection \<open>Properties\<close>

text \<open>C1. Every coroutine is resumed exactly once: in every run of the firmware from its static state, with traps
  between any two steps of the coroutines, over all drivers together, the coroutines posted to the dispatcher and the coroutines still waiting in
  a driver are, with multiplicity, exactly those whose requests were accepted; none is lost, resumed
  twice or resumed without having waited.  The runs are those in which a TWI controller shows its interrupt flag only
  while a transfer is active on its bus, a test the handler itself does not make (\<open>expected_trap\<close>), and in which the
  callbacks of pins leave the waiting coroutines alone (\<open>callback_keeps_waiters\<close>).\<close>

theorem coroutines_resumed_exactly_once:
  assumes "firmware_platform P log" and "callback_keeps_waiters log call"
    and "(fw_step call P log)\<^sup>*\<^sup>* (Returned, Idle, firmware_static, e0, []) (out, act, f, e, acc)"
  shows "\<exists>resumed. log (ax e) = log (ax e0) @ resumed \<and> mset resumed + fw_waiting (starter_of act, f) = mset acc"
  using firmware_platform.reachable_sound [OF assms]
  by (simp add: serves_def firmware_static_sound(2))

theorem coroutines_resumed_exactly_once_witness:
  "\<exists>f (e :: (sim_hw, sim_ax) env). posted (ax e) = [0x100] \<and> mset [0x100] + fw_waiting (At_rest, f) = mset [0x100]"
proof -
  obtain f e where run: "(fw_step no_callback sim_platform posted)\<^sup>*\<^sup>* (Returned, Idle, firmware_static, sim_env, [])
      (Returned, Idle, f, e, [0x100])" and p: "posted (ax e) = [0x100]"
    by (rule example_run)
  show ?thesis
    using coroutines_resumed_exactly_once [OF sim_firmware.firmware_platform_axioms no_callback_keeps_waiters run] p
    by (auto simp: sim_env_def)
qed

text \<open>C8. The state of the firmware stays well formed: in every reachable state the invariant of every
  driver holds, each request queue holds at most eight requests, the callback table keeps its
  length, the log offset stays inside the buffer, and the rates the timer divides by are not zero.\<close>

theorem firmware_state_well_formed:
  assumes "firmware_platform P log" and "callback_keeps_waiters log call"
    and "(fw_step call P log)\<^sup>*\<^sup>* (Returned, Idle, firmware_static, e0, []) (out, act, f, e, acc)"
  shows "firmware_inv (starter_of act, f) \<and>
    length (waiters (fw_msgbox f)) \<le> 8 \<and> length (pin_waiters (fw_gpio f)) \<le> 8 \<and>
    length (readers (fw_uart f)) \<le> 8 \<and> length (writers (fw_uart f)) \<le> 8 \<and>
    length (q_list (queue_for b (fw_spi f))) \<le> 8 \<and> length (q_list (twi_queue_for b (fw_twi f))) \<le> 8 \<and>
    length (handlers (fw_gpio f)) = MAX_PIN_HANDLERS \<and> tr_offset (fw_trace f) < TRACE_BUFFER_SIZE \<and>
    core_frequency_hz (fw_timer f) \<noteq> 0 \<and> timer_counter_hz (fw_timer f) \<noteq> 0"
proof -
  have inv: "firmware_inv (starter_of act, f)" using firmware_platform.reachable_sound [OF assms] by blast
  show ?thesis
    using inv spi_inv_bus [of "fw_spi f"]
    by (auto simp: firmware_inv_def msgbox_inv_def gpio_inv_def uart_inv_def bus_inv_def twi_ok_def bus_ok_def
        timer_inv_def trace_inv_def waiters_def pin_waiters_def readers_def writers_def
        simp del: length_q_list intro!: dq.bounded)
qed

theorem firmware_state_well_formed_witness:
  "\<exists>f (e :: (sim_hw, sim_ax) env). posted (ax e) = [0x100] \<and> firmware_inv (At_rest, f) \<and> length (waiters (fw_msgbox f)) \<le> 8"
proof -
  obtain f e where run: "(fw_step no_callback sim_platform posted)\<^sup>*\<^sup>* (Returned, Idle, firmware_static, sim_env, [])
      (Returned, Idle, f, e, [0x100])" and p: "posted (ax e) = [0x100]"
    by (rule example_run)
  show ?thesis
    using firmware_state_well_formed [OF sim_firmware.firmware_platform_axioms no_callback_keeps_waiters run] p
    by (intro exI [of _ f] exI [of _ e]) simp
qed

end
