(* ===== verification/Firmware_Order.thy ===== *)
theory Firmware_Order
  imports Firmware
begin

text \<open>
  The order of service in the whole firmware.  The drivers were studied alone, each over any run of its own
  steps with arbitrary activity in between (\<open>msgbox_step\<close>, \<open>uart_rx_step\<close>, \<open>spi_bus_step\<close>, \<open>twi_bus_step\<close>).  Here every run of the
  firmware is shown to be such a run of each of these drivers, so what holds of them alone holds of them
  together: no trap, submission or callback of another part disturbs the order of a queue.
\<close>

subsection \<open>A driver inside the firmware\<close>

text \<open>A part of the firmware behaves as a system of its own when every step of the firmware is a run of
  the steps of the part: \<open>view\<close> takes the part out of the firmware.\<close>

locale firmware_callbacks = firmware_platform P log for P :: "('h, 'x) platform" and log :: "'x \<Rightarrow> handle list" +
  fixes call :: "('h, 'x) pin_callback"
  assumes keeps: "callback_keeps_waiters log call"

locale firmware_view = firmware_callbacks P log call + fifo_server step inv jobs "\<lambda>s. log (ax (snd s))" handles_of
  for P :: "('h, 'x) platform" and log :: "'x \<Rightarrow> handle list" and call :: "('h, 'x) pin_callback"
    and step :: "'d \<times> ('h, 'x) env \<Rightarrow> 'ev \<Rightarrow> 'r list \<Rightarrow> 'r list \<Rightarrow> 'd \<times> ('h, 'x) env \<Rightarrow> bool"
    and inv :: "'d \<times> ('h, 'x) env \<Rightarrow> bool" and jobs :: "'d \<times> ('h, 'x) env \<Rightarrow> 'r list"
    and handles_of :: "'r \<Rightarrow> handle list" +
  fixes view :: "starter \<times> firmware \<Rightarrow> 'd"
  assumes step_view: "fw_step call P log (out, act, f, e, acc) (out', act', f', e', acc') \<Longrightarrow>
      firmware_inv (starter_of act, f) \<Longrightarrow> firmware_inv (starter_of act', f') \<Longrightarrow> log (ax e') = log (ax e) @ ps \<Longrightarrow>
      \<exists>evs a fin. served_run step (view (starter_of act, f), e) evs a fin (view (starter_of act', f'), e')"
    and static_view: "inv (view (At_rest, firmware_static), e) \<and> jobs (view (At_rest, firmware_static), e) = []"
begin

lemma run_view:
  assumes "(fw_step call P log)\<^sup>*\<^sup>* (Returned, Idle, firmware_static, e0, []) (out, act, f, e, acc)"
  shows "\<exists>evs a fin. served_run step (view (At_rest, firmware_static), e0) evs a fin (view (starter_of act, f), e)"
  using assms
proof (induction "(out, act, f, e, acc)" arbitrary: out act f e acc rule: rtranclp_induct)
  case base
  then show ?case using served_run.stop by fastforce
next
  case (step s)
  obtain out1 act1 f1 e1 acc1 where s: "s = (out1, act1, f1, e1, acc1)" by (metis prod.exhaust)
  note before = reachable_sound [OF keeps step.hyps(1) [unfolded s]]
  obtain new where "firmware_inv (starter_of act, f)" "serves fw_waiting log new (starter_of act1, f1) e1 (starter_of act, f) e"
    using step_sound [OF keeps step.hyps(2) [unfolded s]] before by blast
  then obtain evs a fin where "served_run step (view (starter_of act1, f1), e1) evs a fin (view (starter_of act, f), e)"
    using step_view [OF step.hyps(2) [unfolded s]] before by (auto simp: serves_def)
  moreover obtain evs0 a0 fin0 where
      "served_run step (view (At_rest, firmware_static), e0) evs0 a0 fin0 (view (starter_of act1, f1), e1)"
    using step.hyps(3) [OF s] by blast
  ultimately show ?case using served_append [of step] by blast
qed

lemma in_order:
  assumes "(fw_step call P log)\<^sup>*\<^sup>* (Returned, Idle, firmware_static, e0, []) (out, act, f, e, acc)"
  shows "\<exists>evs began ended ps. served_run step (view (At_rest, firmware_static), e0) evs began ended (view (starter_of act, f), e) \<and>
    began = ended @ jobs (view (starter_of act, f), e) \<and> log (ax e) = log (ax e0) @ ps \<and>
    subseq (concat (map handles_of ended)) ps"
proof -
  obtain evs began ended where
    run: "served_run step (view (At_rest, firmware_static), e0) evs began ended (view (starter_of act, f), e)"
    using run_view [OF assms] by blast
  then show ?thesis
    using run_order [OF run] run_posts [OF run] static_view by auto
qed

end

subsection \<open>Where a trap goes\<close>

text \<open>For the drivers with a queue: the handler of one of them is called, on an environment that differs in the hardware
  only, or none of them is.\<close>

lemma trap_routes:
  assumes "riscv_trap_handler call P (f, e) = Some (out, f', e')"
  obtains (msgbox) e1 m where "ax e1 = ax e" "MsgboxDriver_handle_isr P (fw_msgbox f) e1 = (m, e')" "f' = f\<lparr>fw_msgbox := m\<rparr>"
  | (uart) e1 u where "ax e1 = ax e" "UartDmaDriver_handle_isr P (fw_uart f) e1 = Some (u, e')" "f' = f\<lparr>fw_uart := u\<rparr>"
  | (spi) e1 b s where "ax e1 = ax e" "complete_transfer_from_isr P b (fw_spi f) e1 = (s, e')" "f' = f\<lparr>fw_spi := s\<rparr>"
  | (twi) e1 b w where "ax e1 = ax e" "TwiDriver_handle_isr P b (fw_twi f) e1 = (w, e')" "f' = f\<lparr>fw_twi := w\<rparr>"
      "expected_trap P f e \<Longrightarrow> flag_shown P b e1 \<longrightarrow> ts_active (state_for b (fw_twi f))"
  | (other) "fw_msgbox f' = fw_msgbox f" "fw_uart f' = fw_uart f" "fw_spi f' = fw_spi f" "fw_twi f' = fw_twi f"
proof -
  obtain mcause h1 where c: "csr_rd P Mcause (hw e) = (mcause, h1)" by fastforce
  let ?e1 = "e\<lparr>hw := h1\<rparr>" and ?irq = "mcause AND kCauseMask"
  have ax: "ax ?e1 = ax e" by simp
  note handler = assms [unfolded riscv_trap_handler_def read_csr_mcause_def csr_read_def Let_def]
  consider (fatal) "mcause AND kInterruptBit = 0"
    | (timer) "mcause AND kInterruptBit \<noteq> 0" "?irq = kMachineTimerInterruptCause"
    | (line) "mcause AND kInterruptBit \<noteq> 0" "?irq \<noteq> kMachineTimerInterruptCause"
    by blast
  then show thesis
  proof cases
    case fatal
    then show thesis using handler c other by (auto simp: case_prod_beta)
  next
    case timer
    then show thesis using handler c other by (auto simp: bind_eq_Some_conv)
  next
    case line
    then have d: "dispatch_external call P ?irq (f, ?e1) = Some (f', e')"
      using handler c by (auto simp: bind_eq_Some_conv)
    show thesis
    proof (cases "?irq \<in> claimed_irqs")
      case True
      show thesis
      proof (cases rule: routed_interrupt [OF d True])
        case (1 port g)
        then show thesis using other by simp
      next
        case (4 base w)
        have "twi_flag_expected P f ?irq ?e1" if "expected_trap P f e" using that c line by (simp add: expected_trap_def)
        with 4 show thesis using twi [OF ax, of base w] by blast
      qed (use msgbox [OF ax] uart [OF ax] spi [OF ax] in \<open>blast+\<close>)
    next
      case False
      then show thesis using d dispatch_unclaimed [OF False, of call P f ?e1] other by (auto split: prod.splits)
    qed
  qed
qed

subsection \<open>What a step does to one driver\<close>

lemma fw_step_msgbox:
  assumes "fw_step call P log (out, act, f, e, acc) (out', act', f', e', acc')"
  obtains (same) "fw_msgbox f' = fw_msgbox f"
  | (waits) self h where "AsyncDoorbellAwaiter_await_suspend P self h (fw_msgbox f) e = (fw_msgbox f', e')"
  | (isr) e1 where "ax e1 = ax e" "MsgboxDriver_handle_isr P (fw_msgbox f) e1 = (fw_msgbox f', e')"
  using assms
proof cases
  case trap
  from trap(5) show thesis by (cases rule: trap_routes) (use same isr in auto)
qed (use same waits in auto)

lemma fw_step_uart:
  assumes "fw_step call P log (out, act, f, e, acc) (out', act', f', e', acc')"
  obtains (same) "pending_read_requests (fw_uart f') = pending_read_requests (fw_uart f)"
  | (reads) self h where "AsyncReadAwaiter_await_suspend P self h (fw_uart f) e = (fw_uart f', e')"
  | (isr) e1 where "ax e1 = ax e" "UartDmaDriver_handle_isr P (fw_uart f) e1 = Some (fw_uart f', e')"
  using assms
proof cases
  case trap
  from trap(5) show thesis by (cases rule: trap_routes) (use same isr in auto)
next
  case (await_write h e1 self ok u)
  then show thesis using same by (auto simp: queue_write_request_def case_prod_beta Let_def)
next
  case (sent u)
  then show thesis
    using same by (auto simp: handle_tx_dma_isr_def pop_write_request_def case_prod_beta Let_def split: if_splits)
qed (use same reads in auto)

lemma fw_step_spi:
  assumes "fw_step call P log (out, act, f, e, acc) (out', act', f', e', acc')"
  obtains (same) "fw_spi f' = fw_spi f"
  | (submits) self h ok where "queue_transfer_request P (load_u32 self (store_u32 (self + 20) h e)) h
      (load_span (self + 4) (store_u32 (self + 20) h e)) (load_span (self + 12) (store_u32 (self + 20) h e))
      (fw_spi f) (store_u32 (self + 20) h e) = (ok, fw_spi f', e')"
  | (starts) b where "try_start_next_transfer P b (fw_spi f) e = (fw_spi f', e')"
  | (isr) e1 b where "ax e1 = ax e" "complete_transfer_from_isr P b (fw_spi f) e1 = (fw_spi f', e')"
  using assms
proof cases
  case trap
  from trap(5) show thesis by (cases rule: trap_routes) (use same isr in auto)
next
  case (await_spi h e1 self base ok s)
  then show thesis using submits by auto
next
  case (start_spi self s)
  then show thesis using starts by auto
qed (use same in auto)

lemma fw_step_twi:
  assumes "fw_step call P log (out, act, f, e, acc) (out', act', f', e', acc')"
  obtains (same) "starter_of act' = starter_of act" "fw_twi f' = fw_twi f"
  | (moves) e1 new fins where "ax e1 = ax e"
      "\<And>acc fin. twi_step P log (starter_of act, fw_twi f, e1, acc, fin) (starter_of act', fw_twi f', e', acc @ new, fin @ fins)"
  using assms
proof cases
  case trap
  from trap(5) show thesis
  proof (cases rule: trap_routes)
    case (twi e1 b w)
    let ?fins = "finished_by P b (fw_twi f) e1"
    show thesis
      using moves [of e1 "[]" ?fins] twi_step.interrupt [OF twi(4) [OF trap(4)] twi(2), of log] twi(1,3) trap by simp
  qed (use same trap in auto)
next
  case (await_twi h r self aw ok w)
  then show thesis
    using moves [of e "if ok then [(aw_base aw, r)] else []" "[]"] step_submit [of P "aw_base aw" r "fw_twi f" e ok w e' log]
    by simp
next
  case (twi_found_active b)
  then show thesis using moves [of e "[]" "[]"] step_found [of P log b "fw_twi f"] by simp
next
  case (twi_found_idle b)
  then show thesis using moves [of e "[]" "[]"] step_found [of P log b "fw_twi f"] by simp
next
  case (twi_pop b ok r q)
  then show thesis
    using moves [of e "[]" "[]"] step_pop [of P b "fw_twi f" e ok r q e' log] by (cases ok) simp_all
next
  case (twi_begin b r w)
  then show thesis using moves [of e "[]" "[]"] step_begin [of P b r "fw_twi f" e w e' log] by simp
qed (use same in auto)

subsection \<open>The drivers as parts\<close>

lemma static_jobs:
  "msgbox_inv (fw_msgbox firmware_static) \<and> waiters (fw_msgbox firmware_static) = []"
  "uart_inv (fw_uart firmware_static) \<and> readers (fw_uart firmware_static) = []"
  "spi_inv (fw_spi firmware_static) \<and> spi_jobs b (fw_spi firmware_static) = []"
  "twi_ok (At_rest, fw_twi firmware_static) \<and> twi_jobs b At_rest (fw_twi firmware_static) = []"
  using parts_inv [OF firmware_static_sound(1)]
  by (simp_all add: firmware_static_def uart_static_def readers_def spi_static_def spi_jobs_def busy_for_def
      queue_for_def twi_static_def twi_jobs_def popped_job_def active_job_def twi_queue_for_def state_for_def
      TwiTransferState_default_def)

lemma env_eq: "\<lparr>hw = hw e, ax = ax e, ram = ram e\<rparr> = e"
  by simp

sublocale firmware_callbacks \<subseteq> mailbox_view: firmware_view P log call "msgbox_step P log" "msgbox_inv \<circ> fst" "waiters \<circ> fst"
  "\<lambda>r. [dr_handle r]" "fw_msgbox \<circ> snd"
proof unfold_locales
  fix out out' act act' f f' acc acc' ps and e e' :: "('h, 'x) env"
  assume step: "fw_step call P log (out, act, f, e, acc) (out', act', f', e', acc')" and l: "log (ax e') = log (ax e) @ ps"
  let ?step = "msgbox_step P log"
  have other: "?step (m, e) Elsewhere [] [] (m, e1)" if "log (ax e1) = log (ax e) @ qs" for m e1 qs
    using msgbox_step.elsewhere [of log "ax e1" e qs P m "hw e1" "ram e1"] that by (simp add: env_eq)
  have "\<exists>evs a fin. served_run ?step (fw_msgbox f, e) evs a fin (fw_msgbox f', e')"
  proof (cases rule: fw_step_msgbox [OF step])
    case 1
    then show ?thesis using served_one [of ?step, OF other [OF l]] by auto
  next
    case (2 self h)
    then show ?thesis using served_one [of ?step, OF msgbox_step.wait_begins] by blast
  next
    case (3 e1)
    have "\<exists>ev fin. ?step (fw_msgbox f, e1) ev [] fin (fw_msgbox f', e')"
      using msgbox_step.message [OF _ 3(2)] msgbox_step.no_message [OF _ 3(2)] by blast
    moreover have "served_run ?step (fw_msgbox f, e) [Elsewhere] [] [] (fw_msgbox f, e1)"
      using served_one [of ?step, OF other [of e1 "[]"]] 3(1) by simp
    ultimately show ?thesis using served_append [of ?step] served_one [of ?step] by blast
  qed
  then show "\<exists>evs a fin. served_run ?step ((fw_msgbox \<circ> snd) (starter_of act, f), e) evs a fin
      ((fw_msgbox \<circ> snd) (starter_of act', f'), e')" by simp
qed (use static_jobs(1) in auto)

sublocale firmware_callbacks \<subseteq> receiver_view: firmware_view P log call "uart_rx_step P log" "uart_inv \<circ> fst" "readers \<circ> fst"
  "\<lambda>r. [rr_handle r]" "fw_uart \<circ> snd"
proof unfold_locales
  fix out out' act act' f f' acc acc' ps and e e' :: "('h, 'x) env"
  assume step: "fw_step call P log (out, act, f, e, acc) (out', act', f', e', acc')" and l: "log (ax e') = log (ax e) @ ps"
    and inv: "firmware_inv (starter_of act, f)" "firmware_inv (starter_of act', f')"
  let ?step = "uart_rx_step P log"
  have other: "?step (u, e) Uart_elsewhere [] [] (u', e1)"
    if "log (ax e1) = log (ax e) @ qs" "uart_inv u'" "pending_read_requests u' = pending_read_requests u" for u u' e1 qs
    using uart_rx_step.uart_elsewhere [of log "ax e1" e qs u' u P "hw e1" "ram e1"] that by (simp add: env_eq)
  note uart = parts_inv(3) [OF inv(1)] parts_inv(3) [OF inv(2)]
  have "\<exists>evs a fin. served_run ?step (fw_uart f, e) evs a fin (fw_uart f', e')"
  proof (cases rule: fw_step_uart [OF step])
    case 1
    then show ?thesis using served_one [of ?step, OF other [OF l uart(2)]] by blast
  next
    case (2 self h)
    then show ?thesis using served_one [of ?step, OF uart_rx_step.read_begins] by blast
  next
    case (3 e1)
    have "\<exists>ev fin. ?step (fw_uart f, e1) ev [] fin (fw_uart f', e')"
      using uart_rx_step.received [OF _ 3(2)] uart_rx_step.other_cause [OF _ 3(2)] by blast
    moreover have "served_run ?step (fw_uart f, e) [Uart_elsewhere] [] [] (fw_uart f, e1)"
      using served_one [of ?step, OF other [of e1 "[]"]] 3(1) uart(1) by simp
    ultimately show ?thesis using served_append [of ?step] served_one [of ?step] by blast
  qed
  then show "\<exists>evs a fin. served_run ?step ((fw_uart \<circ> snd) (starter_of act, f), e) evs a fin
      ((fw_uart \<circ> snd) (starter_of act', f'), e')" by simp
qed (use static_jobs(2) in auto)

sublocale firmware_callbacks \<subseteq> spi_view: firmware_view P log call "spi_bus_step P log b" "spi_inv \<circ> fst" "spi_jobs b \<circ> fst"
  spi_handles "fw_spi \<circ> snd" for b
proof unfold_locales
  fix out out' act act' f f' acc acc' ps and e e' :: "('h, 'x) env"
  assume step: "fw_step call P log (out, act, f, e, acc) (out', act', f', e', acc')" and l: "log (ax e') = log (ax e) @ ps"
  let ?step = "spi_bus_step P log b"
  have other: "?step (s, e) None [] [] (s, e1)" if "log (ax e1) = log (ax e) @ qs" for s e1 qs
    using spi_bus_step.elsewhere [of log "ax e1" e qs P b s "hw e1" "ram e1"] that by (simp add: env_eq)
  have drive: "\<exists>evs a fin. served_run ?step (s, e) evs a fin (s', e')"
    if "ax e1 = ax e" "spi_step P ev (s, e1) = (ac, fi, s', e')" for s s' e1 ev ac fi
  proof -
    have "served_run ?step (s, e) [None] [] [] (s, e1)"
      using served_one [of ?step, OF other [of e1 "[]"]] that(1) by simp
    with served_one [of ?step, OF spi_bus_step.driver [OF that(2)]] show ?thesis
      using served_append [of ?step] by blast
  qed
  have "\<exists>evs a fin. served_run ?step (fw_spi f, e) evs a fin (fw_spi f', e')"
  proof (cases rule: fw_step_spi [OF step])
    case 1
    then show ?thesis using served_one [of ?step, OF other [OF l]] by auto
  next
    case (2 self h ok)
    let ?e1 = "store_u32 (self + 20) h e"
    let ?r = "\<lparr>tr_spi_base = load_u32 self ?e1, tr_handle = h, tr_tx_data = load_span (self + 4) ?e1, tr_rx_data = load_span (self + 12) ?e1\<rparr>"
    show ?thesis using drive [of ?e1 "Submit ?r" "fw_spi f"] 2 by simp
  next
    case (3 c)
    then show ?thesis using drive [of e "Start c" "fw_spi f"] by simp
  next
    case (4 e1 c)
    then show ?thesis using drive [of e1 "Tc_interrupt c" "fw_spi f"] by simp
  qed
  then show "\<exists>evs a fin. served_run ?step ((fw_spi \<circ> snd) (starter_of act, f), e) evs a fin
      ((fw_spi \<circ> snd) (starter_of act', f'), e')" by simp
qed (use static_jobs(3) in auto)

sublocale firmware_callbacks \<subseteq> twi_view: firmware_view P log call "twi_bus_step P log b" "twi_ok \<circ> fst" "\<lambda>s. twi_jobs b (fst (fst s)) (snd (fst s))"
  resumed "\<lambda>(pc, f). (pc, fw_twi f)" for b
proof unfold_locales
  fix out out' act act' f f' acc acc' ps and e e' :: "('h, 'x) env"
  assume step: "fw_step call P log (out, act, f, e, acc) (out', act', f', e', acc')" and l: "log (ax e') = log (ax e) @ ps"
  let ?step = "twi_bus_step P log b"
  have other: "?step (pw, e) False [] [] (pw, e1)" if "log (ax e1) = log (ax e) @ qs" for pw e1 qs
    using twi_bus_step.twi_elsewhere [of log "ax e1" e qs P b pw "hw e1" "ram e1"] that by (simp add: env_eq)
  have "\<exists>evs a fin. served_run ?step ((starter_of act, fw_twi f), e) evs a fin ((starter_of act', fw_twi f'), e')"
  proof (cases rule: fw_step_twi [OF step])
    case 1
    then show ?thesis
      using served_one [of ?step, OF other [OF l, of "(starter_of act, fw_twi f)"]] by auto
  next
    case (2 e1 new fins)
    have "served_run ?step ((starter_of act, fw_twi f), e) [False] [] [] ((starter_of act, fw_twi f), e1)"
      using served_one [of ?step, OF other [of e1 "[]"]] 2(1) by simp
    with served_one [of ?step, OF twi_bus_step.twi_driver [OF 2(2)]]
    show ?thesis using served_append [of ?step] by blast
  qed
  then show "\<exists>evs a fin. served_run ?step (case (starter_of act, f) of (pc, f) \<Rightarrow> (pc, fw_twi f), e) evs a fin
      (case (starter_of act', f') of (pc, f) \<Rightarrow> (pc, fw_twi f), e')" by simp
qed (use static_jobs(4) in auto)

interpretation sim_callbacks: firmware_callbacks sim_platform posted no_callback
  by unfold_locales (rule no_callback_keeps_waiters)

context firmware_callbacks
begin

lemma queues_in_order:
  assumes "(fw_step call P log)\<^sup>*\<^sup>* (Returned, Idle, firmware_static, e0, []) (out, act, f, e, acc)"
  shows "\<exists>ps. log (ax e) = log (ax e0) @ ps \<and>
    (\<exists>evs began ended. served_run (msgbox_step P log) (msgbox_static, e0) evs began ended (fw_msgbox f, e) \<and>
      began = ended @ waiters (fw_msgbox f) \<and> subseq (map dr_handle ended) ps) \<and>
    (\<exists>evs began ended. served_run (uart_rx_step P log) (uart_static, e0) evs began ended (fw_uart f, e) \<and>
      began = ended @ readers (fw_uart f) \<and> subseq (map rr_handle ended) ps) \<and>
    (\<forall>b. \<exists>evs began ended. served_run (spi_bus_step P log b) (spi_static, e0) evs began ended (fw_spi f, e) \<and>
      began = ended @ spi_jobs b (fw_spi f) \<and> subseq (concat (map spi_handles ended)) ps) \<and>
    (\<forall>b. \<exists>evs began ended. served_run (twi_bus_step P log b) ((At_rest, twi_static), e0) evs began ended
        ((starter_of act, fw_twi f), e) \<and>
      began = ended @ twi_jobs b (starter_of act) (fw_twi f) \<and> subseq (concat (map resumed ended)) ps)"
proof -
  have static: "fw_msgbox firmware_static = msgbox_static" "fw_uart firmware_static = uart_static"
    "fw_spi firmware_static = spi_static" "fw_twi firmware_static = twi_static"
    by (simp_all add: firmware_static_def)
  show ?thesis
    using mailbox_view.in_order [OF assms] receiver_view.in_order [OF assms] spi_view.in_order [OF assms]
      twi_view.in_order [OF assms]
    by (auto simp: static concat_map_singleton) blast+
qed

end

subsection \<open>Properties\<close>

text \<open>C2. Every run of the firmware is a run of each of its drivers: for the mailbox, the UART receiver, each SPI bus and each
  TWI bus there is a run of that driver alone, with the rest of the firmware as its surroundings, that starts in its
  static state and ends in its part of the firmware state; the requests that driver accepted are those it has finished
  followed by those it still holds, in the order they were made, and the coroutines of the finished ones were posted to the
  dispatcher in that order.\<close>

theorem firmware_serves_queues_in_order:
  assumes "firmware_platform P log" and "callback_keeps_waiters log call"
    and "(fw_step call P log)\<^sup>*\<^sup>* (Returned, Idle, firmware_static, e0, []) (out, act, f, e, acc)"
  shows "\<exists>ps. log (ax e) = log (ax e0) @ ps \<and>
    (\<exists>evs began ended. served_run (msgbox_step P log) (msgbox_static, e0) evs began ended (fw_msgbox f, e) \<and>
      began = ended @ waiters (fw_msgbox f) \<and> subseq (map dr_handle ended) ps) \<and>
    (\<exists>evs began ended. served_run (uart_rx_step P log) (uart_static, e0) evs began ended (fw_uart f, e) \<and>
      began = ended @ readers (fw_uart f) \<and> subseq (map rr_handle ended) ps) \<and>
    (\<forall>b. \<exists>evs began ended. served_run (spi_bus_step P log b) (spi_static, e0) evs began ended (fw_spi f, e) \<and>
      began = ended @ spi_jobs b (fw_spi f) \<and> subseq (concat (map spi_handles ended)) ps) \<and>
    (\<forall>b. \<exists>evs began ended. served_run (twi_bus_step P log b) ((At_rest, twi_static), e0) evs began ended
        ((starter_of act, fw_twi f), e) \<and>
      began = ended @ twi_jobs b (starter_of act) (fw_twi f) \<and> subseq (concat (map resumed ended)) ps)"
  by (rule firmware_callbacks.queues_in_order [OF _ assms(3)])
    (use assms(1,2) in \<open>simp add: firmware_callbacks_def firmware_callbacks_axioms_def\<close>)

theorem firmware_serves_queues_in_order_witness:
  "\<exists>(f :: firmware) (e :: (sim_hw, sim_ax) env) evs began ended.
    served_run (msgbox_step sim_platform posted) (msgbox_static, sim_env) evs began ended (fw_msgbox f, e) \<and>
    began = ended @ waiters (fw_msgbox f) \<and> posted (ax e) = [0x100] \<and> subseq (map dr_handle ended) [0x100]"
proof -
  obtain f e where run: "(fw_step no_callback sim_platform posted)\<^sup>*\<^sup>* (Returned, Idle, firmware_static, sim_env, [])
      (Returned, Idle, f, e, [0x100])" and p: "posted (ax e) = [0x100]"
    by (rule example_run)
  from firmware_serves_queues_in_order [OF sim_firmware.firmware_platform_axioms no_callback_keeps_waiters run]
  obtain evs began ended ps where "served_run (msgbox_step sim_platform posted) (msgbox_static, sim_env) evs began ended (fw_msgbox f, e)"
    "began = ended @ waiters (fw_msgbox f)" "posted (ax e) = posted (ax sim_env) @ ps" "subseq (map dr_handle ended) ps"
    by blast
  moreover have "posted (ax sim_env) = []" by (simp add: sim_env_def)
  ultimately show ?thesis
    using p by (intro exI [of _ f] exI [of _ e] exI [of _ evs] exI [of _ began] exI [of _ ended]) simp
qed

end
