(* ===== verification/Startup.thy ===== *)
theory Startup
  imports Memory_Map
begin

text \<open>
  \<^verbatim>\<open>hal/src/startup.S\<close> with the section addresses of \<^verbatim>\<open>hal/src/riscv_memory_map.ld\<close>: the code that runs before
  \<open>main\<close> and the entry and exit of every trap, instruction by instruction.  The machine has the 32
  integer registers, byte memory and control registers; the functions the code calls are a
  parameter.  A word access to an address that is not a multiple of four faults, which the model shows
  as \<open>None\<close>, as it does a call that does not return.
\<close>

subsection \<open>The machine\<close>

datatype reg = Zero | Ra | Sp | Gp | Tp | T0 | T1 | T2 | S0 | S1 | A0 | A1 | A2 | A3 | A4 | A5 | A6 | A7
  | S2 | S3 | S4 | S5 | S6 | S7 | S8 | S9 | S10 | S11 | T3 | T4 | T5 | T6

text \<open>The instructions the file uses.  Branch distances count instructions; \<open>La\<close> and \<open>Call\<close> have the value of
  their symbol.  The return address a call leaves in \<open>ra\<close>, which no function preserves, belongs to what the
  function called does.\<close>

datatype instr =
    La reg u32
  | Li reg u32
  | Lw reg u32 reg
  | Sw reg u32 reg
  | Addi reg reg u32
  | Bgeu reg reg int
  | Beqz reg int
  | J int
  | Csrci nat u32
  | Csrsi nat u32
  | Csrw nat reg
  | Fence_i
  | Jalr reg
  | Call u32
  | Wfi
  | Mret

record cpu =
  gpr :: "reg \<Rightarrow> u32"
  memory :: "u32 \<Rightarrow> u8"
  csr_file :: "nat \<Rightarrow> u32"

text \<open>The next instruction, or the return to the interrupted program.\<close>

datatype progress = At nat | Resumed

type_synonym callee = "u32 \<Rightarrow> cpu \<Rightarrow> cpu option"

definition get_reg :: "reg \<Rightarrow> cpu \<Rightarrow> u32" where
  "get_reg r s = (if r = Zero then 0 else gpr s r)"

definition set_reg :: "reg \<Rightarrow> u32 \<Rightarrow> cpu \<Rightarrow> cpu" where
  "set_reg r v s = s\<lparr>gpr := (gpr s)(r := v)\<rparr>"

definition load_word :: "u32 \<Rightarrow> (u32 \<Rightarrow> u8) \<Rightarrow> u32" where
  "load_word a m = u32_of_bytes (m a) (m (a + 1)) (m (a + 2)) (m (a + 3))"

definition store_word :: "u32 \<Rightarrow> u32 \<Rightarrow> (u32 \<Rightarrow> u8) \<Rightarrow> (u32 \<Rightarrow> u8)" where
  "store_word a v m = store_bytes a (bytes_of_u32 v) m"

definition aligned :: "u32 \<Rightarrow> bool" where
  "aligned a \<longleftrightarrow> unat a mod 4 = 0"

definition branch :: "nat \<Rightarrow> int \<Rightarrow> progress" where
  "branch pc k = At (nat (int pc + k))"

definition exec :: "instr \<Rightarrow> callee \<Rightarrow> nat \<Rightarrow> cpu \<Rightarrow> (progress \<times> cpu) option" where
  "exec i callee pc s =
     (case i of
        La r v \<Rightarrow> Some (At (pc + 1), set_reg r v s)
      | Li r v \<Rightarrow> Some (At (pc + 1), set_reg r v s)
      | Lw r k b \<Rightarrow> (let a = get_reg b s + k in
          if aligned a then Some (At (pc + 1), set_reg r (load_word a (memory s)) s) else None)
      | Sw r k b \<Rightarrow> (let a = get_reg b s + k in
          if aligned a then Some (At (pc + 1), s\<lparr>memory := store_word a (get_reg r s) (memory s)\<rparr>) else None)
      | Addi r b k \<Rightarrow> Some (At (pc + 1), set_reg r (get_reg b s + k) s)
      | Bgeu a b k \<Rightarrow> Some (if get_reg a s \<ge> get_reg b s then branch pc k else At (pc + 1), s)
      | Beqz a k \<Rightarrow> Some (if get_reg a s = 0 then branch pc k else At (pc + 1), s)
      | J k \<Rightarrow> Some (branch pc k, s)
      | Csrci c v \<Rightarrow> Some (At (pc + 1), s\<lparr>csr_file := (csr_file s)(c := csr_file s c AND NOT v)\<rparr>)
      | Csrsi c v \<Rightarrow> Some (At (pc + 1), s\<lparr>csr_file := (csr_file s)(c := csr_file s c OR v)\<rparr>)
      | Csrw c r \<Rightarrow> Some (At (pc + 1), s\<lparr>csr_file := (csr_file s)(c := get_reg r s)\<rparr>)
      | Fence_i \<Rightarrow> Some (At (pc + 1), s)
      | Jalr r \<Rightarrow> map_option (Pair (At (pc + 1))) (callee (get_reg r s) s)
      | Call a \<Rightarrow> map_option (Pair (At (pc + 1))) (callee a s)
      | Wfi \<Rightarrow> Some (At (pc + 1), s)
      | Mret \<Rightarrow> Some (Resumed, s))"

definition step :: "instr list \<Rightarrow> callee \<Rightarrow> nat \<Rightarrow> cpu \<Rightarrow> (progress \<times> cpu) option" where
  "step code callee pc s = (if pc < length code then exec (code ! pc) callee pc s else None)"

fun run :: "nat \<Rightarrow> instr list \<Rightarrow> callee \<Rightarrow> progress \<times> cpu \<Rightarrow> (progress \<times> cpu) option" where
  "run 0 code callee ps = Some ps"
| "run (Suc n) code callee (Resumed, s) = Some (Resumed, s)"
| "run (Suc n) code callee (At pc, s) = Option.bind (step code callee pc s) (run n code callee)"

subsection \<open>The code\<close>

text \<open>The addresses the linker script defines.\<close>

record symbols =
  svectors :: u32
  evectors :: u32
  la_vectors :: u32
  stext :: u32
  etext :: u32
  la_text :: u32
  sdata :: u32
  edata :: u32
  la_data :: u32
  sbss :: u32
  ebss :: u32
  estack :: u32
  global_pointer :: u32
  start_vector :: u32
  libc_init_array :: u32
  main_entry :: u32
  trap_handler :: u32

definition MSTATUS :: nat where
  "MSTATUS = 0x300"

definition MTVEC :: nat where
  "MTVEC = 0x305"

definition relocation_loop :: "instr list" where
  "relocation_loop = [Bgeu A0 A1 6, Lw T0 0 A2, Sw T0 0 A0, Addi A0 A0 4, Addi A2 A2 4, J (-5)]"

definition relocate :: "u32 \<Rightarrow> u32 \<Rightarrow> u32 \<Rightarrow> instr list" where
  "relocate lo hi la = [La A0 lo, La A1 hi, La A2 la] @ relocation_loop"

definition clear_loop :: "instr list" where
  "clear_loop = [Bgeu A0 A1 4, Sw Zero 0 A0, Addi A0 A0 4, J (-3)]"

definition start_code :: "bool \<Rightarrow> symbols \<Rightarrow> instr list" where
  "start_code icache L =
     [Csrci MSTATUS 8, La Sp (estack L), La Gp (global_pointer L)]
     @ relocate (svectors L) (evectors L) (la_vectors L)
     @ relocate (stext L) (etext L) (la_text L)
     @ relocate (sdata L) (edata L) (la_data L)
     @ [La A0 (sbss L), La A1 (ebss L)] @ clear_loop
     @ [La T0 (start_vector L), Csrw MTVEC T0]
     @ (if icache then [Li T0 0x11, Csrw 0x7C2 T0, Csrsi 0x7C1 1] else [])
     @ [Fence_i, La T0 (libc_init_array L), Beqz T0 2, Jalr T0, Call (main_entry L), Wfi, J (-1)]"

text \<open>The registers a trap saves, each in the next word of the frame.\<close>

definition saved_regs :: "reg list" where
  "saved_regs = [Ra, T0, T1, T2, A0, A1, A2, A3, A4, A5, A6, A7, T3, T4, T5, T6]"

definition trap_entry :: "symbols \<Rightarrow> instr list" where
  "trap_entry L =
     [Addi Sp Sp (- 64),
      Sw Ra 0 Sp, Sw T0 4 Sp, Sw T1 8 Sp, Sw T2 12 Sp, Sw A0 16 Sp, Sw A1 20 Sp, Sw A2 24 Sp, Sw A3 28 Sp,
      Sw A4 32 Sp, Sw A5 36 Sp, Sw A6 40 Sp, Sw A7 44 Sp, Sw T3 48 Sp, Sw T4 52 Sp, Sw T5 56 Sp, Sw T6 60 Sp,
      Call (trap_handler L),
      Lw Ra 0 Sp, Lw T0 4 Sp, Lw T1 8 Sp, Lw T2 12 Sp, Lw A0 16 Sp, Lw A1 20 Sp, Lw A2 24 Sp, Lw A3 28 Sp,
      Lw A4 32 Sp, Lw A5 36 Sp, Lw A6 40 Sp, Lw A7 44 Sp, Lw T3 48 Sp, Lw T4 52 Sp, Lw T5 56 Sp, Lw T6 60 Sp,
      Addi Sp Sp 64,
      Mret]"

text \<open>The vector table, \<^verbatim>\<open>j _trap_entry\<close> in each of its sixteen entries, and the section it shares with the
  entry code.\<close>

definition vector_table :: "instr list" where
  "vector_table =
     [J 16, J 15, J 14, J 13, J 12, J 11, J 10, J 9, J 8, J 7, J 6, J 5, J 4, J 3, J 2, J 1]"

definition vectors_section :: "symbols \<Rightarrow> instr list" where
  "vectors_section L = vector_table @ trap_entry L"

subsection \<open>What the linker guarantees\<close>

definition section_in :: "u32 \<Rightarrow> u32 \<Rightarrow> nat \<Rightarrow> nat \<Rightarrow> bool" where
  "section_in lo hi origin limit \<longleftrightarrow>
     aligned lo \<and> origin \<le> unat lo \<and> lo \<le> hi \<and> unat hi \<le> limit"

text \<open>The memory regions of the script, each section in its region, the images one behind the other in the
  initialisation part of DRAM, the stack behind the cleared data, the vector table at the front of its section.\<close>

definition linked :: "symbols \<Rightarrow> bool" where
  "linked L \<longleftrightarrow>
     section_in (svectors L) (evectors L) 0 0x00010000 \<and>
     section_in (stext L) (etext L) 0x07140000 0x07180000 \<and>
     section_in (sdata L) (edata L) 0x00080000 (unat (sbss L)) \<and>
     section_in (sbss L) (ebss L) 0x00080000 (unat (estack L) - 4096) \<and>
     unat (estack L) mod 16 = 0 \<and> unat (estack L) \<le> 0x00090000 \<and>
     aligned (la_vectors L) \<and> aligned (la_text L) \<and> aligned (la_data L) \<and>
     0x48000000 \<le> unat (la_vectors L) \<and>
     unat (la_vectors L) + (unat (evectors L) - unat (svectors L)) \<le> unat (la_text L) \<and>
     unat (la_text L) + (unat (etext L) - unat (stext L)) \<le> unat (la_data L) \<and>
     unat (la_data L) + (unat (edata L) - unat (sdata L)) \<le> 0x48100000 \<and>
     start_vector L = svectors L"

definition word_count :: "u32 \<Rightarrow> u32 \<Rightarrow> nat" where
  "word_count lo hi = (unat hi - unat lo + 3) div 4"

fun copy_words :: "u32 \<Rightarrow> u32 \<Rightarrow> nat \<Rightarrow> (u32 \<Rightarrow> u8) \<Rightarrow> (u32 \<Rightarrow> u8)" where
  "copy_words d s 0 m = m"
| "copy_words d s (Suc n) m = copy_words (d + 4) (s + 4) n (store_word d (load_word s m) m)"

fun clear_words :: "u32 \<Rightarrow> nat \<Rightarrow> (u32 \<Rightarrow> u8) \<Rightarrow> (u32 \<Rightarrow> u8)" where
  "clear_words d 0 m = m"
| "clear_words d (Suc n) m = clear_words (d + 4) n (store_word d 0 m)"

text \<open>What a compiled function keeps of its caller: the registers the calling convention preserves and the caller's
  frame above the stack pointer.\<close>

definition keeps_convention :: "(cpu \<Rightarrow> cpu option) \<Rightarrow> bool" where
  "keeps_convention f \<longleftrightarrow>
     (\<forall>s s'. f s = Some s' \<longrightarrow>
        (\<forall>r. r \<notin> set saved_regs \<longrightarrow> gpr s' r = gpr s r) \<and>
        (\<forall>x. unat (x - gpr s Sp) < 64 \<longrightarrow> memory s' x = memory s x))"

fun store_words :: "u32 \<Rightarrow> u32 list \<Rightarrow> (u32 \<Rightarrow> u8) \<Rightarrow> (u32 \<Rightarrow> u8)" where
  "store_words a [] m = m"
| "store_words a (v # vs) m = store_words (a + 4) vs (store_word a v m)"

fun saves :: "u32 \<Rightarrow> reg list \<Rightarrow> instr list" where
  "saves k [] = []"
| "saves k (r # rs) = Sw r k Sp # saves (k + 4) rs"

fun loads :: "u32 \<Rightarrow> reg list \<Rightarrow> instr list" where
  "loads k [] = []"
| "loads k (r # rs) = Lw r k Sp # loads (k + 4) rs"

text \<open>A layout with sections whose ends are not multiples of four.\<close>

definition example_symbols :: symbols where
  "example_symbols =
     \<lparr>svectors = 0, evectors = 0xD8, la_vectors = 0x48000000, stext = 0x07140040, etext = 0x0714A3B2,
      la_text = 0x48000400, sdata = 0x00080000, edata = 0x00080121, la_data = 0x4800A774, sbss = 0x00080124,
      ebss = 0x00080F01, estack = 0x00081F10, global_pointer = 0x00080800, start_vector = 0,
      libc_init_array = 0x07140100, main_entry = 0x07140200, trap_handler = 0x07140300\<rparr>"

text \<open>The words a loop writes, and a section whose bytes are those of its image.\<close>

definition in_section :: "u32 \<Rightarrow> u32 \<Rightarrow> u32 \<Rightarrow> bool" where
  "in_section lo hi x \<longleftrightarrow> unat lo \<le> unat x \<and> unat x < unat lo + 4 * word_count lo hi"

definition section_copied :: "(u32 \<Rightarrow> u8) \<Rightarrow> (u32 \<Rightarrow> u8) \<Rightarrow> u32 \<Rightarrow> u32 \<Rightarrow> u32 \<Rightarrow> bool" where
  "section_copied m m' lo hi la \<longleftrightarrow> (\<forall>x. lo \<le> x \<and> x < hi \<longrightarrow> m' x = m (la + (x - lo)))"

definition reaches :: "instr list \<Rightarrow> callee \<Rightarrow> progress \<times> cpu \<Rightarrow> progress \<times> cpu \<Rightarrow> bool" where
  "reaches code callee ps ps' \<longleftrightarrow> (\<exists>n. run n code callee ps = Some ps')"

definition code_at :: "instr list \<Rightarrow> nat \<Rightarrow> instr list \<Rightarrow> bool" where
  "code_at code pc frag \<longleftrightarrow> take (length frag) (drop pc code) = frag"

subsection \<open>Memory\<close>

lemma unat_less_4_iff: "unat (y :: u32) < 4 \<longleftrightarrow> y = 0 \<or> y = 1 \<or> y = 2 \<or> y = 3"
proof -
  have "unat y < 4 \<longleftrightarrow> unat y = 0 \<or> unat y = 1 \<or> unat y = 2 \<or> unat y = 3" by arith
  then show ?thesis by (simp add: word_unat_eq_iff)
qed

lemma unat_diff_shift:
  assumes "4 * n + 4 \<le> 4294967296"
  shows "unat (x - (d + 4) :: u32) < 4 * n \<longleftrightarrow> 4 \<le> unat (x - d) \<and> unat (x - d) < 4 * n + 4"
proof -
  have e: "x - (d + 4) = (x - d) - 4" by simp
  show ?thesis
  proof (cases "4 \<le> unat (x - d)")
    case True
    then have "unat ((x - d) - 4) = unat (x - d) - 4" by (simp add: unat_sub word_le_nat_alt)
    then show ?thesis using True by (simp add: e) arith
  next
    case False
    then have "x - d = 0 \<or> x - d = 1 \<or> x - d = 2 \<or> x - d = 3" using unat_less_4_iff [of "x - d"] by simp
    then have "4294967292 \<le> unat ((x - d) - 4)" by (elim disjE) (simp_all add: unsigned_minus_1_eq_mask mask_eq_exp_minus_1)
    then show ?thesis using False assms by (simp add: e)
  qed
qed

lemma store_word_apply:
  "store_word d v m x = (if unat (x - d) < 4 then bytes_of_u32 v ! unat (x - d) else m x)"
proof (cases "unat (x - d) < 4")
  case True
  then obtain i where "x - d = i" "i = 0 \<or> i = 1 \<or> i = 2 \<or> i = 3" unfolding unat_less_4_iff by blast
  then have "x = d + i" "i = 0 \<or> i = 1 \<or> i = 2 \<or> i = 3" by (auto simp: algebra_simps)
  then show ?thesis by (auto simp: store_word_def bytes_of_u32_def add.assoc)
next
  case False
  then have "x \<noteq> d + i" if "i = 0 \<or> i = 1 \<or> i = 2 \<or> i = 3" for i using that by auto
  from this [of 0] this [of 1] this [of 2] this [of 3] False show ?thesis
    by (simp add: store_word_def bytes_of_u32_def add.assoc)
qed

lemma bytes_of_u32_of_bytes: "bytes_of_u32 (u32_of_bytes a b c d) = [a, b, c, d]"
proof -
  let ?v = "u32_of_bytes a b c d"
  have beyond: "\<not> bit (w :: u8) n" if "8 \<le> n" for w n using that bit_imp_le_length [of w n] by auto
  have "ucast ?v = a" by (rule bit_word_eqI) (simp add: u32_of_bytes_def bit_simps)
  moreover have "ucast (drop_bit 8 ?v) = b" by (rule bit_word_eqI) (simp add: u32_of_bytes_def bit_simps beyond)
  moreover have "ucast (drop_bit 16 ?v) = c" by (rule bit_word_eqI) (simp add: u32_of_bytes_def bit_simps beyond)
  moreover have "ucast (drop_bit 24 ?v) = d" by (rule bit_word_eqI) (simp add: u32_of_bytes_def bit_simps beyond)
  ultimately show ?thesis by (simp add: bytes_of_u32_def)
qed

lemma bytes_of_load_word: "i < 4 \<Longrightarrow> bytes_of_u32 (load_word s m) ! i = m (s + of_nat i)"
  by (auto simp: load_word_def bytes_of_u32_of_bytes nth_Cons' less_Suc_eq numeral_eq_Suc)

lemma aligned_next: "aligned a \<Longrightarrow> aligned (a + 4)"
  by (simp add: aligned_def unat_word_ariths mod_mod_cancel)


lemma copy_words_apply:
  assumes "4 * n \<le> 4294967296" and "\<And>y. unat (y - s) < 4 * n \<Longrightarrow> \<not> unat (y - d) < 4 * n"
  shows "copy_words d s n m x = (if unat (x - d) < 4 * n then m (s + (x - d)) else m x)"
  using assms
proof (induction n arbitrary: d s m)
  case 0
  then show ?case by simp
next
  case (Suc n)
  let ?m = "store_word d (load_word s m) m"
  have n: "4 * n \<le> 4294967296" "4 * n + 4 \<le> 4294967296" using Suc.prems(1) by simp_all
  note shift = unat_diff_shift [OF n(2)]
  have m: "?m y = (if unat (y - d) < 4 then m (s + (y - d)) else m y)" for y
    by (simp add: store_word_apply bytes_of_load_word)
  have "\<not> unat (y - (d + 4)) < 4 * n" if "unat (y - (s + 4)) < 4 * n" for y
    using Suc.prems(2) [of y] that by (simp add: shift)
  then have IH: "copy_words (d + 4) (s + 4) n ?m x =
      (if unat (x - (d + 4)) < 4 * n then ?m (s + 4 + (x - (d + 4))) else ?m x)"
    using Suc.IH [OF n(1)] by blast
  have "s + 4 + (x - (d + 4)) = s + (x - d)" by simp
  moreover have "unat (x - d) < 4 * n + 4 \<Longrightarrow> \<not> unat (s + (x - d) - d) < 4"
    using Suc.prems(2) [of "s + (x - d)"] by simp
  ultimately show ?case using IH by (auto simp: shift m simp del: add_diff_eq diff_diff_eq)
qed

lemma clear_words_apply:
  assumes "4 * n \<le> 4294967296"
  shows "clear_words d n m x = (if unat (x - d) < 4 * n then 0 else m x)"
  using assms
proof (induction n arbitrary: d m)
  case 0
  then show ?case by simp
next
  case (Suc n)
  have n: "4 * n \<le> 4294967296" "4 * n + 4 \<le> 4294967296" using Suc.prems(1) by simp_all
  have "store_word d 0 m x = (if unat (x - d) < 4 then 0 else m x)"
    by (auto simp: store_word_apply bytes_of_u32_def unat_less_4_iff)
  then show ?case using Suc.IH [OF n(1), of "d + 4" "store_word d 0 m"] by (auto simp: unat_diff_shift [OF n(2)])
qed

subsection \<open>Execution\<close>

lemma run_add: "run (m + n) code callee ps = Option.bind (run m code callee ps) (run n code callee)"
proof (induction m arbitrary: ps)
  case 0
  then show ?case by simp
next
  case (Suc m)
  have idle: "run k code callee (Resumed, s) = Some (Resumed, s)" for k s by (cases k) simp_all
  obtain p s where ps: "ps = (p, s)" by fastforce
  show ?case
  proof (cases p)
    case (At pc)
    then show ?thesis using Suc by (cases "step code callee pc s") (simp_all add: ps)
  qed (simp add: ps idle)
qed

lemma reaches_refl: "reaches code callee ps ps"
  unfolding reaches_def by (intro exI [of _ 0]) simp

lemma reaches_trans: "reaches code callee a b \<Longrightarrow> reaches code callee b c \<Longrightarrow> reaches code callee a c"
  unfolding reaches_def by (metis run_add bind.bind_lunit)

lemma reaches_step:
  assumes "step code callee pc s = Some ps" and "reaches code callee ps ps'"
  shows "reaches code callee (At pc, s) ps'"
proof -
  have "run 1 code callee (At pc, s) = Some ps" using assms(1) by simp
  then show ?thesis using assms(2) reaches_trans unfolding reaches_def by blast
qed

lemma code_at_nth:
  assumes "code_at code pc frag" and "i < length frag"
  shows "pc + i < length code" and "code ! (pc + i) = frag ! i"
proof -
  have "length (take (length frag) (drop pc code)) = length frag" using assms(1) by (simp add: code_at_def)
  then show "pc + i < length code" using assms(2) by simp
  then have "take (length frag) (drop pc code) ! i = code ! (pc + i)" using assms(2) by simp
  then show "code ! (pc + i) = frag ! i" using assms(1) by (simp add: code_at_def)
qed

lemma step_at:
  "code_at code pc frag \<Longrightarrow> i < length frag \<Longrightarrow> step code callee (pc + i) s = exec (frag ! i) callee (pc + i) s"
  by (simp add: step_def code_at_nth)

lemma run_numeral:
  "run (numeral k) code callee (At pc, s) = Option.bind (step code callee pc s) (run (pred_numeral k) code callee)"
  by (simp add: numeral_eq_Suc)

lemma relocation_loop_body:
  assumes "code_at code pc relocation_loop" and "gpr s A0 < gpr s A1" and "aligned (gpr s A0)" and "aligned (gpr s A2)"
    and "v = load_word (gpr s A2) (memory s)"
    and "s' = s\<lparr>memory := store_word (gpr s A0) v (memory s),
      gpr := (gpr s)(T0 := v, A0 := gpr s A0 + 4, A2 := gpr s A2 + 4)\<rparr>"
  shows "run 6 code callee (At pc, s) = Some (At pc, s')"
proof -
  note at = step_at [OF assms(1)]
  have code: "step code callee pc s = exec (Bgeu A0 A1 6) callee pc s"
    "step code callee (Suc pc) s = exec (Lw T0 0 A2) callee (Suc pc) s"
    "step code callee (Suc (Suc pc)) s = exec (Sw T0 0 A0) callee (Suc (Suc pc)) s"
    "step code callee (Suc (Suc (Suc pc))) s = exec (Addi A0 A0 4) callee (Suc (Suc (Suc pc))) s"
    "step code callee (Suc (Suc (Suc (Suc pc)))) s = exec (Addi A2 A2 4) callee (Suc (Suc (Suc (Suc pc)))) s"
    "step code callee (Suc (Suc (Suc (Suc (Suc pc))))) s = exec (J (-5)) callee (Suc (Suc (Suc (Suc (Suc pc))))) s" for s
    using at [of 0] at [of 1] at [of 2] at [of 3] at [of 4] at [of 5] by (simp_all add: relocation_loop_def numeral_eq_Suc)
  have "\<not> gpr s A1 \<le> gpr s A0" using assms(2) by simp
  then show ?thesis
    using assms(3-6)
    by (simp add: run_numeral code exec_def get_reg_def set_reg_def branch_def)
qed


lemma relocation_loop_exit:
  assumes "code_at code pc relocation_loop" and "gpr s A1 \<le> gpr s A0"
  shows "run 1 code callee (At pc, s) = Some (At (pc + 6), s)"
  using step_at [OF assms(1), of 0 callee s] assms(2)
  by (simp add: relocation_loop_def exec_def get_reg_def branch_def nat_add_distrib)

lemma word_count_Suc:
  assumes "word_count lo hi = Suc n" and "unat hi \<le> 4294967292"
  shows "lo < hi" and "n = word_count (lo + 4) hi"
proof -
  show lt: "lo < hi" using assms(1) by (auto simp: word_count_def word_less_nat_alt)
  then have "unat lo < unat hi" by (simp add: word_less_nat_alt)
  then have "unat (lo + 4) = unat lo + 4" using assms(2) by (subst unat_add_no_wrap) simp_all
  then show "n = word_count (lo + 4) hi" using assms(1) by (simp add: word_count_def)
qed

text \<open>The loop ends, has copied the words, and changes no other register.\<close>

lemma relocation_loop_reaches:
  assumes "code_at code pc relocation_loop" and "aligned (gpr s A0)" and "aligned (gpr s A2)"
    and "n = word_count (gpr s A0) (gpr s A1)" and "unat (gpr s A1) \<le> 4294967292"
  obtains s' where "reaches code callee (At pc, s) (At (pc + 6), s')"
    and "memory s' = copy_words (gpr s A0) (gpr s A2) n (memory s)" and "csr_file s' = csr_file s"
    and "\<And>r. r \<notin> {T0, A0, A2} \<Longrightarrow> gpr s' r = gpr s r"
  using assms(2-)
proof (induction n arbitrary: s thesis)
  case 0
  then have "gpr s A1 \<le> gpr s A0" by (auto simp: word_count_def word_le_nat_alt)
  from relocation_loop_exit [OF assms(1) this] have "reaches code callee (At pc, s) (At (pc + 6), s)"
    unfolding reaches_def by blast
  then show ?case by (rule 0) simp_all
next
  case (Suc n)
  define v where "v = load_word (gpr s A2) (memory s)"
  define t where "t = s\<lparr>memory := store_word (gpr s A0) v (memory s),
      gpr := (gpr s)(T0 := v, A0 := gpr s A0 + 4, A2 := gpr s A2 + 4)\<rparr>"
  note next_word = word_count_Suc [OF Suc.prems(4) [symmetric] Suc.prems(5)]
  then obtain s' where s': "reaches code callee (At pc, t) (At (pc + 6), s')"
    "memory s' = copy_words (gpr t A0) (gpr t A2) n (memory t)" "csr_file s' = csr_file t"
    "\<And>r. r \<notin> {T0, A0, A2} \<Longrightarrow> gpr s' r = gpr t r"
    using Suc.IH [of t] Suc.prems(2,3,5) by (auto simp: t_def aligned_next)
  have "reaches code callee (At pc, s) (At pc, t)"
    using relocation_loop_body [OF assms(1) next_word(1) Suc.prems(2,3) v_def t_def] unfolding reaches_def by blast
  from reaches_trans [OF this s'(1)] s'(2-4) show ?case
    by (intro Suc.prems(1) [of s']) (simp_all add: t_def v_def)
qed


lemma clear_loop_body:
  assumes "code_at code pc clear_loop" and "gpr s A0 < gpr s A1" and "aligned (gpr s A0)"
    and "s' = s\<lparr>memory := store_word (gpr s A0) 0 (memory s), gpr := (gpr s)(A0 := gpr s A0 + 4)\<rparr>"
  shows "run 4 code callee (At pc, s) = Some (At pc, s')"
proof -
  note at = step_at [OF assms(1)]
  have code: "step code callee pc s = exec (Bgeu A0 A1 4) callee pc s"
    "step code callee (Suc pc) s = exec (Sw Zero 0 A0) callee (Suc pc) s"
    "step code callee (Suc (Suc pc)) s = exec (Addi A0 A0 4) callee (Suc (Suc pc)) s"
    "step code callee (Suc (Suc (Suc pc))) s = exec (J (-3)) callee (Suc (Suc (Suc pc))) s" for s
    using at [of 0] at [of 1] at [of 2] at [of 3] by (simp_all add: clear_loop_def numeral_eq_Suc)
  have "\<not> gpr s A1 \<le> gpr s A0" using assms(2) by simp
  then show ?thesis
    using assms(3,4)
    by (simp add: run_numeral code exec_def get_reg_def set_reg_def branch_def)
qed

lemma clear_loop_exit:
  assumes "code_at code pc clear_loop" and "gpr s A1 \<le> gpr s A0"
  shows "run 1 code callee (At pc, s) = Some (At (pc + 4), s)"
  using step_at [OF assms(1), of 0 callee s] assms(2)
  by (simp add: clear_loop_def exec_def get_reg_def branch_def nat_add_distrib)

lemma clear_loop_reaches:
  assumes "code_at code pc clear_loop" and "aligned (gpr s A0)"
    and "n = word_count (gpr s A0) (gpr s A1)" and "unat (gpr s A1) \<le> 4294967292"
  obtains s' where "reaches code callee (At pc, s) (At (pc + 4), s')"
    and "memory s' = clear_words (gpr s A0) n (memory s)" and "csr_file s' = csr_file s"
    and "\<And>r. r \<noteq> A0 \<Longrightarrow> gpr s' r = gpr s r"
  using assms(2-)
proof (induction n arbitrary: s thesis)
  case 0
  then have "gpr s A1 \<le> gpr s A0" by (auto simp: word_count_def word_le_nat_alt)
  from clear_loop_exit [OF assms(1) this] have "reaches code callee (At pc, s) (At (pc + 4), s)"
    unfolding reaches_def by blast
  then show ?case by (rule 0) simp_all
next
  case (Suc n)
  define t where "t = s\<lparr>memory := store_word (gpr s A0) 0 (memory s), gpr := (gpr s)(A0 := gpr s A0 + 4)\<rparr>"
  note next_word = word_count_Suc [OF Suc.prems(3) [symmetric] Suc.prems(4)]
  then obtain s' where s': "reaches code callee (At pc, t) (At (pc + 4), s')"
    "memory s' = clear_words (gpr t A0) n (memory t)" "csr_file s' = csr_file t"
    "\<And>r. r \<noteq> A0 \<Longrightarrow> gpr s' r = gpr t r"
    using Suc.IH [of t] Suc.prems(2,4) by (auto simp: t_def aligned_next)
  have "reaches code callee (At pc, s) (At pc, t)"
    using clear_loop_body [OF assms(1) next_word(1) Suc.prems(2) t_def] unfolding reaches_def by blast
  from reaches_trans [OF this s'(1)] s'(2-4) show ?case
    by (intro Suc.prems(1) [of s']) (simp_all add: t_def)
qed


lemma code_at_append:
  assumes "code_at code pc (xs @ ys)"
  shows "code_at code pc xs" and "code_at code (pc + length xs) ys"
proof -
  have *: "take (length xs + length ys) (drop pc code) = xs @ ys" using assms by (simp add: code_at_def)
  then have "take (length xs) (take (length xs + length ys) (drop pc code)) = xs"
    "drop (length xs) (take (length xs + length ys) (drop pc code)) = ys" by simp_all
  then show "code_at code pc xs" "code_at code (pc + length xs) ys"
    by (simp_all add: code_at_def drop_take add.commute)
qed

lemma load_regs:
  assumes "code_at code pc (map (\<lambda>(r, v). La r v) rvs)"
  shows "reaches code callee (At pc, s) (At (pc + length rvs), fold (\<lambda>(r, v). set_reg r v) rvs s)"
  using assms
proof (induction rvs arbitrary: pc s)
  case Nil
  then show ?case by (simp add: reaches_refl)
next
  case (Cons rv rvs)
  obtain r v where rv: "rv = (r, v)" by fastforce
  note at = code_at_append [of code pc "[La r v]" "map (\<lambda>(r, v). La r v) rvs"]
  have "step code callee pc s = Some (At (pc + 1), set_reg r v s)"
    using step_at [OF at(1), of 0] Cons.prems rv by (simp add: exec_def)
  moreover have "reaches code callee (At (pc + 1), set_reg r v s)
      (At (pc + 1 + length rvs), fold (\<lambda>(r, v). set_reg r v) rvs (set_reg r v s))"
    using Cons.IH [of "pc + 1" "set_reg r v s"] at(2) Cons.prems rv by simp
  ultimately show ?case using reaches_step rv by simp
qed

lemma relocate_reaches:
  assumes "code_at code pc (relocate lo hi la)" and "aligned lo" and "aligned la" and "unat hi \<le> 4294967292"
  obtains s' where "reaches code callee (At pc, s) (At (pc + 9), s')"
    and "memory s' = copy_words lo la (word_count lo hi) (memory s)" and "csr_file s' = csr_file s"
    and "\<And>r. r \<notin> {T0, A0, A1, A2} \<Longrightarrow> gpr s' r = gpr s r"
proof -
  let ?rvs = "[(A0, lo), (A1, hi), (A2, la)]"
  let ?s = "fold (\<lambda>(r, v). set_reg r v) ?rvs s"
  have at: "code_at code pc (map (\<lambda>(r, v). La r v) ?rvs)" "code_at code (pc + 3) relocation_loop"
    using code_at_append [of code pc "[La A0 lo, La A1 hi, La A2 la]" relocation_loop] assms(1)
    by (simp_all add: relocate_def numeral_eq_Suc)
  have regs: "gpr ?s A0 = lo" "gpr ?s A1 = hi" "gpr ?s A2 = la" "memory ?s = memory s" "csr_file ?s = csr_file s"
    by (simp_all add: set_reg_def)
  obtain s' where s': "reaches code callee (At (pc + 3), ?s) (At (pc + 3 + 6), s')"
    "memory s' = copy_words lo la (word_count lo hi) (memory s)" "csr_file s' = csr_file s"
    "\<And>r. r \<notin> {T0, A0, A2} \<Longrightarrow> gpr s' r = gpr ?s r"
    using relocation_loop_reaches [OF at(2), of ?s "word_count lo hi" callee] assms(2-4) unfolding regs by blast
  have "reaches code callee (At pc, s) (At (pc + 9), s')"
    using reaches_trans [OF load_regs [OF at(1), of callee s]] s'(1) by (simp add: numeral_eq_Suc)
  then show thesis using s'(2-4) by (intro that [of s']) (simp_all add: set_reg_def)
qed

lemma clear_reaches:
  assumes "code_at code pc ([La A0 lo, La A1 hi] @ clear_loop)" and "aligned lo" and "unat hi \<le> 4294967292"
  obtains s' where "reaches code callee (At pc, s) (At (pc + 6), s')"
    and "memory s' = clear_words lo (word_count lo hi) (memory s)" and "csr_file s' = csr_file s"
    and "\<And>r. r \<notin> {A0, A1} \<Longrightarrow> gpr s' r = gpr s r"
proof -
  let ?rvs = "[(A0, lo), (A1, hi)]"
  let ?s = "fold (\<lambda>(r, v). set_reg r v) ?rvs s"
  have at: "code_at code pc (map (\<lambda>(r, v). La r v) ?rvs)" "code_at code (pc + 2) clear_loop"
    using code_at_append [of code pc "[La A0 lo, La A1 hi]" clear_loop] assms(1)
    by (simp_all add: numeral_eq_Suc)
  have regs: "gpr ?s A0 = lo" "gpr ?s A1 = hi" "memory ?s = memory s" "csr_file ?s = csr_file s"
    by (simp_all add: set_reg_def)
  obtain s' where s': "reaches code callee (At (pc + 2), ?s) (At (pc + 2 + 4), s')"
    "memory s' = clear_words lo (word_count lo hi) (memory s)" "csr_file s' = csr_file s"
    "\<And>r. r \<noteq> A0 \<Longrightarrow> gpr s' r = gpr ?s r"
    using clear_loop_reaches [OF at(2), of ?s "word_count lo hi" callee] assms(2,3) unfolding regs by blast
  have "reaches code callee (At pc, s) (At (pc + 6), s')"
    using reaches_trans [OF load_regs [OF at(1), of callee s]] s'(1) by (simp add: numeral_eq_Suc)
  then show thesis using s'(2-4) by (intro that [of s']) (simp_all add: set_reg_def)
qed

subsection \<open>Start\<close>

text \<open>What memory holds when \<open>main\<close> is called, as one function of the memory at reset.\<close>

lemma start_reaches:
  assumes "linked L"
  obtains s' where "reaches (start_code icache L) callee (At 0, s) (At 36, s')"
    and "memory s' = clear_words (sbss L) (word_count (sbss L) (ebss L))
      (copy_words (sdata L) (la_data L) (word_count (sdata L) (edata L))
        (copy_words (stext L) (la_text L) (word_count (stext L) (etext L))
          (copy_words (svectors L) (la_vectors L) (word_count (svectors L) (evectors L)) (memory s))))"
    and "csr_file s' = (csr_file s)(MSTATUS := csr_file s MSTATUS AND NOT 8)"
    and "gpr s' Sp = estack L" and "gpr s' Gp = global_pointer L"
proof -
  let ?code = "start_code icache L"
  have at: "code_at ?code 0 [Csrci MSTATUS 8, La Sp (estack L), La Gp (global_pointer L)]"
    "code_at ?code 3 (relocate (svectors L) (evectors L) (la_vectors L))"
    "code_at ?code 12 (relocate (stext L) (etext L) (la_text L))"
    "code_at ?code 21 (relocate (sdata L) (edata L) (la_data L))"
    "code_at ?code 30 ([La A0 (sbss L), La A1 (ebss L)] @ clear_loop)"
    by (simp_all add: code_at_def start_code_def relocate_def relocation_loop_def clear_loop_def)
  have ok: "aligned (svectors L)" "aligned (stext L)" "aligned (sdata L)" "aligned (sbss L)"
    "aligned (la_vectors L)" "aligned (la_text L)" "aligned (la_data L)"
    "unat (evectors L) \<le> 4294967292" "unat (etext L) \<le> 4294967292" "unat (edata L) \<le> 4294967292"
    "unat (ebss L) \<le> 4294967292"
    using assms by (auto simp: linked_def section_in_def word_le_nat_alt)
  let ?c = "(csr_file s)(MSTATUS := csr_file s MSTATUS AND NOT 8)"
  define s1 where "s1 = set_reg Gp (global_pointer L) (set_reg Sp (estack L) (s\<lparr>csr_file := ?c\<rparr>))"
  have "run 3 ?code callee (At 0, s) = Some (At 3, s1)"
    using step_at [OF at(1)] by (simp add: run_numeral exec_def numeral_eq_Suc s1_def)
  then have one: "reaches ?code callee (At 0, s) (At 3, s1)" unfolding reaches_def by blast
  obtain s2 where s2: "reaches ?code callee (At 3, s1) (At (3 + 9), s2)"
    "memory s2 = copy_words (svectors L) (la_vectors L) (word_count (svectors L) (evectors L)) (memory s1)"
    "csr_file s2 = csr_file s1" "\<And>r. r \<notin> {T0, A0, A1, A2} \<Longrightarrow> gpr s2 r = gpr s1 r"
    using relocate_reaches [OF at(2) ok(1,5,8), where callee = callee and s = "s1"] by blast
  obtain s3 where s3: "reaches ?code callee (At 12, s2) (At (12 + 9), s3)"
    "memory s3 = copy_words (stext L) (la_text L) (word_count (stext L) (etext L)) (memory s2)"
    "csr_file s3 = csr_file s2" "\<And>r. r \<notin> {T0, A0, A1, A2} \<Longrightarrow> gpr s3 r = gpr s2 r"
    using relocate_reaches [OF at(3) ok(2,6,9), where callee = callee and s = "s2"] by blast
  obtain s4 where s4: "reaches ?code callee (At 21, s3) (At (21 + 9), s4)"
    "memory s4 = copy_words (sdata L) (la_data L) (word_count (sdata L) (edata L)) (memory s3)"
    "csr_file s4 = csr_file s3" "\<And>r. r \<notin> {T0, A0, A1, A2} \<Longrightarrow> gpr s4 r = gpr s3 r"
    using relocate_reaches [OF at(4) ok(3,7,10), where callee = callee and s = "s3"] by blast
  obtain s5 where s5: "reaches ?code callee (At 30, s4) (At (30 + 6), s5)"
    "memory s5 = clear_words (sbss L) (word_count (sbss L) (ebss L)) (memory s4)"
    "csr_file s5 = csr_file s4" "\<And>r. r \<notin> {A0, A1} \<Longrightarrow> gpr s5 r = gpr s4 r"
    using clear_reaches [OF at(5) ok(4,11), where callee = callee and s = "s4"] by blast
  have "reaches ?code callee (At 0, s) (At 36, s5)"
    using reaches_trans [OF one reaches_trans [OF s2(1) [simplified] reaches_trans [OF s3(1) [simplified]
        reaches_trans [OF s4(1) [simplified] s5(1) [simplified]]]]] .
  then show thesis
    using s2(2-4) s3(2-4) s4(2-4) s5(2-4) by (intro that [of s5]) (simp_all add: s1_def set_reg_def)
qed

text \<open>The loops in terms of bytes.\<close>

lemma in_section_iff:
  assumes "unat lo + k \<le> 4294967296"
  shows "unat (x - lo :: u32) < k \<longleftrightarrow> unat lo \<le> unat x \<and> unat x < unat lo + k"
proof (cases "lo \<le> x")
  case True
  then show ?thesis by (auto simp: unat_sub word_le_nat_alt)
next
  case False
  then have lt: "unat x < unat lo" by (simp add: word_le_nat_alt)
  have "unat (x - lo) = 4294967296 + unat x - unat lo"
    using lt unat_sub_if_size [of x lo] by (simp add: word_size)
  then show ?thesis using lt assms by auto
qed

lemma section_bounds:
  assumes "section_in lo hi origin limit" and "limit mod 4 = 0"
  shows "unat lo + 4 * word_count lo hi \<le> limit" and "unat hi \<le> unat lo + 4 * word_count lo hi"
proof -
  have *: "unat lo mod 4 = 0" "unat lo \<le> unat hi" "unat hi \<le> limit"
    using assms(1) by (simp_all add: section_in_def aligned_def word_le_nat_alt)
  then show "unat lo + 4 * word_count lo hi \<le> limit" using assms(2) unfolding word_count_def by presburger
  show "unat hi \<le> unat lo + 4 * word_count lo hi" using * unfolding word_count_def by presburger
qed

text \<open>An image in DRAM, a section below it.\<close>

lemma copy_section:
  assumes "section_in lo hi origin limit" and "limit mod 4 = 0" and "limit \<le> 0x48000000"
    and "0x48000000 \<le> unat la" and "unat la + 4 * word_count lo hi \<le> 4294967296"
  shows "copy_words lo la (word_count lo hi) m x = (if in_section lo hi x then m (la + (x - lo)) else m x)"
    and "in_section lo hi x \<Longrightarrow> 0x48000000 \<le> unat (la + (x - lo))"
proof -
  note b = section_bounds [OF assms(1,2)]
  have lo: "unat lo + 4 * word_count lo hi \<le> 4294967296" using b(1) assms(3) by simp
  have "\<not> unat (y - lo) < 4 * word_count lo hi" if "unat (y - la) < 4 * word_count lo hi" for y
    using that in_section_iff [OF lo, of y] in_section_iff [OF assms(5), of y] b(1) assms(3,4) by linarith
  from copy_words_apply [OF _ this, where m = m and x = x]
  show "copy_words lo la (word_count lo hi) m x = (if in_section lo hi x then m (la + (x - lo)) else m x)"
    using lo by (simp add: in_section_def in_section_iff)
  assume "in_section lo hi x"
  then have "unat (x - lo) < 4 * word_count lo hi" using in_section_iff [OF lo] by (simp add: in_section_def)
  then have "unat (la + (x - lo) - la) < 4 * word_count lo hi" by simp
  then show "0x48000000 \<le> unat (la + (x - lo))" using in_section_iff [OF assms(5), of "la + (x - lo)"] assms(4) by linarith
qed

lemma clear_section:
  assumes "section_in lo hi origin limit" and "limit mod 4 = 0" and "limit \<le> 4294967296"
  shows "clear_words lo (word_count lo hi) m x = (if in_section lo hi x then 0 else m x)"
  using section_bounds(1) [OF assms(1,2)] assms(3)
  by (subst clear_words_apply) (simp_all add: in_section_iff in_section_def)

lemma linked_sections:
  assumes "linked L"
  shows "section_in (svectors L) (evectors L) 0 0x00010000"
    "section_in (stext L) (etext L) 0x07140000 0x07180000"
    "section_in (sdata L) (edata L) 0x00080000 (unat (sbss L))" "unat (sbss L) mod 4 = 0"
    "section_in (sbss L) (ebss L) 0x00080000 (unat (estack L) - 4096)" "(unat (estack L) - 4096) mod 4 = 0"
    "unat (sbss L) \<le> 0x00090000" "unat (estack L) \<le> 0x00090000"
proof -
  show "section_in (svectors L) (evectors L) 0 0x00010000" "section_in (stext L) (etext L) 0x07140000 0x07180000"
    "section_in (sdata L) (edata L) 0x00080000 (unat (sbss L))"
    "section_in (sbss L) (ebss L) 0x00080000 (unat (estack L) - 4096)" "unat (estack L) \<le> 0x00090000"
    using assms by (simp_all add: linked_def)
  show "unat (sbss L) mod 4 = 0" "unat (sbss L) \<le> 0x00090000"
    using assms by (auto simp: linked_def section_in_def aligned_def word_le_nat_alt)
  have "unat (estack L) mod 16 = 0" using assms by (simp add: linked_def)
  then show "(unat (estack L) - 4096) mod 4 = 0" by presburger
qed

lemma linked_images:
  assumes "linked L"
  shows "0x48000000 \<le> unat (la_vectors L)" "0x48000000 \<le> unat (la_text L)" "0x48000000 \<le> unat (la_data L)"
    "unat (la_vectors L) + 4 * word_count (svectors L) (evectors L) \<le> 4294967296"
    "unat (la_text L) + 4 * word_count (stext L) (etext L) \<le> 4294967296"
    "unat (la_data L) + 4 * word_count (sdata L) (edata L) \<le> 4294967296"
proof -
  have l: "0x48000000 \<le> unat (la_vectors L)"
    "unat (la_vectors L) + (unat (evectors L) - unat (svectors L)) \<le> unat (la_text L)"
    "unat (la_text L) + (unat (etext L) - unat (stext L)) \<le> unat (la_data L)"
    "unat (la_data L) + (unat (edata L) - unat (sdata L)) \<le> 0x48100000"
    using assms by (simp_all add: linked_def)
  have w: "4 * word_count lo hi \<le> unat hi - unat lo + 3" for lo hi unfolding word_count_def by linarith
  show "0x48000000 \<le> unat (la_vectors L)" "0x48000000 \<le> unat (la_text L)" "0x48000000 \<le> unat (la_data L)"
    using l by linarith+
  show "unat (la_vectors L) + 4 * word_count (svectors L) (evectors L) \<le> 4294967296"
    "unat (la_text L) + 4 * word_count (stext L) (etext L) \<le> 4294967296"
    "unat (la_data L) + 4 * word_count (sdata L) (edata L) \<le> 4294967296"
    using l w [of "svectors L" "evectors L"] w [of "stext L" "etext L"] w [of "sdata L" "edata L"] by linarith+
qed

text \<open>Where the words of each section are.\<close>

lemma section_places:
  assumes "linked L"
  shows "in_section (svectors L) (evectors L) x \<Longrightarrow> unat x < 0x00010000"
    and "in_section (stext L) (etext L) x \<Longrightarrow> 0x07140000 \<le> unat x \<and> unat x < 0x07180000"
    and "in_section (sdata L) (edata L) x \<Longrightarrow> 0x00080000 \<le> unat x \<and> unat x < unat (sbss L)"
    and "in_section (sbss L) (ebss L) x \<Longrightarrow> unat (sbss L) \<le> unat x \<and> unat x < 0x00090000"
    and "0x00080000 \<le> unat (sbss L) \<and> unat (sbss L) \<le> 0x00090000"
proof -
  note sec = linked_sections [OF assms]
  have lo: "0x07140000 \<le> unat (stext L)" "0x00080000 \<le> unat (sdata L)" "0x00080000 \<le> unat (sbss L)"
    using sec(2,3,5) by (simp_all add: section_in_def)
  show "in_section (svectors L) (evectors L) x \<Longrightarrow> unat x < 0x00010000"
    using section_bounds(1) [OF sec(1)] by (auto simp: in_section_def)
  show "in_section (stext L) (etext L) x \<Longrightarrow> 0x07140000 \<le> unat x \<and> unat x < 0x07180000"
    using section_bounds(1) [OF sec(2)] lo by (auto simp: in_section_def)
  show "in_section (sdata L) (edata L) x \<Longrightarrow> 0x00080000 \<le> unat x \<and> unat x < unat (sbss L)"
    using section_bounds(1) [OF sec(3,4)] lo by (auto simp: in_section_def)
  show "in_section (sbss L) (ebss L) x \<Longrightarrow> unat (sbss L) \<le> unat x \<and> unat x < 0x00090000"
    using section_bounds(1) [OF sec(5,6)] sec(8) by (auto simp: in_section_def)
  show "0x00080000 \<le> unat (sbss L) \<and> unat (sbss L) \<le> 0x00090000" using lo sec(7) by simp
qed

lemma section_covered:
  assumes "linked L"
  shows "svectors L \<le> x \<Longrightarrow> x < evectors L \<Longrightarrow> in_section (svectors L) (evectors L) x"
    and "stext L \<le> x \<Longrightarrow> x < etext L \<Longrightarrow> in_section (stext L) (etext L) x"
    and "sdata L \<le> x \<Longrightarrow> x < edata L \<Longrightarrow> in_section (sdata L) (edata L) x"
    and "sbss L \<le> x \<Longrightarrow> x < ebss L \<Longrightarrow> in_section (sbss L) (ebss L) x"
  using section_bounds(2) [OF linked_sections(1) [OF assms]] section_bounds(2) [OF linked_sections(2) [OF assms]]
    section_bounds(2) [OF linked_sections(3) [OF assms] linked_sections(4) [OF assms]]
    section_bounds(2) [OF linked_sections(5) [OF assms] linked_sections(6) [OF assms]]
  by (simp_all add: in_section_def word_le_nat_alt word_less_nat_alt)

text \<open>The memory after the start, byte by byte; the sections do not overlap each other or the images.\<close>

lemma start_memory:
  fixes m :: "u32 \<Rightarrow> u8"
  assumes "linked L"
    and "m1 = copy_words (svectors L) (la_vectors L) (word_count (svectors L) (evectors L)) m"
    and "m2 = copy_words (stext L) (la_text L) (word_count (stext L) (etext L)) m1"
    and "m3 = copy_words (sdata L) (la_data L) (word_count (sdata L) (edata L)) m2"
    and "m4 = clear_words (sbss L) (word_count (sbss L) (ebss L)) m3"
  shows "m4 x =
    (if in_section (svectors L) (evectors L) x then m (la_vectors L + (x - svectors L))
     else if in_section (stext L) (etext L) x then m (la_text L + (x - stext L))
     else if in_section (sdata L) (edata L) x then m (la_data L + (x - sdata L))
     else if in_section (sbss L) (ebss L) x then 0 else m x)"
proof -
  note sec = linked_sections [OF assms(1)] and im = linked_images [OF assms(1)]
  have m1: "m1 y = (if in_section (svectors L) (evectors L) y then m (la_vectors L + (y - svectors L)) else m y)" for y
    using copy_section(1) [OF sec(1) _ _ im(1,4)] by (simp add: assms(2))
  have m2: "m2 y = (if in_section (stext L) (etext L) y then m1 (la_text L + (y - stext L)) else m1 y)" for y
    using copy_section(1) [OF sec(2) _ _ im(2,5)] by (simp add: assms(3))
  have m3: "m3 y = (if in_section (sdata L) (edata L) y then m2 (la_data L + (y - sdata L)) else m2 y)" for y
    using copy_section(1) [OF sec(3,4) _ im(3,6)] sec(7) by (simp add: assms(4))
  have m4: "m4 y = (if in_section (sbss L) (ebss L) y then 0 else m3 y)" for y
    using clear_section [OF sec(5,6)] sec(8) by (simp add: assms(5))
  note place = section_places [OF assms(1)]
  have high: "\<not> in_section (svectors L) (evectors L) y" "\<not> in_section (stext L) (etext L) y"
    if "0x48000000 \<le> unat y" for y
    using that place(1,2) [of y] by linarith+
  have t: "in_section (stext L) (etext L) x \<Longrightarrow> 0x48000000 \<le> unat (la_text L + (x - stext L))"
    using copy_section(2) [OF sec(2) _ _ im(2,5)] by simp
  have d: "in_section (sdata L) (edata L) x \<Longrightarrow> 0x48000000 \<le> unat (la_data L + (x - sdata L))"
    using copy_section(2) [OF sec(3,4) _ im(3,6)] sec(7) by simp
  have apart: "in_section (svectors L) (evectors L) x \<Longrightarrow> \<not> in_section (stext L) (etext L) x"
    "in_section (svectors L) (evectors L) x \<Longrightarrow> \<not> in_section (sdata L) (edata L) x"
    "in_section (svectors L) (evectors L) x \<Longrightarrow> \<not> in_section (sbss L) (ebss L) x"
    "in_section (stext L) (etext L) x \<Longrightarrow> \<not> in_section (sdata L) (edata L) x"
    "in_section (stext L) (etext L) x \<Longrightarrow> \<not> in_section (sbss L) (ebss L) x"
    "in_section (sdata L) (edata L) x \<Longrightarrow> \<not> in_section (sbss L) (ebss L) x"
    using place(1-4) [of x] place(5) by linarith+
  show ?thesis using apart high t d by (simp add: m4 m3 m2 m1)
qed

text \<open>What the equation says of each section.\<close>

lemma start_image:
  assumes "linked L" and "\<And>x. m' x =
    (if in_section (svectors L) (evectors L) x then m (la_vectors L + (x - svectors L))
     else if in_section (stext L) (etext L) x then m (la_text L + (x - stext L))
     else if in_section (sdata L) (edata L) x then m (la_data L + (x - sdata L))
     else if in_section (sbss L) (ebss L) x then 0 else m x)"
  shows "section_copied m m' (svectors L) (evectors L) (la_vectors L)"
    and "section_copied m m' (stext L) (etext L) (la_text L)"
    and "section_copied m m' (sdata L) (edata L) (la_data L)"
    and "sbss L \<le> x \<Longrightarrow> x < ebss L \<Longrightarrow> m' x = 0"
    and "SRAM_SHARED_BASE \<le> x \<Longrightarrow> x < SRAM_SHARED_BASE + SRAM_SHARED_SIZE \<Longrightarrow> m' x = m x"
proof -
  note place = section_places [OF assms(1)] and covered = section_covered [OF assms(1)]
  show "section_copied m m' (svectors L) (evectors L) (la_vectors L)"
    using covered(1) by (simp add: section_copied_def assms(2))
  have "\<not> in_section (svectors L) (evectors L) x" if "stext L \<le> x" "x < etext L" for x
    using place(1,2) [of x] covered(2) [OF that] by linarith
  then show "section_copied m m' (stext L) (etext L) (la_text L)"
    using covered(2) by (simp add: section_copied_def assms(2))
  have "\<not> in_section (svectors L) (evectors L) x" "\<not> in_section (stext L) (etext L) x" if "sdata L \<le> x" "x < edata L" for x
    using place(1-4) [of x] place(5) covered(3) [OF that] by linarith+
  then show "section_copied m m' (sdata L) (edata L) (la_data L)"
    using covered(3) by (simp add: section_copied_def assms(2))
  show "m' x = 0" if x: "sbss L \<le> x" "x < ebss L"
  proof -
    have "\<not> in_section (svectors L) (evectors L) x" "\<not> in_section (stext L) (etext L) x" "\<not> in_section (sdata L) (edata L) x"
      using place(1-4) [of x] place(5) covered(4) [OF x] by linarith+
    then show ?thesis using covered(4) [OF x] by (simp add: assms(2))
  qed
  show "m' x = m x" if "SRAM_SHARED_BASE \<le> x" "x < SRAM_SHARED_BASE + SRAM_SHARED_SIZE"
  proof -
    have "0x07130000 \<le> unat x" "unat x < 0x07140000"
      using that by (simp_all add: memory_map word_le_nat_alt word_less_nat_alt)
    then have "\<not> in_section (svectors L) (evectors L) x" "\<not> in_section (stext L) (etext L) x"
      "\<not> in_section (sdata L) (edata L) x" "\<not> in_section (sbss L) (ebss L) x"
      using place(1-4) [of x] place(5) by linarith+
    then show ?thesis by (simp add: assms(2))
  qed
qed

lemma start_tail:
  obtains t where "reaches (start_code icache L) callee (At 36, s) (At (if icache then 42 else 39), t)"
    and "memory t = memory s" and "csr_file t MTVEC = start_vector L" and "csr_file t MSTATUS = csr_file s MSTATUS"
    and "gpr t Sp = gpr s Sp" and "gpr t Gp = gpr s Gp"
proof -
  obtain t where "run (if icache then 6 else 3) (start_code icache L) callee (At 36, s) =
      Some (At (if icache then 42 else 39), t)" and "memory t = memory s" "csr_file t MTVEC = start_vector L"
    "csr_file t MSTATUS = csr_file s MSTATUS" "gpr t Sp = gpr s Sp" "gpr t Gp = gpr s Gp"
    by (cases icache)
      (simp_all add: run_numeral step_def start_code_def relocate_def relocation_loop_def clear_loop_def exec_def
        set_reg_def get_reg_def MTVEC_def MSTATUS_def)
  then show thesis using that unfolding reaches_def by blast
qed

subsection \<open>Trap entry and exit\<close>

lemma store_words_outside:
  "4 * length vs \<le> 4294967296 \<Longrightarrow> 4 * length vs \<le> unat (x - a) \<Longrightarrow> store_words a vs m x = m x"
proof (induction vs arbitrary: a m)
  case Nil
  then show ?case by simp
next
  case (Cons v vs)
  have "4 * length vs + 4 \<le> 4294967296" using Cons.prems(1) by simp
  then have "4 * length vs \<le> unat (x - (a + 4))" using unat_diff_shift [of "length vs" x a] Cons.prems(2) by simp
  then show ?case using Cons by (simp add: store_word_apply)
qed

lemma load_word_cong: "(\<And>i. unat i < 4 \<Longrightarrow> m (a + i) = m' (a + i)) \<Longrightarrow> load_word a m = load_word a m'"
proof -
  assume *: "\<And>i. unat i < 4 \<Longrightarrow> m (a + i) = m' (a + i)"
  then show "load_word a m = load_word a m'" using *[of 0] *[of 1] *[of 2] *[of 3] by (simp add: load_word_def)
qed

lemma load_store_word: "load_word a (store_word a v m) = v"
proof -
  have "store_word a v m (a + 1) = ucast (drop_bit 8 v)" "store_word a v m (a + 2) = ucast (drop_bit 16 v)"
    "store_word a v m (a + 3) = ucast (drop_bit 24 v)" "store_word a v m a = ucast v"
    by (simp_all add: store_word_apply bytes_of_u32_def)
  then show ?thesis by (simp add: load_word_def u32_of_bytes_of_u32)
qed

lemma load_store_words:
  assumes "4 * length vs \<le> 4294967296" and "i < length vs"
  shows "load_word (a + 4 * of_nat i) (store_words a vs m) = vs ! i"
  using assms
proof (induction vs arbitrary: a m i)
  case Nil
  then show ?case by simp
next
  case (Cons v vs)
  show ?case
  proof (cases i)
    case 0
    have "store_words (a + 4) vs (store_word a v m) (a + j) = store_word a v m (a + j)" if "unat j < 4" for j
    proof (rule store_words_outside)
      have "4 * length vs + 4 \<le> 4294967296" using Cons.prems(1) by simp
      from unat_diff_shift [OF this, of "a + j" a] show "4 * length vs \<le> unat (a + j - (a + 4))" using that by simp
    qed (use Cons.prems(1) in simp)
    then have "load_word a (store_words (a + 4) vs (store_word a v m)) = v"
      using load_word_cong [of _ a] load_store_word by metis
    then show ?thesis using 0 by simp
  next
    case (Suc j)
    then show ?thesis using Cons.IH [of j "a + 4"] Cons.prems by (simp add: algebra_simps)
  qed
qed

lemma aligned_and_3: "aligned a \<Longrightarrow> a AND 3 = 0"
proof -
  assume "aligned a"
  then have "unat (take_bit 2 a) = 0" unfolding unsigned_take_bit_eq by (simp add: aligned_def take_bit_eq_mod)
  moreover have "a AND 3 = take_bit 2 a" by (simp add: take_bit_eq_mask mask_eq_exp_minus_1)
  ultimately show "a AND 3 = 0" by (simp add: unat_eq_0)
qed

lemma aligned_add: "aligned a \<Longrightarrow> aligned k \<Longrightarrow> aligned (a + k)"
proof -
  assume "aligned a" "aligned k"
  then have "(unat a + unat k) mod 4 = 0" by (simp add: aligned_def mod_add_eq [symmetric])
  then show "aligned (a + k)" by (simp add: aligned_def unat_word_ariths mod_mod_cancel)
qed

lemma saves_reach:
  assumes "code_at code pc (saves k rs)" and "aligned (gpr s Sp)" and "aligned k" and "Zero \<notin> set rs"
  shows "reaches code callee (At pc, s)
    (At (pc + length rs), s\<lparr>memory := store_words (gpr s Sp + k) (map (gpr s) rs) (memory s)\<rparr>)"
  using assms
proof (induction rs arbitrary: pc k s)
  case Nil
  then show ?case by (simp add: reaches_refl)
next
  case (Cons r rs)
  let ?s = "s\<lparr>memory := store_word (gpr s Sp + k) (gpr s r) (memory s)\<rparr>"
  note at = code_at_append [of code pc "[Sw r k Sp]" "saves (k + 4) rs"]
  have "step code callee pc s = Some (At (pc + 1), ?s)"
    using step_at [OF at(1), of 0] Cons.prems by (auto simp: exec_def get_reg_def aligned_add)
  moreover have "reaches code callee (At (pc + 1), ?s) (At (pc + 1 + length rs),
      ?s\<lparr>memory := store_words (gpr ?s Sp + (k + 4)) (map (gpr ?s) rs) (memory ?s)\<rparr>)"
    using Cons.IH [of "pc + 1" "k + 4" ?s] at(2) Cons.prems aligned_next by simp
  ultimately show ?case using reaches_step by (simp add: add.assoc)
qed

lemma loads_reach:
  assumes "code_at code pc (loads k rs)" and "aligned (gpr s Sp)" and "aligned k" and "Sp \<notin> set rs"
    and "\<And>i. i < length rs \<Longrightarrow> load_word (gpr s Sp + k + 4 * of_nat i) (memory s) = g (rs ! i)"
  shows "reaches code callee (At pc, s)
    (At (pc + length rs), s\<lparr>gpr := (\<lambda>r. if r \<in> set rs then g r else gpr s r)\<rparr>)"
  using assms
proof (induction rs arbitrary: pc k s)
  case Nil
  then show ?case by (simp add: reaches_refl)
next
  case (Cons r rs)
  let ?s = "set_reg r (g r) s"
  note at = code_at_append [of code pc "[Lw r k Sp]" "loads (k + 4) rs"]
  have "step code callee pc s = Some (At (pc + 1), ?s)"
    using step_at [OF at(1), of 0] Cons.prems(1-4) Cons.prems(5) [of 0]
    by (auto simp: exec_def get_reg_def aligned_add)
  moreover have "reaches code callee (At (pc + 1), ?s)
      (At (pc + 1 + length rs), ?s\<lparr>gpr := (\<lambda>r. if r \<in> set rs then g r else gpr ?s r)\<rparr>)"
  proof (rule Cons.IH)
    show "load_word (gpr ?s Sp + (k + 4) + 4 * of_nat i) (memory ?s) = g (rs ! i)" if "i < length rs" for i
      using Cons.prems(4) Cons.prems(5) [of "Suc i"] that by (simp add: set_reg_def algebra_simps)
  qed (use at(2) Cons.prems(1-4) aligned_next in \<open>auto simp: set_reg_def\<close>)
  moreover have "?s\<lparr>gpr := (\<lambda>r. if r \<in> set rs then g r else gpr ?s r)\<rparr> =
      s\<lparr>gpr := (\<lambda>q. if q \<in> set (r # rs) then g q else gpr s q)\<rparr>"
    by (simp add: set_reg_def fun_eq_iff)
  ultimately show ?case using reaches_step by simp
qed

lemma trap_entry_blocks:
  "trap_entry L = [Addi Sp Sp (- 64)] @ saves 0 saved_regs @ [Call (trap_handler L)] @ loads 0 saved_regs @
     [Addi Sp Sp 64, Mret]"
  by (simp add: trap_entry_def saved_regs_def)

lemma trap_entry_at:
  "code_at (vectors_section L) 16 [Addi Sp Sp (- 64)]" "code_at (vectors_section L) 17 (saves 0 saved_regs)"
  "code_at (vectors_section L) 33 [Call (trap_handler L)]" "code_at (vectors_section L) 34 (loads 0 saved_regs)"
  "code_at (vectors_section L) 50 [Addi Sp Sp 64, Mret]"
  by (simp_all add: code_at_def vectors_section_def vector_table_def trap_entry_def saved_regs_def)

text \<open>Every entry of the table leads to the entry code.\<close>

lemma vector_jumps:
  assumes "i < 16"
  shows "step (vectors_section L) callee i s = Some (At 16, s)"
proof -
  have "vector_table ! i = J (16 - int i)"
    using assms by (simp add: vector_table_def nth_Cons' less_Suc_eq numeral_eq_Suc) auto
  moreover have "length vector_table = 16" by (simp add: vector_table_def)
  ultimately show ?thesis
    using assms by (simp add: step_def vectors_section_def nth_append exec_def branch_def)
qed

lemma saved_regs_facts: "length saved_regs = 16" "Zero \<notin> set saved_regs" "Sp \<notin> set saved_regs"
  by (simp_all add: saved_regs_def)

text \<open>The state in which the handler is called.\<close>

lemma trap_saves:
  assumes "aligned (gpr s Sp)"
    and "c = s\<lparr>gpr := (gpr s)(Sp := gpr s Sp - 64),
      memory := store_words (gpr s Sp - 64) (map (gpr s) saved_regs) (memory s)\<rparr>"
  shows "reaches (vectors_section L) callee (At 16, s) (At 33, c)"
proof -
  let ?s = "set_reg Sp (gpr s Sp - 64) s"
  have "step (vectors_section L) callee 16 s = Some (At 17, ?s)"
    using step_at [OF trap_entry_at(1), of 0] by (simp add: exec_def get_reg_def)
  moreover have al: "aligned (gpr s Sp - 64)"
    using aligned_add [OF assms(1), of "- 64"] by (simp add: aligned_def)
  have "map (gpr ?s) saved_regs = map (gpr s) saved_regs" using saved_regs_facts(3) by (auto simp: set_reg_def)
  then have "reaches (vectors_section L) callee (At 17, ?s) (At 33, c)"
    using saves_reach [OF trap_entry_at(2), where s = ?s and callee = callee] al saved_regs_facts
    by (simp add: assms(2) set_reg_def aligned_def)
  ultimately show ?thesis by (rule reaches_step)
qed

lemma trap_restores:
  assumes "aligned (gpr s Sp)" and "gpr c2 Sp = gpr s Sp - 64"
    and "\<And>i. i < 16 \<Longrightarrow> load_word (gpr s Sp - 64 + 4 * of_nat i) (memory c2) = gpr s (saved_regs ! i)"
    and "\<And>r. r \<notin> set saved_regs \<Longrightarrow> r \<noteq> Sp \<Longrightarrow> gpr c2 r = gpr s r"
  shows "reaches (vectors_section L) callee (At 34, c2) (Resumed, c2\<lparr>gpr := gpr s\<rparr>)"
proof -
  let ?c3 = "c2\<lparr>gpr := (\<lambda>r. if r \<in> set saved_regs then gpr s r else gpr c2 r)\<rparr>"
  have al: "aligned (gpr c2 Sp)"
    using aligned_add [OF assms(1), of "- 64"] assms(2) by (simp add: aligned_def)
  have one: "reaches (vectors_section L) callee (At 34, c2) (At 50, ?c3)"
    using loads_reach [OF trap_entry_at(4) al, where g = "gpr s" and callee = callee] assms(2,3) saved_regs_facts
    by (simp add: aligned_def)
  have eq: "set_reg Sp (gpr ?c3 Sp + 64) ?c3 = c2\<lparr>gpr := gpr s\<rparr>"
    using assms(2,4) saved_regs_facts(3) by (simp add: set_reg_def fun_eq_iff)
  have "run 2 (vectors_section L) callee (At 50, ?c3) = Some (Resumed, set_reg Sp (gpr ?c3 Sp + 64) ?c3)"
    using step_at [OF trap_entry_at(5), of 0] step_at [OF trap_entry_at(5), of 1]
    by (simp add: run_numeral exec_def get_reg_def numeral_eq_Suc)
  then have "reaches (vectors_section L) callee (At 50, ?c3) (Resumed, c2\<lparr>gpr := gpr s\<rparr>)"
    unfolding reaches_def eq by blast
  with one show ?thesis by (rule reaches_trans)
qed

lemma frame_words:
  assumes "i < 16" and "\<And>x. unat (x - a) < 64 \<Longrightarrow> m x = store_words a (map (gpr s) saved_regs) m0 x"
  shows "load_word (a + 4 * of_nat i) m = gpr s (saved_regs ! i)"
proof -
  have "load_word (a + 4 * of_nat i) m = load_word (a + 4 * of_nat i) (store_words a (map (gpr s) saved_regs) m0)"
  proof (rule load_word_cong)
    fix j :: u32
    assume "unat j < 4"
    then have "unat (4 * of_nat i + j :: u32) < 64"
      using assms(1) by (simp add: unat_word_ariths unat_of_nat)
    then show "m (a + 4 * of_nat i + j) = store_words a (map (gpr s) saved_regs) m0 (a + 4 * of_nat i + j)"
      using assms(2) [of "a + 4 * of_nat i + j"] by (simp add: add.assoc)
  qed
  also have "\<dots> = map (gpr s) saved_regs ! i"
    using load_store_words [of "map (gpr s) saved_regs" i] assms(1) saved_regs_facts(1) by simp
  finally show ?thesis using assms(1) saved_regs_facts(1) by simp
qed

lemma no_resume:
  assumes "run k code callee (At p, s) = Some (At q, c)" and "step code callee q c = None"
  shows "run n code callee (At p, s) \<noteq> Some (Resumed, s')"
proof (cases "n \<le> k")
  case True
  then obtain d where "k = n + d" using le_Suc_ex by blast
  moreover have "run d code callee (Resumed, s') = Some (Resumed, s')" by (cases d) simp_all
  ultimately show ?thesis using assms(1) by (auto simp: run_add)
next
  case False
  then obtain d where "n = k + Suc d" using less_imp_Suc_add not_le by (metis add_Suc_right)
  then show ?thesis using assms by (simp add: run_add del: add_Suc_right)
qed

subsection \<open>Properties\<close>

text \<open>C9. The code before \<open>main\<close> ends and has prepared memory: for every layout the linker script allows, after
  finitely many instructions and without a fault it is about to call the constructors, every byte of the
  vectors, the text and the data is the byte of its image, the bytes between \<open>_sbss\<close> and \<open>_ebss\<close>
  are zero, and all other memory, the shared SRAM included, is untouched; stack and global pointer and the
  trap vector are set, the latter to the copied vector table in direct mode, and interrupts are masked.\<close>

theorem startup_prepares_memory:
  assumes "linked L"
  shows "\<exists>n s'. run n (start_code icache L) callee (At 0, s) = Some (At (if icache then 42 else 39), s') \<and>
    section_copied (memory s) (memory s') (svectors L) (evectors L) (la_vectors L) \<and>
    section_copied (memory s) (memory s') (stext L) (etext L) (la_text L) \<and>
    section_copied (memory s) (memory s') (sdata L) (edata L) (la_data L) \<and>
    (\<forall>x. sbss L \<le> x \<and> x < ebss L \<longrightarrow> memory s' x = 0) \<and>
    (\<forall>x. \<not> in_section (svectors L) (evectors L) x \<and> \<not> in_section (stext L) (etext L) x \<and>
       \<not> in_section (sdata L) (edata L) x \<and> \<not> in_section (sbss L) (ebss L) x \<longrightarrow> memory s' x = memory s x) \<and>
    (\<forall>x. SRAM_SHARED_BASE \<le> x \<and> x < SRAM_SHARED_BASE + SRAM_SHARED_SIZE \<longrightarrow> memory s' x = memory s x) \<and>
    gpr s' Sp = estack L \<and> gpr s' Gp = global_pointer L \<and> csr_file s' MTVEC = svectors L \<and>
    csr_file s' MTVEC AND 3 = 0 \<and> \<not> bit (csr_file s' MSTATUS) 3"
proof -
  obtain t where t: "reaches (start_code icache L) callee (At 0, s) (At 36, t)"
    "memory t = clear_words (sbss L) (word_count (sbss L) (ebss L))
      (copy_words (sdata L) (la_data L) (word_count (sdata L) (edata L))
        (copy_words (stext L) (la_text L) (word_count (stext L) (etext L))
          (copy_words (svectors L) (la_vectors L) (word_count (svectors L) (evectors L)) (memory s))))"
    "csr_file t = (csr_file s)(MSTATUS := csr_file s MSTATUS AND NOT 8)" "gpr t Sp = estack L" "gpr t Gp = global_pointer L"
    by (rule start_reaches [OF assms])
  obtain s' where s': "reaches (start_code icache L) callee (At 36, t) (At (if icache then 42 else 39), s')"
    "memory s' = memory t" "csr_file s' MTVEC = start_vector L" "csr_file s' MSTATUS = csr_file t MSTATUS"
    "gpr s' Sp = gpr t Sp" "gpr s' Gp = gpr t Gp"
    by (rule start_tail)
  note mem = start_memory [OF assms refl refl refl refl, of "memory s", folded t(2), folded s'(2)]
  have regs: "gpr s' Sp = estack L" "gpr s' Gp = global_pointer L" "\<not> bit (csr_file s' MSTATUS) 3"
    using s'(4-6) t(3-5) by (simp_all add: bit_simps)
  obtain n where "run n (start_code icache L) callee (At 0, s) = Some (At (if icache then 42 else 39), s')"
    using reaches_trans [OF t(1) s'(1)] unfolding reaches_def by blast
  moreover have "\<forall>x. \<not> in_section (svectors L) (evectors L) x \<and> \<not> in_section (stext L) (etext L) x \<and>
      \<not> in_section (sdata L) (edata L) x \<and> \<not> in_section (sbss L) (ebss L) x \<longrightarrow> memory s' x = memory s x"
    by (simp add: mem)
  moreover have "start_vector L = svectors L" "svectors L AND 3 = 0"
    using assms by (simp_all add: linked_def section_in_def aligned_and_3)
  ultimately show ?thesis using start_image [OF assms(1) mem] s'(3) regs by metis
qed

theorem startup_prepares_memory_witness:
  "\<exists>n s'. run n (start_code False example_symbols) (\<lambda>_ _. None)
      (At 0, \<lparr>gpr = (\<lambda>_. 0), memory = ucast, csr_file = (\<lambda>_. 0x1808)\<rparr>) = Some (At 39, s') \<and>
    memory s' 0x0714A3B1 = ucast (0x4800A771 :: u32) \<and> memory s' 0x00080200 = 0 \<and> memory s' 0x07131000 = 0 \<and>
    gpr s' Sp = 0x00081F10"
proof -
  let ?s = "\<lparr>gpr = (\<lambda>_. 0), memory = ucast, csr_file = (\<lambda>_. 0x1808)\<rparr>"
  have "linked example_symbols"
    by (simp add: linked_def section_in_def aligned_def example_symbols_def)
  from startup_prepares_memory [OF this, of False "\<lambda>_ _. None" ?s]
  obtain n s' where r: "run n (start_code False example_symbols) (\<lambda>_ _. None) (At 0, ?s) = Some (At 39, s')"
    and t: "section_copied ucast (memory s') (stext example_symbols) (etext example_symbols) (la_text example_symbols)"
    and b: "\<forall>x. sbss example_symbols \<le> x \<and> x < ebss example_symbols \<longrightarrow> memory s' x = 0"
    and u: "\<forall>x. SRAM_SHARED_BASE \<le> x \<and> x < SRAM_SHARED_BASE + SRAM_SHARED_SIZE \<longrightarrow> memory s' x = ucast x"
    and p: "gpr s' Sp = estack example_symbols"
    by auto
  have "memory s' 0x0714A3B1 = ucast (0x4800A771 :: u32)"
    using t [unfolded section_copied_def, rule_format, of "0x0714A3B1"] by (simp add: example_symbols_def)
  moreover have "memory s' 0x00080200 = 0" using b [rule_format, of "0x00080200"] by (simp add: example_symbols_def)
  moreover have "memory s' 0x07131000 = 0" using u [rule_format, of "0x07131000"] by (simp add: memory_map)
  ultimately show ?thesis using r p by (auto simp: example_symbols_def)
qed

text \<open>C10. A trap is transparent to the interrupted program: from whichever entry of the vector table the core starts, when
  the handler returns as compiled code does, the entry code ends with \<open>mret\<close> and all 32 registers are as they were, each caller-saved one restored from
  the frame; memory and control registers are as the handler left them.  When the handler does not
  return, nor does the trap.\<close>

theorem trap_entry_preserves_registers:
  assumes "keeps_convention (callee (trap_handler L))" and "aligned (gpr s Sp)"
    and "i < 16"
    and "c = s\<lparr>gpr := (gpr s)(Sp := gpr s Sp - 64),
      memory := store_words (gpr s Sp - 64) (map (gpr s) saved_regs) (memory s)\<rparr>"
  shows "case callee (trap_handler L) c of
      Some c2 \<Rightarrow> \<exists>n. run n (vectors_section L) callee (At i, s) = Some (Resumed, c2\<lparr>gpr := gpr s\<rparr>)
    | None \<Rightarrow> \<forall>n s'. run n (vectors_section L) callee (At i, s) \<noteq> Some (Resumed, s')"
proof -
  note start = reaches_step [OF vector_jumps [OF assms(3)] trap_saves [OF assms(2,4), of L callee]]
  have call: "step (vectors_section L) callee 33 c = map_option (Pair (At 34)) (callee (trap_handler L) c)"
    using step_at [OF trap_entry_at(3), of 0] by (simp add: exec_def)
  show ?thesis
  proof (cases "callee (trap_handler L) c")
    case None
    obtain k where k: "run k (vectors_section L) callee (At i, s) = Some (At 33, c)" using start unfolding reaches_def by blast
    have "run n (vectors_section L) callee (At i, s) \<noteq> Some (Resumed, s')" for n s'
      using no_resume [OF k, of n s'] call None by simp
    then show ?thesis using None by simp
  next
    case (Some c2)
    have keep: "\<And>r. r \<notin> set saved_regs \<Longrightarrow> gpr c2 r = gpr c r"
      "\<And>x. unat (x - gpr c Sp) < 64 \<Longrightarrow> memory c2 x = memory c x"
      using assms(1) Some by (auto simp: keeps_convention_def)
    have "load_word (gpr s Sp - 64 + 4 * of_nat i) (memory c2) = gpr s (saved_regs ! i)" if "i < 16" for i
      using frame_words [OF that, where m = "memory c2" and a = "gpr s Sp - 64" and s = s and ?m0.0 = "memory s"] keep(2) assms(4) by simp
    then have "reaches (vectors_section L) callee (At 34, c2) (Resumed, c2\<lparr>gpr := gpr s\<rparr>)"
      using keep(1) saved_regs_facts(3) assms(4) by (intro trap_restores [OF assms(2)]) auto
    with Some call have "reaches (vectors_section L) callee (At 33, c) (Resumed, c2\<lparr>gpr := gpr s\<rparr>)"
      by (intro reaches_step) simp_all
    from reaches_trans [OF start this] show ?thesis using Some by (simp add: reaches_def)
  qed
qed

theorem trap_entry_preserves_registers_witness:
  "\<exists>n. run n (vectors_section example_symbols) (\<lambda>_ c. Some (c\<lparr>gpr := (gpr c)(Ra := 1, T0 := 2, A0 := 3)\<rparr>))
      (At 7, \<lparr>gpr = (\<lambda>_. 0x00081F00), memory = (\<lambda>_. 0), csr_file = (\<lambda>_. 0)\<rparr>) =
      Some (Resumed, \<lparr>gpr = (\<lambda>_. 0x00081F00),
        memory = store_words 0x00081EC0 (map (\<lambda>_. 0x00081F00) saved_regs) (\<lambda>_. 0), csr_file = (\<lambda>_. 0)\<rparr>)"
proof -
  let ?f = "\<lambda>c. Some (c\<lparr>gpr := (gpr c)(Ra := 1, T0 := 2, A0 := 3)\<rparr>)"
  let ?s = "\<lparr>gpr = (\<lambda>_. 0x00081F00), memory = (\<lambda>_. 0), csr_file = (\<lambda>_. 0)\<rparr>"
  have "keeps_convention ?f" by (auto simp: keeps_convention_def saved_regs_def)
  moreover have "aligned (gpr ?s Sp)" by (simp add: aligned_def)
  ultimately show ?thesis
    using trap_entry_preserves_registers [where callee = "\<lambda>_. ?f" and L = example_symbols and s = ?s and i = 7, OF _ _ _ refl]
    by auto
qed

end
