(* ===== verification/Pigweed.thy ===== *)
theory Pigweed
  imports Hal_Prelude
begin

text \<open>
  \<^verbatim>\<open>third_party/pigweed\<close>: the string hash behind \<^verbatim>\<open>PW_TOKENIZE_STRING\<close>, the status codes and the span.
  A string literal is its characters; its array has one more element, the terminating zero.
\<close>

subsection \<open>Tokens\<close>

definition hash_char :: "u32 \<Rightarrow> char \<Rightarrow> u32" where
  "hash_char hash c = (hash XOR ucast (of_char c :: u8)) * 16777619"

text \<open>The loop from index \<open>i\<close> on; an index out of range is undefined in the source.\<close>

function HashString_loop :: "string \<Rightarrow> nat \<Rightarrow> nat \<Rightarrow> u32 \<Rightarrow> u32" where
  "HashString_loop str len i hash =
     (if i < len then HashString_loop str len (i + 1) (hash_char hash (str ! i)) else hash)"
  by pat_completeness auto
termination by (relation "measure (\<lambda>(str, len, i, hash). len - i)") auto

declare HashString_loop.simps [simp del]

definition HashString :: "string \<Rightarrow> nat \<Rightarrow> u32" where
  "HashString str len = HashString_loop str len 0 2166136261"

definition Tokenize :: "string \<Rightarrow> u32" where
  "Tokenize literal = (let str = literal @ [CHR 0x00] in HashString str (length str - 1))"

subsection \<open>Status\<close>

datatype StatusCode = StatusOk | Cancelled | Unknown | InvalidArgument | DeadlineExceeded | NotFound
  | AlreadyExists | PermissionDenied | ResourceExhausted | FailedPrecondition | Aborted | OutOfRange
  | Unimplemented | Internal | Unavailable | DataLoss | Unauthenticated

fun StatusCode_value :: "StatusCode \<Rightarrow> u32" where
  "StatusCode_value StatusOk = 0"
| "StatusCode_value Cancelled = 1"
| "StatusCode_value Unknown = 2"
| "StatusCode_value InvalidArgument = 3"
| "StatusCode_value DeadlineExceeded = 4"
| "StatusCode_value NotFound = 5"
| "StatusCode_value AlreadyExists = 6"
| "StatusCode_value PermissionDenied = 7"
| "StatusCode_value ResourceExhausted = 8"
| "StatusCode_value FailedPrecondition = 9"
| "StatusCode_value Aborted = 10"
| "StatusCode_value OutOfRange = 11"
| "StatusCode_value Unimplemented = 12"
| "StatusCode_value Internal = 13"
| "StatusCode_value Unavailable = 14"
| "StatusCode_value DataLoss = 15"
| "StatusCode_value Unauthenticated = 16"

definition status_ok :: "StatusCode \<Rightarrow> bool" where
  "status_ok code \<longleftrightarrow> code = StatusOk"

definition OkStatus :: StatusCode where
  "OkStatus = StatusOk"

subsection \<open>Span\<close>

text \<open>A span of elements of \<open>width\<close> bytes; the address of an element is what \<^verbatim>\<open>operator[]\<close> refers to.\<close>

definition pw_span_empty :: "span \<Rightarrow> bool" where
  "pw_span_empty s \<longleftrightarrow> sp_size s = 0"

definition pw_span_index :: "u32 \<Rightarrow> span \<Rightarrow> u32 \<Rightarrow> u32" where
  "pw_span_index width s idx = sp_data s + idx * width"

definition pw_span_end :: "u32 \<Rightarrow> span \<Rightarrow> u32" where
  "pw_span_end width s = sp_data s + sp_size s * width"

subsection \<open>Lemmas\<close>

lemma HashString_loop_foldl:
  assumes "len \<le> length str"
  shows "HashString_loop str len i hash = foldl hash_char hash (drop i (take len str))"
  using assms
proof (induction str len i hash rule: HashString_loop.induct)
  case (1 str len i hash)
  show ?case
  proof (cases "i < len")
    case True
    then have "drop i (take len str) = str ! i # drop (i + 1) (take len str)"
      using "1.prems" by (simp add: Cons_nth_drop_Suc [symmetric])
    then show ?thesis using True 1 by (simp add: HashString_loop.simps [of str len i hash])
  next
    case False
    then show ?thesis by (simp add: HashString_loop.simps [of str len i hash])
  qed
qed

text \<open>The multiplier is odd, so one step can be undone.\<close>

lemma fnv_prime_inverse: "(16777619 :: u32) * 899433627 = 1"
  by simp

lemma hash_char_times: "hash_char hash c * 899433627 = hash XOR ucast (of_char c :: u8)"
proof -
  have "hash_char hash c * 899433627 = (hash XOR ucast (of_char c :: u8)) * (16777619 * 899433627)"
    by (simp only: hash_char_def mult.assoc)
  also have "\<dots> = hash XOR ucast (of_char c :: u8)" by (simp only: fnv_prime_inverse mult_1_right)
  finally show ?thesis .
qed

lemma hash_char_undo: "(hash_char hash c * 899433627) XOR ucast (of_char c :: u8) = hash"
  by (simp add: hash_char_times xor.assoc)

lemma xor_cancel_left: "h XOR a = h XOR b \<longleftrightarrow> a = (b :: u32)"
proof
  assume "h XOR a = h XOR b"
  then have "h XOR (h XOR a) = h XOR (h XOR b)" by (rule arg_cong)
  then show "a = b" by (simp only: xor.assoc [symmetric] xor_self_eq xor.left_neutral)
qed simp

lemma of_char_u8_inject: "(of_char c :: u8) = of_char d \<longleftrightarrow> c = d"
proof
  assume "(of_char c :: u8) = of_char d"
  then have "(of_nat (of_char c) :: u8) = of_nat (of_char d)" by (simp only: of_nat_of_char)
  then have "unat (of_nat (of_char c) :: u8) = unat (of_nat (of_char d) :: u8)" by (rule arg_cong)
  then have "(of_char c :: nat) = of_char d"
    using nat_of_char_less_256 [of c] nat_of_char_less_256 [of d] by (simp add: unat_of_nat)
  then show "c = d" by simp
qed simp

lemma hash_char_inject: "hash_char h c = hash_char h d \<longleftrightarrow> c = d"
proof
  assume "hash_char h c = hash_char h d"
  then have "h XOR ucast (of_char c :: u8) = h XOR ucast (of_char d :: u8)"
    using hash_char_times [of h c] hash_char_times [of h d] by simp
  then have "(ucast (of_char c :: u8) :: u32) = ucast (of_char d :: u8)" by (simp only: xor_cancel_left)
  then have "unat (ucast (of_char c :: u8) :: u32) = unat (ucast (of_char d :: u8) :: u32)" by (rule arg_cong)
  then have "unat (of_char c :: u8) = unat (of_char d :: u8)"
    using unsigned_less [of "of_char c :: u8", where 'a = nat] unsigned_less [of "of_char d :: u8", where 'a = nat] by (simp add: unat_ucast_mod)
  then show "c = d" by (simp only: word_unat_eq_iff [symmetric] of_char_u8_inject)
qed simp

lemma foldl_hash_inject:
  "foldl hash_char h xs = foldl hash_char h' xs \<longleftrightarrow> h = h'"
proof (induction xs arbitrary: h h')
  case (Cons c xs)
  then show ?case by (metis foldl_Cons hash_char_undo)
qed simp

subsection \<open>Properties\<close>

text \<open>A token is the 32-bit FNV-1a hash of the characters of the literal, without its terminator, and
  two literals of one length that differ in exactly one character never share a token.\<close>

theorem token_is_fnv1a:
  "Tokenize literal = foldl hash_char 2166136261 literal \<and>
   (Tokenize (xs @ c # ys) = Tokenize (xs @ d # ys) \<longleftrightarrow> c = d) \<and> Tokenize ''imu sample'' = 0xF59213DC"
proof -
  have fnv: "Tokenize l = foldl hash_char 2166136261 l" for l
    by (simp add: Tokenize_def HashString_def Let_def HashString_loop_foldl)
  moreover have "Tokenize (xs @ c # ys) = Tokenize (xs @ d # ys) \<longleftrightarrow> c = d"
    by (simp add: fnv foldl_hash_inject hash_char_inject)
  moreover have "Tokenize ''imu sample'' = 0xF59213DC" by (simp add: fnv) code_simp
  ultimately show ?thesis by blast
qed

end
