(* ===== verification/Host_Tests.thy ===== *)
theory Host_Tests
  imports Hal_Boot Twi Pigweed
begin

text \<open>
  The unit tests under \<^verbatim>\<open>tests/\<close>, run on the model: each \<^verbatim>\<open>TEST\<close> is one boolean, the conjunction of
  its checks, written over the definitions of the component it tests.  That all of them hold ties the model to
  the behaviour the tests fix for the code.  Left out are the two tests of the AbstractX dispatcher,
  whose code is a parameter.
\<close>

subsection \<open>Boot status: \<open>test_boot_status.cpp\<close>\<close>

definition Status_zero :: Status where
  "Status_zero = \<lparr>st_magic = 0, st_abi_version = 0, st_size_bytes = 0, st_generation = 0, st_state = 0,
     st_failure_reason = 0, st_clock_configuration_generation = 0, st_riscv_core_hz = 0, st_mcause = 0, st_mepc = 0,
     st_mtval = 0, st_reserved = replicate 5 0\<rparr>"

definition valid_status :: Status where
  "valid_status = Status_zero\<lparr>st_magic := kBootStatusMagic, st_abi_version := kBootStatusAbiVersion,
     st_size_bytes := sizeof_Status, st_generation := 1, st_state := State_code Ready, st_riscv_core_hz := 600000000\<rparr>"

definition AcceptsACompleteReadyRecord :: bool where
  "AcceptsACompleteReadyRecord \<longleftrightarrow> Status_is_valid valid_status \<and> sizeof_Status = 64"

definition RejectsUnknownStateAndIncompleteRecord :: bool where
  "RejectsUnknownStateAndIncompleteRecord \<longleftrightarrow>
     \<not> Status_is_valid (valid_status\<lparr>st_state := 5\<rparr>) \<and> \<not> Status_is_valid (valid_status\<lparr>st_generation := 0\<rparr>)"

definition BuildsReadyStatusWithClockConfigurationIdentity :: bool where
  "BuildsReadyStatusWithClockConfigurationIdentity \<longleftrightarrow>
     (let status = make_status Ready NoFailure 7 6 480000000
      in Status_is_valid status \<and> st_state status = State_code Ready \<and> st_generation status = 7 \<and>
         st_clock_configuration_generation status = 6 \<and> st_riscv_core_hz status = 480000000)"

definition BuildsCrashedStatusWithTrapCsrs :: bool where
  "BuildsCrashedStatusWithTrapCsrs \<longleftrightarrow>
     (let status = (make_status Crashed UnexpectedTrap 3 2 600000000)
            \<lparr>st_mcause := 0x00000007, st_mepc := 0x07141A2C, st_mtval := 0x02000010\<rparr>
      in Status_is_valid status \<and> st_state status = State_code Crashed \<and>
         st_failure_reason status = FailureReason_code UnexpectedTrap \<and> st_mcause status = 0x00000007 \<and>
         st_mepc status = 0x07141A2C \<and> st_mtval status = 0x02000010)"

subsection \<open>Clock configuration: \<open>test_clock_config.cpp\<close>\<close>

definition valid_configuration :: ClockConfiguration where
  "valid_configuration = \<lparr>cc_magic = kClockConfigMagic, cc_abi_version = kClockConfigAbiVersion,
     cc_size_bytes = sizeof_ClockConfiguration, cc_generation = 1, cc_riscv_core_hz = 600000000,
     cc_timer_counter_hz = 24000000, cc_uart_parent_hz = 24000000, cc_spi0_parent_hz = 200000000,
     cc_spi1_parent_hz = 200000000, cc_flags = 0, cc_reserved = replicate 6 0\<rparr>"

definition AcceptsCompleteCurrentAbi :: bool where
  "AcceptsCompleteCurrentAbi \<longleftrightarrow> ClockConfiguration_is_valid valid_configuration \<and> sizeof_ClockConfiguration = 64"

definition RejectsIncompleteOrIncompatibleValues :: bool where
  "RejectsIncompleteOrIncompatibleValues \<longleftrightarrow>
     \<not> ClockConfiguration_is_valid (valid_configuration\<lparr>cc_timer_counter_hz := 0\<rparr>) \<and>
     \<not> ClockConfiguration_is_valid
         (valid_configuration\<lparr>cc_abi_version := cc_abi_version valid_configuration + 1\<rparr>)"

text \<open>The bus clock a divider value stands for, as the test decodes it.\<close>

definition decoded_scl :: "u32 \<Rightarrow> u32" where
  "decoded_scl ccr =
     (let n = drop_bit 3 ccr AND 0x07; m = ccr AND 0x07 in 24000000 div (10 * push_bit (unat n) 1 * (m + 1)))"

definition ComputesTwiClockDividersAccurately :: bool where
  "ComputesTwiClockDividersAccurately \<longleftrightarrow>
     decoded_scl (compute_ccr 400000 24000000) = 400000 \<and> decoded_scl (compute_ccr 100000 24000000) = 100000"

subsection \<open>Request queue: \<open>test_domain_queue.cpp\<close>\<close>

record FakeRequest =
  fq_id :: u32
  fq_reg :: u32

definition FakeRequest_default :: FakeRequest where
  "FakeRequest_default = \<lparr>fq_id = 0, fq_reg = 0\<rparr>"

definition TestQueue :: "FakeRequest queue_spsc_isr" where
  "TestQueue = DriverRequestQueue 8 FakeRequest_default"

definition CoroutineDomainPushIsDrainedByIsrPop :: "'x taccess \<Rightarrow> 'x \<Rightarrow> bool" where
  "CoroutineDomainPushIsDrainedByIsrPop A x =
     (let ((ok1, q1), x1) = push A \<lparr>fq_id = 1, fq_reg = 0x75\<rparr> TestQueue x;
          ((ok2, q2), x2) = push A \<lparr>fq_id = 2, fq_reg = 0x3B\<rparr> q1 x1;
          (ok3, req3, q3) = pop_from_isr FakeRequest_default q2;
          (ok4, req4, q4) = pop_from_isr req3 q3;
          (ok5, req5, q5) = pop_from_isr req4 q4
      in ok1 \<and> ok2 \<and> ok3 \<and> fq_id req3 = 1 \<and> fq_reg req3 = 0x75 \<and> ok4 \<and> fq_id req4 = 2 \<and> \<not> ok5 \<and>
         empty_from_isr q5)"

text \<open>The loop of the second test.\<close>

fun fill_queue :: "'x taccess \<Rightarrow> u32 list \<Rightarrow> FakeRequest queue_spsc_isr \<Rightarrow> 'x \<Rightarrow> bool \<times> FakeRequest queue_spsc_isr \<times> 'x" where
  "fill_queue A [] q x = (True, q, x)"
| "fill_queue A (i # is) q x =
     (let ((ok, q1), x1) = push A \<lparr>fq_id = i, fq_reg = i\<rparr> q x; (oks, q2, x2) = fill_queue A is q1 x1
      in (ok \<and> oks, q2, x2))"

definition PushRejectsWhenFullInsteadOfOverwriting :: "'x taccess \<Rightarrow> 'x \<Rightarrow> bool" where
  "PushRejectsWhenFullInsteadOfOverwriting A x =
     (let (filled, q1, x1) = fill_queue A (map of_nat [0..<unat (MAX_SIZE TestQueue)]) TestQueue x;
          ((ok2, q2), x2) = push A \<lparr>fq_id = 99, fq_reg = 99\<rparr> q1 x1;
          (n, x3) = size_q A q2 x2;
          (ok3, req3, q3) = pop_from_isr FakeRequest_default q2;
          ((ok4, q4), x4) = push A \<lparr>fq_id = 99, fq_reg = 99\<rparr> q3 x3
      in filled \<and> \<not> ok2 \<and> n = MAX_SIZE TestQueue \<and> ok3 \<and> fq_id req3 = 0 \<and> ok4)"

definition IsrProducerFeedsCoroutineDomainConsumer :: "'x taccess \<Rightarrow> 'x \<Rightarrow> bool" where
  "IsrProducerFeedsCoroutineDomainConsumer A x =
     (let (ok1, q1) = push_from_isr \<lparr>fq_id = 7, fq_reg = 0x0B\<rparr> TestQueue;
          ((ok2, req2, q2), x2) = pop A FakeRequest_default q1 x
      in ok1 \<and> ok2 \<and> fq_id req2 = 7 \<and> fq_reg req2 = 0x0B)"

subsection \<open>Ring: \<open>test_io_processor_ring.cpp\<close>\<close>

text \<open>The ring is declared by the test itself.\<close>

record Message =
  ms_id :: u32
  ms_reg :: u32
  ms_len :: u32

record Ring =
  rg_head :: u32
  rg_tail :: u32
  rg_queue :: "Message list"

definition Ring_setup :: Ring where
  "Ring_setup = \<lparr>rg_head = 0, rg_tail = 0, rg_queue = replicate 8 \<lparr>ms_id = 0, ms_reg = 0, ms_len = 0\<rparr>\<rparr>"

definition ring_store :: "Message \<Rightarrow> Ring \<Rightarrow> Ring" where
  "ring_store msg ring =
     (let head = rg_head ring
      in ring\<lparr>rg_queue := (rg_queue ring)[unat head := msg],
              rg_head := (head + 1) mod of_nat (length (rg_queue ring))\<rparr>)"

definition RingAcceptsMessages :: bool where
  "RingAcceptsMessages \<longleftrightarrow>
     (let ring = ring_store \<lparr>ms_id = 1, ms_reg = 0x75, ms_len = 8\<rparr> Ring_setup
      in rg_head ring = 1 \<and> ms_id (rg_queue ring ! 0) = 1 \<and> ms_reg (rg_queue ring ! 0) = 0x75 \<and>
         ms_len (rg_queue ring ! 0) = 8)"

definition RingDetectsWrap :: bool where
  "RingDetectsWrap \<longleftrightarrow>
     (let ring = fold (\<lambda>i. ring_store \<lparr>ms_id = of_nat i, ms_reg = of_nat i, ms_len = of_nat i\<rparr>)
            [0..<length (rg_queue Ring_setup)] Ring_setup
      in rg_head ring = 0 \<and> ms_id (rg_queue ring ! 7) = 7)"

subsection \<open>Pigweed: \<open>test_pigweed_compat.cpp\<close>\<close>

definition TokenizesStringLiteralsAtCompileTime :: bool where
  "TokenizesStringLiteralsAtCompileTime \<longleftrightarrow> Tokenize ''imu sample'' = 0xF59213DC"

text \<open>The span covers an array of three 32-bit integers at \<open>samples\<close>.\<close>

definition ProvidesStatusAndSpanBasics :: "u32 \<Rightarrow> ('h, 'x) env \<Rightarrow> bool" where
  "ProvidesStatusAndSpanBasics samples e0 =
     (let e = store_u32 (samples + 8) 3 (store_u32 (samples + 4) 2 (store_u32 samples 1 e0));
          sample_span = \<lparr>sp_data = samples, sp_size = 3\<rparr>
      in status_ok OkStatus \<and> StatusCode_value InvalidArgument = StatusCode_value InvalidArgument \<and>
         sp_size sample_span = 3 \<and> load_u32 (pw_span_index 4 sample_span 1) e = 2)"

subsection \<open>Memory layout: \<open>test_riscv_memory_layout.cpp\<close>\<close>

definition KeepsRingMetadataInSramAndPayloadsInDram :: bool where
  "KeepsRingMetadataInSramAndPayloadsInDram \<longleftrightarrow>
     SRAM_SHARED_BASE < DRAM_PAYLOAD_BASE \<and> DRAM_RESERVED_BASE < DRAM_PAYLOAD_BASE \<and>
     DRAM_PAYLOAD_BASE > DTCM_BASE \<and> ITCM_BASE < DTCM_BASE"

definition UsesDistinctMemoryRegionsForControlAndData :: bool where
  "UsesDistinctMemoryRegionsForControlAndData \<longleftrightarrow>
     (let regions = [ITCM_BASE, DTCM_BASE, SRAM_SHARED_BASE, DRAM_PAYLOAD_BASE]
      in regions ! 0 \<noteq> regions ! 1 \<and> regions ! 1 \<noteq> regions ! 2 \<and> regions ! 2 \<noteq> regions ! 3)"

subsection \<open>Lemmas\<close>

lemma boot_tests:
  "AcceptsACompleteReadyRecord" "RejectsUnknownStateAndIncompleteRecord"
  "BuildsReadyStatusWithClockConfigurationIdentity" "BuildsCrashedStatusWithTrapCsrs"
  by code_simp+

lemma clock_tests:
  "AcceptsCompleteCurrentAbi" "RejectsIncompleteOrIncompatibleValues" "ComputesTwiClockDividersAccurately"
  by code_simp+

text \<open>The comments of the test expect the dividers \<open>0x0A\<close> and \<open>0x1A\<close>; the search returns the first of several exact ones.\<close>

lemma ccr_of_test: "compute_ccr 400000 24000000 = 0x05" "compute_ccr 100000 24000000 = 0x15"
  by code_simp+

lemmas queue_eval = push_def pop_def size_q_def TestQueue_def DriverRequestQueue_def queue_spsc_isr_new_def
  queue_spsc_isr_base_def push_implementation_def pop_from_isr_def pop_implementation_def push_from_isr_def
  get_next_index_def empty_from_isr_def Let_def

lemma eight_numbers: "[0..<8] = [0, 1, 2, 3, 4, 5, 6, 7 :: nat]"
  by code_simp

lemma queue_tests:
  "CoroutineDomainPushIsDrainedByIsrPop A x" "PushRejectsWhenFullInsteadOfOverwriting A x"
  "IsrProducerFeedsCoroutineDomainConsumer A x"
  by (simp_all add: CoroutineDomainPushIsDrainedByIsrPop_def PushRejectsWhenFullInsteadOfOverwriting_def
      IsrProducerFeedsCoroutineDomainConsumer_def queue_eval eight_numbers)

lemma ring_tests: "RingAcceptsMessages" "RingDetectsWrap"
  by code_simp+

lemma other_tests:
  "TokenizesStringLiteralsAtCompileTime" "KeepsRingMetadataInSramAndPayloadsInDram"
  "UsesDistinctMemoryRegionsForControlAndData"
  by code_simp+

lemma span_test:
  fixes e :: "('h, 'x) env"
  shows "ProvidesStatusAndSpanBasics samples e"
proof -
  have "load_u32 (samples + 4) (store_u32 (samples + 8) 3 e') = load_u32 (samples + 4) e'" for e' :: "('h, 'x) env"
    by (simp add: load_u32_def store_u32_def bytes_of_u32_def add.assoc)
  then show ?thesis
    by (simp add: ProvidesStatusAndSpanBasics_def status_ok_def OkStatus_def pw_span_index_def)
qed

subsection \<open>Properties\<close>

text \<open>The unit tests of the repository hold of the model: all sixteen tests of the boot status, the clock
  configuration, the request queue (for every access policy), the ring, the Pigweed subset and
  the memory layout, each with all its checks.\<close>

theorem unit_tests_hold:
  "AcceptsACompleteReadyRecord \<and> RejectsUnknownStateAndIncompleteRecord \<and>
   BuildsReadyStatusWithClockConfigurationIdentity \<and> BuildsCrashedStatusWithTrapCsrs \<and>
   AcceptsCompleteCurrentAbi \<and> RejectsIncompleteOrIncompatibleValues \<and> ComputesTwiClockDividersAccurately \<and>
   CoroutineDomainPushIsDrainedByIsrPop A x \<and> PushRejectsWhenFullInsteadOfOverwriting A x \<and>
   IsrProducerFeedsCoroutineDomainConsumer A x \<and> RingAcceptsMessages \<and> RingDetectsWrap \<and>
   TokenizesStringLiteralsAtCompileTime \<and> ProvidesStatusAndSpanBasics samples e \<and>
   KeepsRingMetadataInSramAndPayloadsInDram \<and> UsesDistinctMemoryRegionsForControlAndData"
  by (simp add: boot_tests clock_tests queue_tests ring_tests other_tests span_test)

end
