(* ===== verification/Spec2Isabelle.thy ===== *)
theory Spec2Isabelle
  imports Hal_Boot Trap_Handler Ipc_Benchmark Ping_Schedule Resource_Table Timer_Test Platform_Smoke
    Hello_World Fault_Test Imu_Threads Barectf Firmware_Order Startup Host_Tests
begin

text \<open>
  Verification of the firmware for the RISC-V coprocessors (E906, E907) of the Allwinner T527 and
  A733.

  The program.  Linux boots the coprocessor through remoteproc.  Both sides share a window of SRAM:
  Linux leaves a clock configuration there, the firmware answers with a boot status record, rings
  a mailbox doorbell, and keeps a text log in a trace buffer.  The drivers of the firmware
  (mailbox, timer, GPIO, UART, SPI, TWI) are classes of static members.  A coroutine awaits an
  operation by leaving a request in a queue of capacity 8; an interrupt completes the operation,
  takes the request out of the queue and posts the handle of the coroutine to a dispatcher, which
  resumes it later outside the interrupt.  The trap handler routes each interrupt to one driver and
  turns every other trap into a crash report for Linux.  Assembly code prepares memory before \<open>main\<close>
  and saves the registers around the trap handler.

  The model.  \<open>Hal_Prelude\<close> fixes how the code meets the machine.  \<open>env\<close> holds what the code acts on:
  the hardware state behind the volatile accesses (type \<open>'h\<close>), the state of AbstractX (\<open>'x\<close>) and the
  ordinary memory that buffers and awaiter frames are in (\<open>ram\<close>, byte addressed).  \<open>platform\<close> is the
  interface of the two that are not part of the sources: what a bus read, a bus write and a CSR access
  do, and the AbstractX functions the HAL calls (mask and restore interrupts, post a handle, timer
  tick, sleep).  Every theorem holds for every platform; what a theorem needs of the platform is a locale
  of the prelude or a named hypothesis (\<open>word_memory\<close>: the words of a region keep what was stored;
  \<open>dispatcher\<close>: a posted handle is appended to the handles to resume), and the simulated platform
  \<open>sim_platform\<close> interprets each.  Machine integers are words of their width, so sums and products
  wrap as in the code.  A polling loop that may not end is a \<open>partial_function (option)\<close>: not ending
  is \<open>None\<close>, and the theorems about such loops show \<open>Some\<close> under a hypothesis on the device.  Division
  by zero is the value \<open>Inl Division_by_zero\<close>.

  The theories, each with the code it models:

  \<^item> \<open>Spsc_Queue\<close> (\<open>third_party/etl/include/etl/queue_spsc_isr.h\<close>, \<open>hal/include/driver_request_queue.hpp\<close>):
    the ring buffer with 8-bit indices and all its operations.  The queue refines a bounded list,
    for any sequence of operations (locale \<open>bounded_fifo\<close>, interpreted on the ring buffer).
  \<^item> \<open>Fifo_Server\<close>: the contract of a driver that serves requests in the order of arrival (locale \<open>fifo_server\<close>),
    and of one whose completion interrupts never pass a waiting request by (\<open>working_server\<close>); what follows for
    whole runs: service in order, and an end to every wait.  Mailbox, UART receiver and SPI interpret the second,
    TWI the first.
  \<^item> \<open>Memory_Map\<close> (\<open>memory_map.h\<close>): every constant; the shared regions are disjoint and in the window.
  \<^item> \<open>Clock_Config\<close> (\<open>clock_config.hpp\<close>): the record Linux leaves, its check and the copy out of shared
    memory, which returns what was stored.
  \<^item> \<open>Boot_Status\<close> (\<open>boot_status.hpp\<close>): the status record and its publication, store by store; the first
    publication is atomic for a validating reader, a second one is not.
  \<^item> \<open>Msgbox\<close> (\<open>hal_msgbox.hpp\<close>): doorbells and the coroutines that wait for them.
  \<^item> \<open>Hw_Timer\<close> (\<open>hal_timer.hpp\<close>): reading and programming the 64-bit timer through 32-bit halves, the
    periodic tick, the conversion to microseconds.
  \<^item> \<open>Hal_Boot\<close> (\<open>hal_boot.hpp\<close>): the handshake with Linux, on top of the previous four.
  \<^item> \<open>Clic\<close> (\<open>hal_clic.hpp\<close>): the interrupt controller, and the forwarding of GIC groups.
  \<^item> \<open>Gpio\<close> (\<open>hal_gpio.hpp\<close>): pins, pin callbacks, coroutines that wait for an edge, the bank interrupt.
  \<^item> \<open>Uart_Dma\<close> (\<open>hal_uart_dma.hpp\<close>): divisor, asynchronous reads and writes.
  \<^item> \<open>Spi_Dma\<close> (\<open>hal_spi_dma.hpp\<close>): clock divider, transfers of two buses, each with a queue; over any
    interleaving of submissions and interrupts the transfers of a bus complete in order.
  \<^item> \<open>Twi\<close> (\<open>hal_twi.hpp\<close>): the divider search, which returns a nearest clock, and the state machine of
    register reads and writes, driven by interrupts.
  \<^item> \<open>Twi_Bus\<close>: the controller that driver is written for (\<open>twi_ctl\<close>: start, stop and acknowledge requests, the
    interrupt flag, what is on the wire) as the contract \<open>twi_controllers\<close>; whole transfers of driver and
    controller put the right bytes and conditions on the bus, and a failed one releases it.
  \<^item> \<open>Twi_Schedule\<close>: submissions of that driver as single steps with calls of the handler for every bus in between
    (\<open>twi_step\<close>), and the loop with the controllers (\<open>twi_loop\<close>); requests are served in order, none is stranded,
    and a controller without a transfer does not interrupt.
  \<^item> \<open>Trace_Log\<close> (\<open>hal_trace.hpp\<close>): the text log; it stays in its buffer and what it prints reads back.
  \<^item> \<open>Trap_Handler\<close> (\<open>riscv_trap_handler.cpp\<close>): all drivers in one state, interrupt routing, crash report.
  \<^item> \<open>Coroutine_Accounting\<close> and \<open>Firmware\<close>: the drivers together.  \<open>serves\<close> is the account of one operation
    (what it posts and what waits afterwards is what waited before and what it accepted), kept by every
    operation of every driver; \<open>fw_step\<close> has a step for each entry into the firmware, and by the locale
    \<open>firmware_part\<close>, interpreted once per driver, the account and the invariants lift to the whole: every
    accepted coroutine is resumed exactly once, and every reachable state is well formed.
  \<^item> \<open>Firmware_Order\<close>: every run of the firmware is a run of each driver with the rest as its surroundings (locale
    \<open>firmware_view\<close>), so each queue is served in order in the whole firmware too.
  \<^item> \<open>Startup\<close> (\<open>hal/src/startup.S\<close>, \<open>hal/src/riscv_memory_map.ld\<close>): an interpreter for the
    instructions the file uses; the code before \<open>main\<close> ends and has copied and cleared exactly the
    sections, and a trap, from the vector table on, preserves all registers.
  \<^item> \<open>Ipc_Protocol\<close> (\<open>ipc_protocol.hpp\<close>): message descriptors and the descriptor ring with 32-bit indices;
    it is another instance of \<open>bounded_fifo\<close>.
  \<^item> \<open>Ipc_Benchmark\<close> (\<open>apps/ipc_benchmark/src/main.cpp\<close>): the sender.  Its stores interleave one by one with
    Linux (\<open>bm_step\<close>); messages arrive complete and in order.
  \<^item> \<open>Ipc_Ping\<close> (\<open>apps/ipc_ping_test/src/main.cpp\<close>): the echo responder; a round ends whatever the ring indices
    are.
  \<^item> \<open>Ping_Schedule\<close>: its loads and stores one by one, interleaved with Linux (\<open>ping_step\<close>); every request is answered
    in order while Linux keeps to 128 open requests.
  \<^item> \<open>Resource_Table\<close> (\<open>resource_table.c\<close>): the table remoteproc reads, as bytes; it announces the trace log.
  \<^item> \<open>Timer_Test\<close> (\<open>apps/timer_test/src/main.c\<close>): the polling program; its counter read equals that of
    \<open>Hw_Timer\<close>, its heartbeat counts seconds.
  \<^item> \<open>Platform_Smoke\<close> (\<open>apps/platform_smoke_test/src/main.cpp\<close>): the pin sweep.  A probe on
    every pin (\<open>pin_probe\<close>) sees each pin pulsed as often as its place in the table says.
  \<^item> \<open>Hello_World\<close> (\<open>apps/hello_world/src/main.cpp\<close>): two coroutines under an arbitrary schedule.
  \<^item> \<open>Fault_Test\<close> (\<open>apps/fault_test/src/main.cpp\<close>): a fault on purpose, which ends in the crash report.
  \<^item> \<open>Imu_Demo\<close> (\<open>apps/linux_imu_demo/src/main.cpp\<close>): the host program with a request ring and two threads.
  \<^item> \<open>Imu_Threads\<close>: its threads statement by statement (\<open>demo_step\<close>), with the outcomes of every interleaving.
  \<^item> \<open>Barectf\<close> (\<open>third_party/barectf/barectf.c\<close>, \<open>barectf.h\<close>): binary event records in packets.
  \<^item> \<open>Pigweed\<close> (\<open>third_party/pigweed\<close>): string tokens, status codes, spans.
  \<^item> \<open>Host_Tests\<close> (\<open>tests/\<close>): the unit tests of the repository, which hold of the model.

  Each theory has its data and operations first, in the order of the code, then what is needed to
  state the properties (invariants, abstraction functions, example data), then lemmas, then the
  properties.  A theorem with hypotheses is followed by its application to a concrete state.

  Loops.  A loop over a buffer, a table or ring indices is a function that terminates (\<open>ping_loop\<close> by
  the distance of the indices, which wrap).  The endless loops of the programs appear as one round,
  and as a run of any number of rounds (\<open>timer_test_polls\<close>, \<open>smoke_main\<close>, \<open>hello_events\<close>, the
  reflexive transitive closure of \<open>bm_step\<close>, \<open>ping_step\<close>, \<open>fw_step\<close> and \<open>demo_step\<close>).  The interpreter of
  the startup code takes a number of instructions, and the theorems show that some number reaches the
  end; no fuel bounds a theorem.

  Abstractions.  A coroutine handle and a pointer are words, the null ones zero.  A reference the
  code takes to a static member is a pair of a selection and an update function.  The rings shared
  with Linux are records that both sides update; their places in memory are given by
  \<open>ring_head_addr\<close> and \<open>ring_tail_addr\<close>, and memory is sequentially consistent (the fences and acquire
  or release orders of the code are no-ops).  The interrupt
  masking around a read-modify-write is in the model as the calls of the platform, and each handler
  is one step.  An interrupt between the statements of the coroutine side is modelled where the
  driver has more than one masked section: \<open>spi_run\<close>, \<open>twi_step\<close>, \<open>twi_loop\<close> and \<open>fw_step\<close> interleave the parts of a
  submission with interrupts (registering and unregistering a pin callback are one step each), \<open>bm_step\<close> and \<open>ping_step\<close>
  the single loads and stores of sender and responder with Linux, \<open>demo_step\<close> the
  statements of two threads; elsewhere an operation is one step.

  Conditions.  \<open>fw_step\<close> takes every trap but one: the interrupt of a TWI controller that shows its flag while no
  transfer is active on its bus (\<open>expected_trap\<close>).  The handler does not test for it and would resume a coroutine
  a second time.  \<open>Twi_Schedule\<close> proves of the controllers of \<open>Twi_Bus\<close> that they never do this; a controller is taken to
  go on between two runs of the handler, not within one.  The callback of a pin may change the GPIO driver and the
  environment, and leaves the queues alone (\<open>callback_keeps_waiters\<close>); callbacks that call other drivers are outside the
  model.  The theorems on the applications with rings start from rings with the initialisers of the source where
  they say so; the linker script does not load those initialisers, and the section it gives the rings overlaps the
  boot status.  Text that programs print with \<^verbatim>\<open>printf\<close> is collected in a list.

  Not modelled: AbstractX (a submodule whose sources are not in the repository: coroutines, timer
  service and dispatcher are parameters), with the two unit tests of its dispatcher; of the linker
  script, how the linker chooses addresses within a region (\<open>linked\<close> states what the script fixes); the
  rest of the Embedded Template Library; scripts and device trees.  In the modelled files, include guards,
  namespaces and declarations without code have no counterpart.
\<close>

end
